(* ===== verification/Prelude.thy ===== *)
theory Prelude
  imports Complex_Main "HOL-Library.Word" "HOL-Library.Log_Nat"
begin

section \<open>Shared vocabulary: Go integers, durations, errors, decimal text, machines\<close>

text \<open>
  What the component theories share: the two's complement reading of Go's \<open>int64\<close>
  (\<open>s64\<close>), truncating division, durations in nanoseconds, error values with the
  \<open>fmt.Errorf("...: %w")\<close> wrapping, decimal text (\<open>%d\<close>, \<open>%05d\<close>) with its inverse, and
  the run of a step function together with the locale that lifts a one-step invariant to
  every run. Instants (\<open>time.Time\<close>) are nanoseconds on the process's monotonic clock;
  a \<open>time.Duration\<close> is an \<open>int64\<close> number of nanoseconds.
\<close>

named_theorems go_arith \<open>facts on Go's fixed-width integers and durations\<close>
named_theorems frame_simps \<open>fields an operation leaves unchanged\<close>

type_synonym time = int
type_synonym duration = int

subsection \<open>int64\<close>

definition in64 :: "int \<Rightarrow> bool" where
  "in64 x \<longleftrightarrow> - (2 ^ 63) \<le> x \<and> x < 2 ^ 63"

text \<open>The value an \<open>int64\<close> operation stores: reduction modulo \<open>2 ^ 64\<close>, read as signed.\<close>

definition s64 :: "int \<Rightarrow> int" where
  "s64 x = (x + 2 ^ 63) mod 2 ^ 64 - 2 ^ 63"

lemma s64_in64 [go_arith, simp]: "in64 (s64 x)"
proof -
  have "0 \<le> (x + 2 ^ 63) mod 2 ^ 64" "(x + 2 ^ 63) mod 2 ^ 64 < 2 ^ 64" by simp_all
  then show ?thesis unfolding in64_def s64_def by simp
qed

lemma s64_id [go_arith]: "in64 x \<Longrightarrow> s64 x = x"
  by (simp add: in64_def s64_def)

lemma in64_numeral [simp]: "in64 0" "in64 1"
  by (simp_all add: in64_def)

lemma s64_numeral [simp]: "s64 0 = 0" "s64 1 = 1"
  by (simp_all add: s64_def)

lemma s64_add_cong: "s64 (s64 x + y) = s64 (x + y)"
proof -
  have "(s64 x + y + 2 ^ 63) mod 2 ^ 64 = ((x + 2 ^ 63) mod 2 ^ 64 + y) mod 2 ^ 64"
    by (simp add: s64_def)
  also have "\<dots> = (x + 2 ^ 63 + y) mod 2 ^ 64" by (rule mod_add_left_eq)
  finally show ?thesis by (simp add: s64_def ac_simps)
qed

lemma s64_add_cong': "s64 (x + s64 y) = s64 (x + y)"
  using s64_add_cong [of y x] by (simp add: add.commute)

lemmas s64_add = s64_add_cong s64_add_cong'

text \<open>Go's \<open>/\<close> truncates towards zero and panics on a zero divisor.\<close>

definition quot :: "int \<Rightarrow> int \<Rightarrow> int" where
  "quot a b = sgn a * sgn b * (\<bar>a\<bar> div \<bar>b\<bar>)"

definition go_div :: "int \<Rightarrow> int \<Rightarrow> int option" where
  "go_div a b = (if b = 0 then None else Some (quot a b))"

lemma quot_nonneg [go_arith]: "0 \<le> a \<Longrightarrow> 0 < b \<Longrightarrow> quot a b = a div b"
  by (cases "a = 0") (simp_all add: quot_def)

lemma go_div_pos [go_arith]: "0 \<le> a \<Longrightarrow> 0 < b \<Longrightarrow> go_div a b = Some (a div b)"
  by (simp add: go_div_def quot_nonneg)

lemma go_div_zero [simp]: "go_div a 0 = None"
  by (simp add: go_div_def)

text \<open>Going round a ring of \<open>n\<close> places.\<close>

lemma rotate_mod_inj:
  assumes "(c + i) mod n = (c + j) mod n" "i < n" "j < n"
  shows "i = (j :: nat)"
proof -
  have *: "i = j" if "(c + i) mod n = (c + j) mod n" "i \<le> j" "j < n" for i j :: nat
  proof -
    have "n dvd (c + j) - (c + i)" using that by (metis add_le_mono1 add.commute mod_eq_dvd_iff_nat)
    then have "n dvd j - i" by simp
    with that(2,3) show ?thesis by (metis diff_is_0_eq dual_order.antisym gr0I less_imp_diff_less nat_dvd_not_less)
  qed
  from * [of i j] * [of j i] assms show ?thesis by (metis linorder_le_cases)
qed

subsection \<open>Durations and instants\<close>

definition millisecond :: duration where "millisecond = 1000000"
definition second :: duration where "second = 1000000000"
definition minute :: duration where "minute = 60000000000"

lemmas duration_defs = millisecond_def second_def minute_def

text \<open>\<open>Time.Sub\<close> (and \<open>time.Since\<close>): the difference, saturated to an \<open>int64\<close>.\<close>

definition time_sub :: "time \<Rightarrow> time \<Rightarrow> duration" where
  "time_sub t u = max (- (2 ^ 63)) (min (2 ^ 63 - 1) (t - u))"

lemma time_sub_nonneg [go_arith]: "u \<le> t \<Longrightarrow> 0 \<le> time_sub t u"
  by (simp add: time_sub_def)

lemma time_sub_le [go_arith]: "u \<le> t \<Longrightarrow> time_sub t u \<le> t - u"
  by (simp add: time_sub_def)

lemma time_sub_same [simp]: "time_sub t t = 0"
  by (simp add: time_sub_def)

lemma time_sub_exact [go_arith]: "in64 (t - u) \<Longrightarrow> time_sub t u = t - u"
  by (simp add: time_sub_def in64_def)

lemma time_sub_in64 [go_arith, simp]: "in64 (time_sub t u)"
  by (simp add: time_sub_def in64_def)

lemma time_sub_gt_iff [go_arith]: "in64 d \<Longrightarrow> d < 2 ^ 63 - 1 \<Longrightarrow> time_sub t u > d \<longleftrightarrow> t - u > d"
  by (auto simp: time_sub_def in64_def)

definition duration_ms :: "duration \<Rightarrow> int" where
  "duration_ms d = quot d 1000000"

subsection \<open>Error values\<close>

text \<open>
  A Go \<open>error\<close> is compared by identity (the exported sentinels) or read through its text;
  \<open>fmt.Errorf("p: %w", e)\<close> wraps. \<open>Sentinel\<close> values are equal exactly when the variables are.
\<close>

datatype goerr = Sentinel string | Errorf string | Wrap string goerr

fun err_text :: "goerr \<Rightarrow> string" where
  "err_text (Sentinel s) = s"
| "err_text (Errorf s) = s"
| "err_text (Wrap p e) = p @ '': '' @ err_text e"

text \<open>\<open>strings.Contains\<close>, \<open>strings.HasPrefix\<close> and \<open>strings.HasSuffix\<close>.\<close>

fun has_prefix :: "string \<Rightarrow> string \<Rightarrow> bool" where
  "has_prefix s [] = True"
| "has_prefix [] (p # ps) = False"
| "has_prefix (c # s) (p # ps) = (c = p \<and> has_prefix s ps)"

fun str_contains :: "string \<Rightarrow> string \<Rightarrow> bool" where
  "str_contains [] p = (p = [])"
| "str_contains (c # s) p = (has_prefix (c # s) p \<or> str_contains s p)"

lemma has_prefix_iff: "has_prefix s p \<longleftrightarrow> take (length p) s = p"
  by (induction s p rule: has_prefix.induct) auto

lemma has_prefix_append [simp]: "has_prefix (p @ s) p"
  by (simp add: has_prefix_iff)

lemma str_contains_self: "has_prefix s p \<Longrightarrow> str_contains s p"
  by (cases s) (auto simp: has_prefix_iff)

lemma str_contains_append: "str_contains s p \<Longrightarrow> str_contains (q @ s) p"
  by (induction q) auto

subsection \<open>Decimal text\<close>

definition digit_char :: "nat \<Rightarrow> char" where
  "digit_char n = char_of (48 + n)"

definition char_digit :: "char \<Rightarrow> nat" where
  "char_digit c = of_char c - 48"

text \<open>\<open>%d\<close> of an unsigned integer.\<close>

fun dec :: "nat \<Rightarrow> string" where
  "dec n = (if n < 10 then [digit_char n] else dec (n div 10) @ [digit_char (n mod 10)])"

declare dec.simps [simp del]

text \<open>\<open>%0wd\<close>: left-padded with zeros to width \<open>w\<close>.\<close>

definition dec_pad :: "nat \<Rightarrow> nat \<Rightarrow> string" where
  "dec_pad w n = replicate (w - length (dec n)) (CHR ''0'') @ dec n"

definition undec :: "string \<Rightarrow> nat" where
  "undec s = foldl (\<lambda>a c. 10 * a + char_digit c) 0 s"

lemma char_digit_digit [simp]: "n < 10 \<Longrightarrow> char_digit (digit_char n) = n"
  by (simp add: char_digit_def digit_char_def)

lemma undec_append: "undec (s @ [c]) = 10 * undec s + char_digit c"
  by (simp add: undec_def)

lemma undec_dec [simp]: "undec (dec n) = n"
proof (induction n rule: dec.induct)
  case (1 n)
  show ?case
  proof (cases "n < 10")
    case True
    then show ?thesis by (subst dec.simps) (simp add: undec_def)
  next
    case False
    with 1 show ?thesis by (subst dec.simps) (simp add: undec_append)
  qed
qed

lemma dec_inj: "dec m = dec n \<longleftrightarrow> m = n"
  by (metis undec_dec)

lemma undec_zeros: "undec (replicate k (CHR ''0'') @ s) = undec s"
  by (induction k) (simp_all add: undec_def char_digit_def)

lemma undec_dec_pad [simp]: "undec (dec_pad w n) = n"
  by (simp add: dec_pad_def undec_zeros)

lemma dec_length: "n < 10 ^ Suc k \<Longrightarrow> length (dec n) \<le> Suc k"
proof (induction k arbitrary: n)
  case 0
  then show ?case by (subst dec.simps) simp
next
  case (Suc k)
  then have "n div 10 < 10 ^ Suc k" by (simp add: less_mult_imp_div_less)
  from Suc.IH [OF this] show ?case by (subst dec.simps) simp
qed

lemma dec_pad_length: "0 < w \<Longrightarrow> n < 10 ^ w \<Longrightarrow> length (dec_pad w n) = w"
  using dec_length [of n "w - 1"] by (simp add: dec_pad_def)

text \<open>\<open>%d\<close> of a signed integer.\<close>

definition dec_int :: "int \<Rightarrow> string" where
  "dec_int n = (if n < 0 then CHR ''-'' # dec (nat (- n)) else dec (nat n))"

text \<open>\<open>hex.EncodeToString\<close>: two lower-case digits per byte.\<close>

definition hex_digit :: "nat \<Rightarrow> char" where
  "hex_digit n = (if n < 10 then char_of (48 + n) else char_of (87 + n))"

definition hex_string :: "nat list \<Rightarrow> string" where
  "hex_string bs = concat (map (\<lambda>b. [hex_digit (b div 16 mod 16), hex_digit (b mod 16)]) bs)"

lemma hex_string_length: "length (hex_string bs) = 2 * length bs"
  by (induction bs) (simp_all add: hex_string_def)

subsection \<open>Runs of a step function\<close>

text \<open>What the \<open>select\<close> of a background loop received: its stop channel, or a tick.\<close>

datatype loop_signal = StopSignal | TickSignal time

text \<open>
  A component with state is a step function over its events. \<open>run\<close> performs a list of
  events; \<open>run_ok\<close> says that each event meets its guard in the state it is performed in
  (for most components: the clock does not go backwards).
\<close>

primrec run :: "('s \<Rightarrow> 'e \<Rightarrow> 's) \<Rightarrow> 's \<Rightarrow> 'e list \<Rightarrow> 's" where
  "run step s [] = s"
| "run step s (e # es) = run step (step s e) es"

primrec run_ok :: "('s \<Rightarrow> 'e \<Rightarrow> 's) \<Rightarrow> ('s \<Rightarrow> 'e \<Rightarrow> bool) \<Rightarrow> 's \<Rightarrow> 'e list \<Rightarrow> bool" where
  "run_ok step ok s [] = True"
| "run_ok step ok s (e # es) = (ok s e \<and> run_ok step ok (step s e) es)"

lemma run_append [simp]: "run step s (es @ fs) = run step (run step s es) fs"
  by (induction es arbitrary: s) auto

lemma run_ok_append [simp]:
  "run_ok step ok s (es @ fs) \<longleftrightarrow> run_ok step ok s es \<and> run_ok step ok (run step s es) fs"
  by (induction es arbitrary: s) auto

lemma run_ok_True [simp]: "run_ok step (\<lambda>_ _. True) s es"
  by (induction es arbitrary: s) simp_all

locale machine =
  fixes step :: "'s \<Rightarrow> 'e \<Rightarrow> 's" and ok :: "'s \<Rightarrow> 'e \<Rightarrow> bool" and inv :: "'s \<Rightarrow> bool"
  assumes step_inv: "inv s \<Longrightarrow> ok s e \<Longrightarrow> inv (step s e)"
begin

lemma run_inv: "inv s \<Longrightarrow> run_ok step ok s es \<Longrightarrow> inv (run step s es)"
  by (induction es arbitrary: s) (auto intro: step_inv)

end

end
