(* ===== verification/Float64.thy ===== *)
theory Float64
  imports Prelude
begin

section \<open>Go's float64: IEEE 754 binary64 with rounding to nearest even\<close>

text \<open>
  A finite \<open>float64\<close> is the rational number it denotes. \<open>fl x\<close> is the binary64 value
  nearest to \<open>x\<close>, ties to even, with 53 bits of precision and the subnormal range
  (\<open>2 powi -1074\<close> is the least positive value); each arithmetic operation is \<open>fl\<close> of the
  exact result. Infinities and NaN are not represented: every value this program computes
  is a sum or product of converted 64-bit integers, clock differences and finite
  configuration numbers, far below \<open>2 ^ 1023\<close>. The sign of zero is not represented either;
  the program only compares and adds.
\<close>

type_synonym f64 = rat

subsection \<open>Rounding\<close>

text \<open>\<open>flog2 x\<close> is the exponent of \<open>x > 0\<close>: \<open>2 powi flog2 x \<le> x < 2 powi (flog2 x + 1)\<close>.\<close>

definition flog2 :: "rat \<Rightarrow> int" where
  "flog2 x = (if 1 \<le> x then bitlen \<lfloor>x\<rfloor> - 1 else - bitlen (\<lceil>1 / x\<rceil> - 1))"

definition rne :: "rat \<Rightarrow> int" where
  "rne x = (let f = \<lfloor>x\<rfloor>; d = x - of_int f in
     if d < 1 / 2 then f else if d > 1 / 2 then f + 1 else if even f then f else f + 1)"

definition ulp_exp :: "rat \<Rightarrow> int" where
  "ulp_exp x = max (flog2 x - 52) (- 1074)"

definition fl_pos :: "rat \<Rightarrow> f64" where
  "fl_pos x = of_int (rne (x / 2 powi (ulp_exp x))) * 2 powi (ulp_exp x)"

definition fl :: "rat \<Rightarrow> f64" where
  "fl x = (if x = 0 then 0 else if 0 < x then fl_pos x else - fl_pos (- x))"

text \<open>The representable (finite) values.\<close>

definition is_f64 :: "rat \<Rightarrow> bool" where
  "is_f64 x \<longleftrightarrow> (\<exists>m k. x = of_int m * 2 powi k \<and> \<bar>m\<bar> \<le> 2 ^ 53 \<and> - 1074 \<le> k)"

subsection \<open>Round to nearest even on integers\<close>

lemma rne_of_int [simp]: "rne (of_int n) = n"
  by (simp add: rne_def)

lemma rne_mono: "x \<le> y \<Longrightarrow> rne x \<le> rne y"
proof -
  assume le: "x \<le> y"
  show ?thesis
  proof (cases "\<lfloor>x\<rfloor> = \<lfloor>y\<rfloor>")
    case True
    with le show ?thesis by (auto simp: rne_def Let_def)
  next
    case False
    with floor_mono [OF le] have "\<lfloor>x\<rfloor> + 1 \<le> \<lfloor>y\<rfloor>" by simp
    then show ?thesis by (auto simp: rne_def Let_def)
  qed
qed

lemma rne_error: "\<bar>of_int (rne x) - x\<bar> \<le> 1 / 2"
proof -
  have "of_int \<lfloor>x\<rfloor> \<le> x" "x < of_int \<lfloor>x\<rfloor> + 1" by linarith+
  then show ?thesis by (auto simp: rne_def Let_def abs_le_iff)
qed

lemma rne_le_int: "x \<le> of_int n \<Longrightarrow> rne x \<le> n"
  using rne_mono [of x "of_int n"] by simp

lemma rne_ge_int: "of_int n \<le> x \<Longrightarrow> n \<le> rne x"
  using rne_mono [of "of_int n" x] by simp

subsection \<open>The exponent\<close>

lemma powi_mono: "i \<le> j \<Longrightarrow> (2::rat) powi i \<le> 2 powi j"
  by (rule power_int_increasing) simp_all

lemma powi_nat: "0 \<le> k \<Longrightarrow> (2::rat) powi k = of_int (2 ^ nat k)"
  by (simp add: power_int_def)

lemma powi_pos [simp]: "0 < (2::rat) powi k"
  by simp

lemma powi_le_of_int: "0 \<le> k \<Longrightarrow> 2 ^ nat k \<le> n \<Longrightarrow> (2::rat) powi k \<le> of_int n"
  unfolding powi_nat by (simp only: of_int_le_iff)

lemma of_int_le_powi: "0 \<le> k \<Longrightarrow> n \<le> 2 ^ nat k \<Longrightarrow> of_int n \<le> (2::rat) powi k"
  unfolding powi_nat by (simp only: of_int_le_iff)

lemma flog2_ge1:
  assumes "1 \<le> x"
  shows "2 powi flog2 x \<le> x \<and> x < 2 powi (flog2 x + 1)"
proof -
  let ?n = "\<lfloor>x\<rfloor>"
  from assms have n: "0 < ?n" by linarith
  then have b: "2 ^ nat (bitlen ?n - 1) \<le> ?n \<and> ?n < 2 ^ nat (bitlen ?n)" by (rule bitlen_bounds)
  from n have p: "0 < bitlen ?n" using bitlen_nonneg [of ?n] bitlen_eq_zero_iff [of ?n] by linarith
  from b have "(2::rat) powi (bitlen ?n - 1) \<le> of_int ?n"
    using p by (intro powi_le_of_int) auto
  moreover from b have "?n + 1 \<le> 2 ^ nat (bitlen ?n)" by simp
  then have "of_int (?n + 1) \<le> (2::rat) powi (bitlen ?n)"
    using p by (intro of_int_le_powi) auto
  moreover have "of_int ?n \<le> x" "x < of_int (?n + 1)" by linarith+
  ultimately have "2 powi (bitlen ?n - 1) \<le> x" "x < 2 powi (bitlen ?n)" by linarith+
  with assms show ?thesis by (simp add: flog2_def)
qed

lemma flog2_lt1:
  assumes "0 < x" "x < 1"
  shows "2 powi flog2 x \<le> x \<and> x < 2 powi (flog2 x + 1)"
proof -
  let ?y = "1 / x"
  let ?n = "\<lceil>?y\<rceil> - 1"
  from assms have y: "1 < ?y" by simp
  then have n: "0 < ?n" by linarith
  then have b: "2 ^ nat (bitlen ?n - 1) \<le> ?n \<and> ?n < 2 ^ nat (bitlen ?n)" by (rule bitlen_bounds)
  from n have p: "0 < bitlen ?n" using bitlen_nonneg [of ?n] bitlen_eq_zero_iff [of ?n] by linarith
  from b have "(2::rat) powi (bitlen ?n - 1) \<le> of_int ?n"
    using p by (intro powi_le_of_int) auto
  moreover have "of_int ?n < ?y" by linarith
  ultimately have lo: "(2::rat) powi (bitlen ?n - 1) < ?y" by linarith
  from b have "?n + 1 \<le> 2 ^ nat (bitlen ?n)" by simp
  then have "of_int (?n + 1) \<le> (2::rat) powi (bitlen ?n)"
    using p by (intro of_int_le_powi) auto
  moreover have "?y \<le> of_int (?n + 1)" by simp
  ultimately have hi: "?y \<le> (2::rat) powi (bitlen ?n)" by linarith
  have "2 powi (- bitlen ?n) \<le> x"
    using hi assms by (simp add: power_int_minus field_simps)
  moreover have "x < 2 powi (- bitlen ?n + 1)"
  proof -
    have "x * 2 powi (bitlen ?n - 1) < 1" using lo assms by (simp add: field_simps)
    then have "x < 1 / 2 powi (bitlen ?n - 1)" by (simp add: pos_less_divide_eq)
    moreover have "(2::rat) powi (- bitlen ?n + 1) = 1 / 2 powi (bitlen ?n - 1)"
      using power_int_minus [of "2::rat" "bitlen ?n - 1"] by (simp add: field_simps)
    ultimately show ?thesis by simp
  qed
  ultimately show ?thesis using assms by (auto simp: flog2_def)
qed

lemma flog2_bounds: "0 < x \<Longrightarrow> 2 powi flog2 x \<le> x \<and> x < 2 powi (flog2 x + 1)"
  by (cases "1 \<le> x") (use flog2_ge1 flog2_lt1 in auto)

lemma flog2_less: "0 < x \<Longrightarrow> x < 2 powi k \<Longrightarrow> flog2 x < k"
proof (rule ccontr)
  assume "0 < x" "x < 2 powi k" "\<not> flog2 x < k"
  then have "(2::rat) powi k \<le> 2 powi flog2 x" by (intro powi_mono) simp
  with flog2_bounds [OF \<open>0 < x\<close>] \<open>x < 2 powi k\<close> show False by linarith
qed

lemma flog2_mono:
  assumes "0 < x" "x \<le> y"
  shows "flog2 x \<le> flog2 y"
proof (rule ccontr)
  assume "\<not> ?thesis"
  then have "flog2 y + 1 \<le> flog2 x" by simp
  then have "(2::rat) powi (flog2 y + 1) \<le> 2 powi flog2 x" by (rule powi_mono)
  moreover have "2 powi flog2 x \<le> x" "y < 2 powi (flog2 y + 1)"
    using assms flog2_bounds [of x] flog2_bounds [of y] by auto
  ultimately show False using assms by linarith
qed

lemma ulp_exp_mono: "0 < x \<Longrightarrow> x \<le> y \<Longrightarrow> ulp_exp x \<le> ulp_exp y"
  using flog2_mono [of x y] by (simp add: ulp_exp_def)

subsection \<open>What rounding guarantees\<close>

lemma fl_0 [simp]: "fl 0 = 0"
  by (simp add: fl_def)

lemma fl_minus: "fl (- x) = - fl x"
  by (simp add: fl_def)

lemma fl_pos_nonneg: "0 < x \<Longrightarrow> 0 \<le> fl_pos x"
proof -
  assume "0 < x"
  then have "of_int 0 \<le> x / 2 powi ulp_exp x" by simp
  then have "0 \<le> rne (x / 2 powi ulp_exp x)" by (rule rne_ge_int)
  then show ?thesis by (simp add: fl_pos_def)
qed

text \<open>A multiple of the unit in the last place is a fixed point of rounding.\<close>

lemma powi_quotient:
  assumes "e \<le> k"
  shows "of_int m * 2 powi k / 2 powi e = (of_int (m * 2 ^ nat (k - e)) :: rat)"
proof -
  have "(2::rat) powi k = 2 powi (k - e) * 2 powi e"
    by (simp add: power_int_add [symmetric])
  moreover have "(2::rat) powi (k - e) = of_int (2 ^ nat (k - e))"
    using assms by (simp add: powi_nat)
  ultimately show ?thesis by simp
qed

lemma fl_pos_multiple:
  assumes x: "x = of_int m * 2 powi k" and k: "ulp_exp x \<le> k"
  shows "fl_pos x = x"
proof -
  define e where "e = ulp_exp x"
  have q: "x / 2 powi e = of_int (m * 2 ^ nat (k - e))"
    using powi_quotient [of e k m] k x by (simp add: e_def)
  then have "fl_pos x = of_int (m * 2 ^ nat (k - e)) * 2 powi e"
    unfolding fl_pos_def e_def [symmetric] by (simp only: rne_of_int)
  also have "\<dots> = x" unfolding q [symmetric] by simp
  finally show ?thesis .
qed

lemma fl_pos_le_top:
  assumes "0 < x"
  shows "fl_pos x \<le> 2 powi (ulp_exp x + 53)" "flog2 x - 52 = ulp_exp x \<Longrightarrow> 2 powi (ulp_exp x + 52) \<le> fl_pos x"
proof -
  let ?e = "ulp_exp x"
  have b: "2 powi flog2 x \<le> x" "x < 2 powi (flog2 x + 1)" using flog2_bounds [OF assms] by auto
  have "flog2 x + 1 \<le> ?e + 53" by (simp add: ulp_exp_def)
  then have "(2::rat) powi (flog2 x + 1) \<le> 2 powi (?e + 53)" by (rule powi_mono)
  with b have "x \<le> 2 powi (?e + 53)" by linarith
  then have "x / 2 powi ?e \<le> of_int (2 ^ 53)"
    by (simp add: power_int_add field_simps)
  then have "rne (x / 2 powi ?e) \<le> 2 ^ 53" by (rule rne_le_int)
  then have "(of_int (rne (x / 2 powi ?e)) :: rat) \<le> of_int (2 ^ 53)" by (simp only: of_int_le_iff)
  then show "fl_pos x \<le> 2 powi (?e + 53)"
    by (simp add: fl_pos_def power_int_add mult_right_mono)
  assume "flog2 x - 52 = ?e"
  then have "flog2 x = ?e + 52" by simp
  with b have "2 powi (?e + 52) \<le> x" by simp
  then have "of_int (2 ^ 52) \<le> x / 2 powi ?e"
    by (simp add: power_int_add field_simps)
  then have "2 ^ 52 \<le> rne (x / 2 powi ?e)" by (rule rne_ge_int)
  then have "(of_int (2 ^ 52) :: rat) \<le> of_int (rne (x / 2 powi ?e))" by (simp only: of_int_le_iff)
  then show "2 powi (?e + 52) \<le> fl_pos x"
    by (simp add: fl_pos_def power_int_add mult_right_mono)
qed

lemma fl_pos_mono:
  assumes "0 < x" "x \<le> y"
  shows "fl_pos x \<le> fl_pos y"
proof (cases "ulp_exp x = ulp_exp y")
  case True
  have "x / 2 powi ulp_exp x \<le> y / 2 powi ulp_exp x" using assms by (simp add: divide_right_mono)
  then have "rne (x / 2 powi ulp_exp x) \<le> rne (y / 2 powi ulp_exp x)" by (rule rne_mono)
  then show ?thesis using True by (simp add: fl_pos_def mult_right_mono)
next
  case False
  with ulp_exp_mono [OF assms] have lt: "ulp_exp x + 1 \<le> ulp_exp y" by simp
  then have norm: "flog2 y - 52 = ulp_exp y" by (simp add: ulp_exp_def)
  have "fl_pos x \<le> 2 powi (ulp_exp x + 53)" using assms by (simp add: fl_pos_le_top)
  also have "\<dots> \<le> 2 powi (ulp_exp y + 52)" using lt by (intro powi_mono) simp
  also have "\<dots> \<le> fl_pos y" using assms norm by (intro fl_pos_le_top(2)) simp_all
  finally show ?thesis .
qed

theorem fl_mono: "x \<le> y \<Longrightarrow> fl x \<le> fl y"
proof -
  assume le: "x \<le> y"
  consider "x = 0" | "0 < x" | "x < 0" "y \<le> 0" | "x < 0" "0 < y" by linarith
  then show ?thesis
  proof cases
    case 1
    with le show ?thesis using fl_pos_nonneg [of y] by (simp add: fl_def)
  next
    case 2
    with le show ?thesis using fl_pos_mono [of x y] by (simp add: fl_def)
  next
    case 3
    with le show ?thesis
      using fl_pos_mono [of "- y" "- x"] fl_pos_nonneg [of "- x"] by (auto simp: fl_def)
  next
    case 4
    then show ?thesis using fl_pos_nonneg [of y] fl_pos_nonneg [of "- x"] by (simp add: fl_def)
  qed
qed

lemma is_f64_minus [simp]: "is_f64 (- x) \<longleftrightarrow> is_f64 x"
proof -
  have *: "is_f64 (- x)" if x: "is_f64 x" for x
  proof -
    from x obtain m k where "x = of_int m * 2 powi k" "\<bar>m\<bar> \<le> 2 ^ 53" "- 1074 \<le> k"
      by (auto simp: is_f64_def)
    then have "- x = of_int (- m) * 2 powi k" "\<bar>- m\<bar> \<le> 2 ^ 53" "- 1074 \<le> k" by simp_all
    then show ?thesis unfolding is_f64_def by blast
  qed
  from * [of x] * [of "- x"] show ?thesis by auto
qed

lemma fl_pos_exact:
  assumes "is_f64 x" "0 < x"
  shows "fl_pos x = x"
proof -
  from assms obtain m k where x: "x = of_int m * 2 powi k" "\<bar>m\<bar> \<le> 2 ^ 53" "- 1074 \<le> k"
    by (auto simp: is_f64_def)
  from x assms(2) have m: "0 < m"
    using powi_pos [of k] by (auto simp: zero_less_mult_iff dest: less_asym)
  show ?thesis
  proof (cases "m = 2 ^ 53")
    case True
    with x have eq: "x = of_int 1 * 2 powi (k + 53)" by (simp add: power_int_add)
    have "x < 2 powi (k + 54)" unfolding eq by (simp add: power_int_add)
    with assms(2) have "flog2 x < k + 54" by (rule flog2_less)
    then have "ulp_exp x \<le> k + 53" using x(3) by (simp add: ulp_exp_def)
    with eq show ?thesis by (rule fl_pos_multiple)
  next
    case False
    with x(2) m have "m < 2 ^ 53" by simp
    then have "(of_int m :: rat) < of_int (2 ^ 53)" by (simp only: of_int_less_iff)
    then have lt: "x < 2 powi (k + 53)" using x(1) by (simp add: power_int_add)
    from assms(2) lt have "flog2 x < k + 53" by (rule flog2_less)
    then have "ulp_exp x \<le> k" using x(3) by (simp add: ulp_exp_def)
    with x(1) show ?thesis by (rule fl_pos_multiple)
  qed
qed

theorem fl_exact: "is_f64 x \<Longrightarrow> fl x = x"
  using fl_pos_exact [of x] fl_pos_exact [of "- x"] by (auto simp: fl_def)

lemma is_f64_fl_pos:
  assumes "0 < x"
  shows "is_f64 (fl_pos x)"
proof -
  let ?e = "ulp_exp x" and ?m = "rne (x / 2 powi ulp_exp x)"
  have "0 \<le> ?m" using assms by (intro rne_ge_int) simp
  moreover have "?m \<le> 2 ^ 53"
  proof (rule rne_le_int)
    have "flog2 x + 1 \<le> ?e + 53" by (simp add: ulp_exp_def)
    then have "(2::rat) powi (flog2 x + 1) \<le> 2 powi (?e + 53)" by (rule powi_mono)
    with flog2_bounds [OF assms] have "x \<le> 2 powi (?e + 53)" by linarith
    then show "x / 2 powi ?e \<le> of_int (2 ^ 53)" by (simp add: power_int_add field_simps)
  qed
  moreover have "- 1074 \<le> ?e" by (simp add: ulp_exp_def)
  ultimately show ?thesis unfolding is_f64_def fl_pos_def by (intro exI [of _ ?m] exI [of _ ?e]) simp
qed

lemma is_f64_0 [simp]: "is_f64 0"
  unfolding is_f64_def by (intro exI [of _ 0]) simp

theorem is_f64_fl [simp]: "is_f64 (fl x)"
  using is_f64_fl_pos [of x] is_f64_fl_pos [of "- x"] by (simp add: fl_def)

lemma is_f64_of_int: "\<bar>n\<bar> \<le> 2 ^ 53 \<Longrightarrow> is_f64 (of_int n)"
  unfolding is_f64_def by (intro exI [of _ n] exI [of _ 0]) simp

lemma is_f64_scaled: "\<bar>m\<bar> \<le> 2 ^ 53 \<Longrightarrow> - 1074 \<le> k \<Longrightarrow> is_f64 (of_int m * 2 powi k)"
  unfolding is_f64_def by blast

lemma is_f64_1 [simp]: "is_f64 1"
  using is_f64_of_int [of 1] by simp

lemma fl_of_int: "\<bar>n\<bar> \<le> 2 ^ 53 \<Longrightarrow> fl (of_int n) = of_int n"
  by (intro fl_exact is_f64_of_int)

lemma fl_ge: "is_f64 a \<Longrightarrow> a \<le> x \<Longrightarrow> a \<le> fl x"
  using fl_mono [of a x] by (simp add: fl_exact)

lemma fl_le: "is_f64 a \<Longrightarrow> x \<le> a \<Longrightarrow> fl x \<le> a"
  using fl_mono [of x a] by (simp add: fl_exact)

lemma fl_nonneg: "0 \<le> x \<Longrightarrow> 0 \<le> fl x"
  by (simp add: fl_ge)

lemma fl_nonpos: "x \<le> 0 \<Longrightarrow> fl x \<le> 0"
  by (simp add: fl_le)

lemmas fl_intros = fl_mono fl_ge fl_le fl_nonneg

subsection \<open>Error bounds and exact subtractions\<close>

lemma fl_pos_error:
  assumes "0 < x"
  shows "\<bar>fl_pos x - x\<bar> \<le> 2 powi ulp_exp x / 2"
proof -
  define u :: rat where "u = 2 powi ulp_exp x"
  have u: "0 < u" by (simp add: u_def)
  have "fl_pos x - x = (of_int (rne (x / u)) - x / u) * u"
    using u by (simp add: fl_pos_def u_def [symmetric] algebra_simps)
  then have "\<bar>fl_pos x - x\<bar> = \<bar>of_int (rne (x / u)) - x / u\<bar> * u"
    using u by (simp add: abs_mult)
  also have "\<dots> \<le> 1 / 2 * u" using rne_error u by (intro mult_right_mono) simp_all
  finally show ?thesis by (simp add: u_def)
qed

text \<open>In the normal range the relative error is at most \<open>2 powi -53\<close>.\<close>

theorem fl_relative_error:
  assumes "2 powi (- 1022) \<le> x"
  shows "\<bar>fl x - x\<bar> \<le> x * 2 powi (- 53)"
proof -
  have pos: "0 < x" using assms powi_pos [of "- 1022"] by linarith
  have "- 1022 \<le> flog2 x"
  proof (rule ccontr)
    assume "\<not> ?thesis"
    then have "(2::rat) powi (flog2 x + 1) \<le> 2 powi (- 1022)" by (intro powi_mono) simp
    with assms flog2_bounds [OF pos] show False by linarith
  qed
  then have "ulp_exp x = flog2 x - 52" by (simp add: ulp_exp_def)
  moreover have "(2::rat) powi flog2 x = 2 powi (flog2 x - 52) * 2 ^ 52"
    using power_int_add [of "2::rat" "flog2 x - 52" 52] by simp
  ultimately have "(2::rat) powi ulp_exp x / 2 = 2 powi flog2 x * 2 powi (- 53)"
    by (simp add: power_int_minus)
  also have "\<dots> \<le> x * 2 powi (- 53)" using flog2_bounds [OF pos] by (intro mult_right_mono) simp_all
  finally show ?thesis using fl_pos_error [OF pos] pos by (simp add: fl_def)
qed

text \<open>\<open>x--\<close> on a \<open>float64\<close> between 1 and \<open>2 ^ 53\<close> loses nothing.\<close>

lemma is_f64_decrement:
  assumes "is_f64 x" "1 \<le> x" "x \<le> 2 ^ 53"
  shows "is_f64 (x - 1)"
proof -
  from assms(1) obtain m k where x: "x = of_int m * 2 powi k" "\<bar>m\<bar> \<le> 2 ^ 53" "- 1074 \<le> k"
    by (auto simp: is_f64_def)
  show ?thesis
  proof (cases "0 \<le> k")
    case True
    then have "x - 1 = of_int (m * 2 ^ nat k - 1)" using x by (simp add: powi_nat)
    moreover from this assms(2,3) have "of_int 0 \<le> (of_int (m * 2 ^ nat k - 1) :: rat)"
      "(of_int (m * 2 ^ nat k - 1) :: rat) \<le> of_int (2 ^ 53)" by simp_all
    then have "0 \<le> m * 2 ^ nat k - 1" "m * 2 ^ nat k - 1 \<le> 2 ^ 53" by (simp_all only: of_int_le_iff)
    ultimately show ?thesis using is_f64_of_int [of "m * 2 ^ nat k - 1"] by simp
  next
    case False
    define p :: int where "p = 2 ^ nat (- k)"
    have one: "of_int p * (2::rat) powi k = 1"
    proof -
      have "of_int p = (2::rat) powi (- k)" using False by (simp add: p_def powi_nat)
      then show ?thesis by (simp add: power_int_minus)
    qed
    then have eq: "x - 1 = of_int (m - p) * 2 powi k" using x by (simp add: left_diff_distrib)
    have "0 \<le> (of_int (m - p) :: rat) * 2 powi k" using eq assms(2) by simp
    then have "of_int 0 \<le> (of_int (m - p) :: rat)"
      using powi_pos [of k] by (simp only: zero_le_mult_iff of_int_0) linarith
    then have "0 \<le> m - p" by (simp only: of_int_le_iff)
    moreover have "0 \<le> p" by (simp add: p_def)
    ultimately have "\<bar>m - p\<bar> \<le> 2 ^ 53" using x(2) by simp
    with eq x(3) show ?thesis unfolding is_f64_def by blast
  qed
qed

lemma fl_decrement: "is_f64 x \<Longrightarrow> 1 \<le> x \<Longrightarrow> x \<le> 2 ^ 53 \<Longrightarrow> fl (x - 1) = x - 1"
  by (intro fl_exact is_f64_decrement)

subsection \<open>Conversions\<close>

text \<open>\<open>float64(n)\<close> of an integer.\<close>

definition f_of_int :: "int \<Rightarrow> f64" where
  "f_of_int n = fl (of_int n)"

text \<open>
  \<open>int(x)\<close> and \<open>time.Duration(x)\<close>: truncation towards zero. Out of the \<open>int64\<close> range the
  Go specification leaves the value to the implementation; the amd64 instruction gives the
  least \<open>int64\<close>, which is what stands here.
\<close>

definition f_trunc :: "f64 \<Rightarrow> int" where
  "f_trunc x = (if 0 \<le> x then \<lfloor>x\<rfloor> else \<lceil>x\<rceil>)"

definition f_to_int64 :: "f64 \<Rightarrow> int" where
  "f_to_int64 x = (if in64 (f_trunc x) then f_trunc x else - (2 ^ 63))"

text \<open>\<open>Duration.Seconds()\<close> of the standard library: whole seconds plus the fraction, each rounded.\<close>

definition duration_seconds :: "duration \<Rightarrow> f64" where
  "duration_seconds d =
     (let sec = quot d 1000000000; nsec = d - sec * 1000000000
      in fl (f_of_int sec + fl (f_of_int nsec / 1000000000)))"

lemma is_f64_of_int_conv [simp]: "is_f64 (f_of_int n)"
  by (simp add: f_of_int_def)

lemma f_of_int_mono: "m \<le> n \<Longrightarrow> f_of_int m \<le> f_of_int n"
  by (simp add: f_of_int_def fl_mono)

lemma f_of_int_exact: "\<bar>n\<bar> \<le> 2 ^ 53 \<Longrightarrow> f_of_int n = of_int n"
  by (simp add: f_of_int_def fl_of_int)

lemma f_of_int_0 [simp]: "f_of_int 0 = 0"
  by (simp add: f_of_int_def)

lemma f_of_int_nonneg: "0 \<le> n \<Longrightarrow> 0 \<le> f_of_int n"
  by (simp add: f_of_int_def fl_nonneg)

lemma f_of_int_nonpos: "n \<le> 0 \<Longrightarrow> f_of_int n \<le> 0"
  by (simp add: f_of_int_def fl_nonpos)

lemma f_of_int_pos: "1 \<le> n \<Longrightarrow> 1 \<le> f_of_int n"
  using f_of_int_mono [of 1 n] by (simp add: f_of_int_exact)

lemma f_to_int64_of_int: "in64 n \<Longrightarrow> f_to_int64 (of_int n) = n"
  by (simp add: f_to_int64_def f_trunc_def)

lemma f_trunc_mono: "x \<le> y \<Longrightarrow> f_trunc x \<le> f_trunc y"
proof -
  assume le: "x \<le> y"
  consider "0 \<le> x" | "x < 0" "0 \<le> y" | "y < 0" by linarith
  then show ?thesis
  proof cases
    case 2
    then have "\<lceil>x\<rceil> \<le> 0" "0 \<le> \<lfloor>y\<rfloor>" by simp_all
    then have "\<lceil>x\<rceil> \<le> \<lfloor>y\<rfloor>" by (rule order_trans)
    with 2 show ?thesis by (simp add: f_trunc_def)
  qed (use le in \<open>auto simp: f_trunc_def floor_mono ceiling_mono\<close>)
qed

lemma f_trunc_of_int [simp]: "f_trunc (of_int n) = n"
  by (simp add: f_trunc_def)

lemma duration_seconds_0 [simp]: "duration_seconds 0 = 0"
  by (simp add: duration_seconds_def quot_def)

lemma duration_seconds_nonneg: "0 \<le> d \<Longrightarrow> 0 \<le> duration_seconds d"
proof -
  assume d: "0 \<le> d"
  have "0 \<le> d - d div 1000000000 * 1000000000" by presburger
  then have "0 \<le> f_of_int (d - d div 1000000000 * 1000000000)" by (rule f_of_int_nonneg)
  then have "0 \<le> fl (f_of_int (d - d div 1000000000 * 1000000000) / 1000000000)"
    by (intro fl_nonneg) simp
  moreover have "0 \<le> f_of_int (d div 1000000000)" using d by (intro f_of_int_nonneg) (simp add: pos_imp_zdiv_nonneg_iff)
  ultimately show ?thesis using d by (simp add: duration_seconds_def quot_nonneg fl_nonneg Let_def)
qed

text \<open>A whole number of seconds (up to \<open>2 ^ 53\<close>) is exact.\<close>

lemma duration_seconds_whole:
  assumes "0 \<le> n" "n \<le> 2 ^ 53"
  shows "duration_seconds (n * 1000000000) = of_int n"
  using assms by (simp add: duration_seconds_def quot_nonneg f_of_int_exact fl_of_int)

subsection \<open>Upper error bounds for sums and durations\<close>

text \<open>\<open>fl_up\<close> is the factor one rounding can add.\<close>

definition fl_up :: rat where "fl_up = 1 + 2 powi (- 53)"

lemma fl_up_ge1 [simp]: "1 \<le> fl_up"
  by (simp add: fl_up_def)

text \<open>Zero and the values at or above the least normal number round with that factor.\<close>

definition f_normal :: "rat \<Rightarrow> bool" where
  "f_normal x \<longleftrightarrow> x = 0 \<or> 2 powi (- 1022) \<le> x"

lemma powi_neg30: "(2::rat) powi (- 30) = 1 / 1073741824"
  by (simp add: power_int_minus)

lemma f_normalI: "1 / 1073741824 \<le> x \<Longrightarrow> f_normal x"
proof -
  assume "1 / 1073741824 \<le> x"
  moreover have "(2::rat) powi (- 1022) \<le> 2 powi (- 30)" by (rule powi_mono) simp
  ultimately show ?thesis unfolding f_normal_def powi_neg30 by linarith
qed

lemma f_normal_0 [simp]: "f_normal 0"
  by (simp add: f_normal_def)

lemma fl_le_up: "f_normal x \<Longrightarrow> fl x \<le> x * fl_up"
proof -
  assume "f_normal x"
  then consider "x = 0" | "2 powi (- 1022) \<le> x" by (auto simp only: f_normal_def)
  then show ?thesis
  proof cases
    case 2
    then have "\<bar>fl x - x\<bar> \<le> x * 2 powi (- 53)" by (rule fl_relative_error)
    then have "fl x - x \<le> x * 2 powi (- 53)" by (rule abs_le_D1)
    then show ?thesis unfolding fl_up_def distrib_left by simp
  qed simp
qed

lemma fl_le_up_of:
  assumes "f_normal x" "x \<le> y"
  shows "fl x \<le> y * fl_up"
proof -
  have "fl x \<le> x * fl_up" using assms(1) by (rule fl_le_up)
  also have "\<dots> \<le> y * fl_up" using assms(2) fl_up_ge1 by (intro mult_right_mono) linarith+
  finally show ?thesis .
qed

lemma is_f64_neg30: "is_f64 (1 / 1073741824)"
  using is_f64_scaled [of 1 "- 30"] by (simp add: powi_neg30)

lemma sec_exact: "0 \<le> d \<Longrightarrow> in64 d \<Longrightarrow> f_of_int (d div 1000000000) = of_int (d div 1000000000)"
proof -
  assume "0 \<le> d" "in64 d"
  then have "0 \<le> d div 1000000000" "d div 1000000000 \<le> 2 ^ 53" by (auto simp: in64_def)
  then show ?thesis by (simp add: f_of_int_exact)
qed

lemma nsec_exact: "f_of_int (d mod 1000000000) = of_int (d mod 1000000000)"
proof -
  have "0 \<le> d mod 1000000000" "d mod 1000000000 < 1000000000" by simp_all
  then have "\<bar>d mod 1000000000\<bar> \<le> 2 ^ 53" by simp
  then show ?thesis by (rule f_of_int_exact)
qed

lemma duration_seconds_eq:
  "0 \<le> d \<Longrightarrow> in64 d \<Longrightarrow> duration_seconds d =
     fl (of_int (d div 1000000000) + fl (of_int (d mod 1000000000) / 1000000000))"
  by (simp add: duration_seconds_def quot_nonneg Let_def minus_div_mult_eq_mod nsec_exact sec_exact)

text \<open>A positive duration is at least \<open>2 powi -30\<close> seconds, so no step is subnormal.\<close>

lemma nsec_frac: "0 < n \<Longrightarrow> 1 / 1073741824 \<le> (of_int n / 1000000000 :: rat)"
proof -
  assume "0 < n"
  then have "of_int 1 \<le> (of_int n :: rat)" by (simp only: of_int_le_iff)
  then show ?thesis by simp
qed

lemma seconds_sum_ge:
  assumes "0 < d"
  shows "1 / 1073741824 \<le> of_int (d div 1000000000) + fl (of_int (d mod 1000000000) / 1000000000)"
proof (cases "d mod 1000000000 = 0")
  case True
  then have "d = d div 1000000000 * 1000000000" using div_mult_mod_eq [of d 1000000000] by linarith
  with assms have "1 \<le> d div 1000000000" by linarith
  then have "of_int 1 \<le> (of_int (d div 1000000000) :: rat)" by (simp only: of_int_le_iff)
  with True show ?thesis by simp
next
  case False
  then have "0 < d mod 1000000000" using pos_mod_sign [of 1000000000 d] by linarith
  then have "1 / 1073741824 \<le> fl (of_int (d mod 1000000000) / 1000000000)"
    by (intro fl_ge is_f64_neg30 nsec_frac)
  moreover have "0 \<le> (of_int (d div 1000000000) :: rat)"
    using assms by (simp add: pos_imp_zdiv_nonneg_iff)
  ultimately show ?thesis by linarith
qed

lemma duration_seconds_ge: "0 < d \<Longrightarrow> in64 d \<Longrightarrow> 1 / 1073741824 \<le> duration_seconds d"
  using fl_ge [OF is_f64_neg30 seconds_sum_ge [of d]] by (simp add: duration_seconds_eq)

lemma seconds_sum_le:
  assumes "0 \<le> d"
  shows "of_int (d div 1000000000) + fl (of_int (d mod 1000000000) / 1000000000)
    \<le> of_int d / 1000000000 * fl_up"
proof -
  define s n :: rat where "s = of_int (d div 1000000000)" and "n = of_int (d mod 1000000000)"
  have "of_int d = (of_int (d div 1000000000 * 1000000000 + d mod 1000000000) :: rat)" by simp
  then have d: "of_int d = s * 1000000000 + n" unfolding s_def n_def by (simp only: of_int_add of_int_mult of_int_numeral)
  have "0 \<le> s" using assms by (simp add: s_def pos_imp_zdiv_nonneg_iff)
  then have s: "s * 1 \<le> s * fl_up" by (intro mult_left_mono) simp_all
  have "f_normal (n / 1000000000)"
  proof (cases "d mod 1000000000 = 0")
    case False
    then have "0 < d mod 1000000000" using pos_mod_sign [of 1000000000 d] by linarith
    then show ?thesis unfolding n_def by (intro f_normalI nsec_frac)
  qed (simp add: n_def)
  then have "fl (n / 1000000000) \<le> n / 1000000000 * fl_up" by (rule fl_le_up)
  moreover have "of_int d / 1000000000 * fl_up = s * fl_up + n / 1000000000 * fl_up"
    unfolding d by (simp add: field_simps)
  ultimately show ?thesis using s unfolding s_def [symmetric] n_def [symmetric] by linarith
qed

lemma duration_seconds_le:
  assumes "0 \<le> d" "in64 d"
  shows "duration_seconds d \<le> of_int d / 1000000000 * fl_up ^ 2"
proof (cases "d = 0")
  case True
  then show ?thesis by simp
next
  case False
  with assms have "f_normal (of_int (d div 1000000000) + fl (of_int (d mod 1000000000) / 1000000000))"
    by (intro f_normalI seconds_sum_ge) simp
  from fl_le_up_of [OF this seconds_sum_le [OF assms(1)]] show ?thesis
    using assms by (simp add: duration_seconds_eq power2_eq_square mult.assoc)
qed

end
