(* ===== verification/Rate_Limiter.thy ===== *)
theory Rate_Limiter
  imports Float64
begin

section \<open>The write rate limiter (internal/resilience/rate_limiter.go)\<close>

text \<open>
  \<open>WriteRateLimiter\<close> is a token bucket with a \<open>float64\<close> level. Every method takes the mutex,
  reads the clock inside \<open>refill\<close> and works on the level, so a method call is one step and
  the clock reading is an argument of it. The theory holds the record, the operations, the
  level's invariant for every run, the exact number of grants of a burst, a bound on the
  grants of any run that accounts for the rounding, and the behaviour of \<open>WaitAcquire\<close>.
\<close>

record limiter =
  rl_capacity :: int
  rl_refill_rate :: int
  rl_tokens :: f64
  rl_last_refill :: time

definition new_limiter :: "int \<Rightarrow> int \<Rightarrow> time \<Rightarrow> limiter" where
  "new_limiter capacity refill_rate now =
     \<lparr>rl_capacity = capacity, rl_refill_rate = refill_rate,
      rl_tokens = f_of_int capacity, rl_last_refill = now\<rparr>"

definition rl_refill :: "time \<Rightarrow> limiter \<Rightarrow> limiter" where
  "rl_refill now rl =
     (let elapsed = duration_seconds (time_sub now (rl_last_refill rl));
          tokens = fl (rl_tokens rl + fl (elapsed * f_of_int (rl_refill_rate rl)));
          tokens' = (if tokens > f_of_int (rl_capacity rl) then f_of_int (rl_capacity rl) else tokens)
      in rl\<lparr>rl_tokens := tokens', rl_last_refill := now\<rparr>)"

definition try_acquire :: "time \<Rightarrow> limiter \<Rightarrow> bool \<times> limiter" where
  "try_acquire now rl =
     (let rl' = rl_refill now rl
      in if rl_tokens rl' \<ge> 1 then (True, rl'\<lparr>rl_tokens := fl (rl_tokens rl' - 1)\<rparr>)
         else (False, rl'))"

text \<open>
  \<open>WaitAcquire\<close> polls. Each iteration reads the clock under the lock and, without a token,
  selects between the context's end and a 10 ms timer. The environment of an iteration is
  the clock reading and the outcome of that select (\<open>Some e\<close>: the context ended with \<open>e\<close>);
  the result is \<open>None\<close> when the listed iterations are used up and the call still waits.
\<close>

fun wait_acquire :: "(time \<times> goerr option) list \<Rightarrow> limiter \<Rightarrow> (goerr option \<times> limiter) option" where
  "wait_acquire [] rl = None"
| "wait_acquire ((now, sel) # env) rl =
     (let rl' = rl_refill now rl
      in if rl_tokens rl' \<ge> 1 then Some (None, rl'\<lparr>rl_tokens := fl (rl_tokens rl' - 1)\<rparr>)
         else (case sel of
             Some e \<Rightarrow> Some (Some (Wrap ''rate limiter'' e), rl')
           | None \<Rightarrow> wait_acquire env rl'))"

definition tokens_available :: "time \<Rightarrow> limiter \<Rightarrow> int \<times> limiter" where
  "tokens_available now rl = (let rl' = rl_refill now rl in (f_to_int64 (rl_tokens rl'), rl'))"

text \<open>The calls of concurrent goroutines, serialised by the mutex; a waiter's call is one per poll.\<close>

datatype rl_op = RlTry time | RlPoll time | RlTokens time

fun rl_op_time :: "rl_op \<Rightarrow> time" where
  "rl_op_time (RlTry t) = t"
| "rl_op_time (RlPoll t) = t"
| "rl_op_time (RlTokens t) = t"

fun rl_step :: "limiter \<Rightarrow> rl_op \<Rightarrow> limiter" where
  "rl_step rl (RlTry t) = snd (try_acquire t rl)"
| "rl_step rl (RlPoll t) = snd (try_acquire t rl)"
| "rl_step rl (RlTokens t) = snd (tokens_available t rl)"

text \<open>Did the operation hand out a token?\<close>

fun rl_granted :: "limiter \<Rightarrow> rl_op \<Rightarrow> bool" where
  "rl_granted rl (RlTry t) = fst (try_acquire t rl)"
| "rl_granted rl (RlPoll t) = fst (try_acquire t rl)"
| "rl_granted rl (RlTokens t) = False"

primrec grants :: "limiter \<Rightarrow> rl_op list \<Rightarrow> nat" where
  "grants rl [] = 0"
| "grants rl (e # es) = (if rl_granted rl e then 1 else 0) + grants (rl_step rl e) es"

definition rl_ok :: "limiter \<Rightarrow> rl_op \<Rightarrow> bool" where
  "rl_ok rl e \<longleftrightarrow> rl_last_refill rl \<le> rl_op_time e"

definition rl_inv :: "limiter \<Rightarrow> bool" where
  "rl_inv rl \<longleftrightarrow> 0 \<le> rl_capacity rl \<and> 0 \<le> rl_refill_rate rl \<and>
     0 \<le> rl_tokens rl \<and> rl_tokens rl \<le> f_of_int (rl_capacity rl) \<and> is_f64 (rl_tokens rl)"

subsection \<open>One operation\<close>

lemma rl_refill_frame [frame_simps, simp]:
  "rl_capacity (rl_refill now rl) = rl_capacity rl"
  "rl_refill_rate (rl_refill now rl) = rl_refill_rate rl"
  "rl_last_refill (rl_refill now rl) = now"
  by (simp_all add: rl_refill_def Let_def)

lemma rl_step_frame [frame_simps, simp]:
  "rl_capacity (rl_step rl e) = rl_capacity rl"
  "rl_refill_rate (rl_step rl e) = rl_refill_rate rl"
  "rl_last_refill (rl_step rl e) = rl_op_time e"
  by (cases e; simp add: try_acquire_def tokens_available_def Let_def)+

lemma new_limiter_inv: "0 \<le> capacity \<Longrightarrow> 0 \<le> rate \<Longrightarrow> rl_inv (new_limiter capacity rate now)"
  by (simp add: rl_inv_def new_limiter_def f_of_int_nonneg)

lemma rl_added_nonneg:
  assumes "rl_inv rl" "rl_last_refill rl \<le> now"
  shows "0 \<le> fl (duration_seconds (time_sub now (rl_last_refill rl)) * f_of_int (rl_refill_rate rl))"
  using assms by (intro fl_nonneg mult_nonneg_nonneg duration_seconds_nonneg time_sub_nonneg f_of_int_nonneg)
    (simp_all add: rl_inv_def)

lemma rl_refill_inv: "rl_inv rl \<Longrightarrow> rl_last_refill rl \<le> now \<Longrightarrow> rl_inv (rl_refill now rl)"
  using rl_added_nonneg [of rl now]
  by (auto simp: rl_inv_def rl_refill_def Let_def f_of_int_nonneg intro!: fl_nonneg)

lemma rl_refill_ge: "rl_inv rl \<Longrightarrow> rl_last_refill rl \<le> now \<Longrightarrow> rl_tokens rl \<le> rl_tokens (rl_refill now rl)"
  using rl_added_nonneg [of rl now]
  by (auto simp: rl_inv_def rl_refill_def Let_def intro!: fl_ge)

lemma fl_pred_inv: "is_f64 x \<Longrightarrow> 1 \<le> x \<Longrightarrow> 0 \<le> fl (x - 1) \<and> fl (x - 1) \<le> x"
  by (auto intro: fl_nonneg fl_le)

lemma rl_step_inv: "rl_inv rl \<Longrightarrow> rl_ok rl e \<Longrightarrow> rl_inv (rl_step rl e)"
proof -
  assume inv: "rl_inv rl" and ok: "rl_ok rl e"
  define rl' where "rl' = rl_refill (rl_op_time e) rl"
  from inv ok have inv': "rl_inv rl'" by (simp add: rl'_def rl_ok_def rl_refill_inv)
  then have "rl_inv (rl'\<lparr>rl_tokens := fl (rl_tokens rl' - 1)\<rparr>)" if "1 \<le> rl_tokens rl'"
    using that fl_pred_inv [of "rl_tokens rl'"] by (auto simp: rl_inv_def)
  with inv' show ?thesis
    by (cases e) (auto simp: try_acquire_def tokens_available_def rl'_def Let_def)
qed

text \<open>The limiter is a machine whose clock does not go back; the invariant holds in every run.\<close>

interpretation rlm: machine rl_step rl_ok rl_inv
  by unfold_locales (rule rl_step_inv)

text \<open>At an instant at which the bucket was already refilled, refilling changes nothing.\<close>

lemma rl_refill_same: "rl_inv rl \<Longrightarrow> rl_last_refill rl = now \<Longrightarrow> rl_refill now rl = rl"
  by (auto simp: rl_refill_def rl_inv_def Let_def fl_exact)

subsection \<open>What a call returns\<close>

lemma try_acquire_frame [frame_simps, simp]:
  "rl_capacity (snd (try_acquire now rl)) = rl_capacity rl"
  "rl_last_refill (snd (try_acquire now rl)) = now"
  by (simp_all add: try_acquire_def Let_def)

lemma rl_inv_level: "rl_inv rl \<Longrightarrow> rl_capacity rl \<le> 2 ^ 53 \<Longrightarrow> rl_tokens rl \<le> of_int (rl_capacity rl)"
  using f_of_int_exact [of "rl_capacity rl"] by (simp add: rl_inv_def)

lemma rl_inv_le53: "rl_inv rl \<Longrightarrow> rl_capacity rl \<le> 2 ^ 53 \<Longrightarrow> rl_tokens rl \<le> 2 ^ 53"
proof -
  assume inv: "rl_inv rl" "rl_capacity rl \<le> 2 ^ 53"
  then have "(of_int (rl_capacity rl) :: rat) \<le> of_int (2 ^ 53)" by (simp only: of_int_le_iff)
  with rl_inv_level [OF inv] show ?thesis by simp
qed

lemma rl_take_exact:
  "rl_inv rl \<Longrightarrow> rl_capacity rl \<le> 2 ^ 53 \<Longrightarrow> 1 \<le> rl_tokens rl \<Longrightarrow> fl (rl_tokens rl - 1) = rl_tokens rl - 1"
  using rl_inv_le53 [of rl] by (intro fl_decrement) (auto simp: rl_inv_def)

text \<open>
  The token level stays between zero and the capacity in every run of the limiter whose clock does
  not go backwards.
\<close>

theorem limiter_level_bounds:
  assumes "0 \<le> capacity" "capacity \<le> 2 ^ 53" "0 \<le> rate"
    and "run_ok rl_step rl_ok (new_limiter capacity rate t0) es"
  defines "rl \<equiv> run rl_step (new_limiter capacity rate t0) es"
  shows "0 \<le> rl_tokens rl \<and> rl_tokens rl \<le> of_int capacity \<and>
    (\<forall>now \<ge> rl_last_refill rl. 0 \<le> fst (tokens_available now rl) \<and> fst (tokens_available now rl) \<le> capacity)"
proof -
  have cap: "rl_capacity (run rl_step s es) = rl_capacity s" for s
    by (induction es arbitrary: s) simp_all
  have inv: "rl_inv rl" unfolding rl_def
    by (rule rlm.run_inv [OF new_limiter_inv]) (use assms in auto)
  have c: "rl_capacity rl = capacity" by (simp add: rl_def cap new_limiter_def)
  have "0 \<le> fst (tokens_available now rl) \<and> fst (tokens_available now rl) \<le> capacity"
    if now: "rl_last_refill rl \<le> now" for now
  proof -
    define r where "r = rl_refill now rl"
    have r: "rl_inv r" "rl_capacity r = capacity" using inv now c by (simp_all add: r_def rl_refill_inv)
    then have "0 \<le> rl_tokens r" "rl_tokens r \<le> of_int capacity"
      using rl_inv_level [of r] assms(2) by (auto simp: rl_inv_def)
    then have "f_trunc (of_int 0) \<le> f_trunc (rl_tokens r)" "f_trunc (rl_tokens r) \<le> f_trunc (of_int capacity)"
      by (simp_all add: f_trunc_mono del: f_trunc_of_int)
    then have "0 \<le> f_trunc (rl_tokens r)" "f_trunc (rl_tokens r) \<le> capacity"
      by (simp_all only: f_trunc_of_int)
    then show ?thesis
      using assms(2) by (simp add: tokens_available_def r_def [symmetric] f_to_int64_def in64_def Let_def)
  qed
  then show ?thesis using inv c rl_inv_level [OF inv] assms(2) by (auto simp: rl_inv_def)
qed

theorem limiter_level_bounds_witness:
  "0 \<le> rl_tokens (run rl_step (new_limiter 2 1 0) [RlTry 0, RlTry 5, RlTokens 9]) \<and>
   rl_tokens (run rl_step (new_limiter 2 1 0) [RlTry 0, RlTry 5, RlTokens 9]) \<le> of_int 2"
proof -
  have "run_ok rl_step rl_ok (new_limiter 2 1 0) [RlTry 0, RlTry 5, RlTokens 9]"
    by (simp add: rl_ok_def new_limiter_def)
  from limiter_level_bounds [OF _ _ _ this] show ?thesis by simp
qed

text \<open>
  In a burst at one instant, a full bucket grants exactly capacity tokens and refuses every
  further request.
\<close>

theorem limiter_burst_exact:
  assumes "rl_inv rl" "rl_capacity rl \<le> 2 ^ 53" "rl_last_refill rl = now"
  shows "grants rl (replicate n (RlTry now)) = min n (nat \<lfloor>rl_tokens rl\<rfloor>)"
  using assms
proof (induction n arbitrary: rl)
  case 0
  then show ?case by simp
next
  case (Suc n)
  note same = rl_refill_same [OF Suc.prems(1,3)]
  show ?case
  proof (cases "1 \<le> rl_tokens rl")
    case True
    define rl' where "rl' = rl\<lparr>rl_tokens := rl_tokens rl - 1\<rparr>"
    have step: "try_acquire now rl = (True, rl')"
      using True rl_take_exact [OF Suc.prems(1,2) True] by (simp add: try_acquire_def same rl'_def Let_def)
    moreover have "rl_inv rl'"
      using rl_step_inv [OF Suc.prems(1), of "RlTry now"] Suc.prems(3) step by (simp add: rl_ok_def)
    moreover have "nat \<lfloor>rl_tokens rl\<rfloor> = Suc (nat \<lfloor>rl_tokens rl - 1\<rfloor>)"
    proof -
      have "1 \<le> \<lfloor>rl_tokens rl\<rfloor>" using True by linarith
      then show ?thesis by (simp add: Suc_nat_eq_nat_zadd1)
    qed
    ultimately show ?thesis using Suc.IH [of rl'] Suc.prems by (simp add: rl'_def)
  next
    case False
    then have "try_acquire now rl = (False, rl)" by (simp add: try_acquire_def same Let_def)
    moreover from False have "\<lfloor>rl_tokens rl\<rfloor> \<le> 0" by linarith
    ultimately show ?thesis using Suc.IH [of rl] Suc.prems by simp
  qed
qed

theorem limiter_burst_exact_witness:
  "grants (new_limiter 3 1 0) (replicate 7 (RlTry 0)) = 3"
proof -
  have "grants (new_limiter 3 1 0) (replicate 7 (RlTry 0)) = min 7 (nat \<lfloor>rl_tokens (new_limiter 3 1 0)\<rfloor>)"
    by (rule limiter_burst_exact) (simp_all add: new_limiter_inv, simp_all add: new_limiter_def)
  then show ?thesis by (simp add: new_limiter_def f_of_int_exact)
qed

subsection \<open>The rate over a run\<close>

text \<open>
  One call: the level gains at most \<open>rate\<close> per second, up to four roundings, plus one
  rounding of the level itself, and loses exactly one token per grant.
\<close>

lemma rl_refill_gain:
  assumes inv: "rl_inv rl" and cap: "rl_capacity rl \<le> 2 ^ 53" and rate: "rl_refill_rate rl \<le> 2 ^ 53"
    and now: "rl_last_refill rl \<le> now"
  shows "rl_tokens (rl_refill now rl) \<le> rl_tokens rl + of_int (rl_capacity rl) * 2 powi (- 53) +
    of_int (now - rl_last_refill rl) / 1000000000 * of_int (rl_refill_rate rl) * fl_up ^ 4"
proof -
  define d where "d = time_sub now (rl_last_refill rl)"
  define S r T :: rat where "S = duration_seconds d" and "r = of_int (rl_refill_rate rl)"
    and "T = rl_tokens rl"
  define a where "a = fl (S * r)"
  have r: "f_of_int (rl_refill_rate rl) = r" "0 \<le> r"
    using inv rate by (simp_all add: r_def f_of_int_exact rl_inv_def)
  have d: "0 \<le> d" "in64 d" "d \<le> now - rl_last_refill rl"
    using now by (simp_all add: d_def time_sub_nonneg time_sub_le)
  have T: "0 \<le> T" "T \<le> of_int (rl_capacity rl)" "is_f64 T"
    using inv rl_inv_level [OF inv cap] by (simp_all add: T_def rl_inv_def)
  have big: "d = 0 \<or> rl_refill_rate rl = 0 \<or> 1 / 1073741824 \<le> S * r"
  proof (cases "d = 0 \<or> rl_refill_rate rl = 0")
    case False
    with inv have "1 \<le> rl_refill_rate rl" by (simp add: rl_inv_def)
    then have "of_int 1 \<le> r" unfolding r_def by (simp only: of_int_le_iff)
    moreover have "1 / 1073741824 \<le> S" unfolding S_def using False d by (intro duration_seconds_ge) simp_all
    ultimately have "1 / 1073741824 * 1 \<le> S * r" by (intro mult_mono) simp_all
    then show ?thesis by simp
  qed auto
  have upper: "S * r \<le> of_int d / 1000000000 * r * fl_up ^ 2"
    using mult_right_mono [OF duration_seconds_le [OF d(1,2)] r(2)] by (simp add: S_def mult.assoc mult.commute mult.left_commute)
  have "f_normal (S * r)" using big f_normalI by (auto simp: S_def r_def)
  from fl_le_up_of [OF this upper] have a: "a \<le> of_int d / 1000000000 * r * fl_up ^ 3"
    by (simp add: a_def power3_eq_cube power2_eq_square mult.assoc)
  have a0: "0 \<le> a" unfolding a_def S_def using d r by (intro fl_nonneg mult_nonneg_nonneg duration_seconds_nonneg) simp_all
  have sum: "fl (T + a) \<le> T + a * fl_up + of_int (rl_capacity rl) * 2 powi (- 53)"
  proof (cases "a = 0")
    case True
    with T show ?thesis by (simp add: fl_exact)
  next
    case False
    with big have "1 / 1073741824 \<le> S * r" by (auto simp: a_def S_def r_def)
    then have "1 / 1073741824 \<le> a" unfolding a_def by (rule fl_ge [OF is_f64_neg30])
    with T(1) have "f_normal (T + a)" by (intro f_normalI) linarith
    then have "fl (T + a) \<le> (T + a) * fl_up" by (rule fl_le_up)
    also have "\<dots> = T + T * 2 powi (- 53) + a * fl_up" by (simp add: fl_up_def distrib_left distrib_right)
    also have "T * 2 powi (- 53) \<le> of_int (rl_capacity rl) * 2 powi (- 53)" using T by (intro mult_right_mono) simp_all
    finally show ?thesis by simp
  qed
  have "of_int d / 1000000000 * r \<le> of_int (now - rl_last_refill rl) / 1000000000 * r"
  proof -
    from d(3) have "(of_int d :: rat) \<le> of_int (now - rl_last_refill rl)" by (simp only: of_int_le_iff)
    then have "of_int d / 1000000000 \<le> (of_int (now - rl_last_refill rl) / 1000000000 :: rat)"
      by (rule divide_right_mono) simp
    then show ?thesis using r(2) by (rule mult_right_mono)
  qed
  then have "of_int d / 1000000000 * r * fl_up ^ 4
      \<le> of_int (now - rl_last_refill rl) / 1000000000 * r * fl_up ^ 4"
    by (rule mult_right_mono) simp
  moreover have "a * fl_up \<le> of_int d / 1000000000 * r * fl_up ^ 3 * fl_up"
    using a by (intro mult_right_mono) (simp_all add: order_trans [OF _ fl_up_ge1])
  moreover have "of_int d / 1000000000 * r * fl_up ^ 3 * fl_up = of_int d / 1000000000 * r * fl_up ^ 4"
    by (simp add: power_numeral_reduce mult.assoc)
  moreover have "rl_tokens (rl_refill now rl) \<le> fl (T + a)"
    by (simp add: rl_refill_def Let_def T_def a_def S_def d_def r(1))
  ultimately show ?thesis using sum unfolding T_def [symmetric] r_def [symmetric] by linarith
qed

lemma rl_step_gain:
  assumes "rl_inv rl" "rl_capacity rl \<le> 2 ^ 53" "rl_refill_rate rl \<le> 2 ^ 53" "rl_ok rl e"
  shows "(if rl_granted rl e then 1 else 0) + rl_tokens (rl_step rl e) \<le> rl_tokens rl +
    of_int (rl_capacity rl) * 2 powi (- 53) +
    of_int (rl_op_time e - rl_last_refill rl) / 1000000000 * of_int (rl_refill_rate rl) * fl_up ^ 4"
proof -
  define rl' where "rl' = rl_refill (rl_op_time e) rl"
  have inv': "rl_inv rl'" "rl_capacity rl' \<le> 2 ^ 53"
    using assms by (simp_all add: rl'_def rl_ok_def rl_refill_inv)
  have "(if rl_granted rl e then 1 else 0) + rl_tokens (rl_step rl e) = rl_tokens rl'"
    using rl_take_exact [OF inv']
    by (cases e) (auto simp: try_acquire_def tokens_available_def rl'_def Let_def)
  with rl_refill_gain [OF assms(1-3)] assms(4) show ?thesis by (simp add: rl'_def rl_ok_def)
qed

lemma rl_run_frame:
  "rl_capacity (run rl_step rl es) = rl_capacity rl"
  "rl_refill_rate (run rl_step rl es) = rl_refill_rate rl"
  by (induction es arbitrary: rl) simp_all

lemma rl_run_gain:
  assumes "rl_inv rl" "rl_capacity rl \<le> 2 ^ 53" "rl_refill_rate rl \<le> 2 ^ 53" "run_ok rl_step rl_ok rl es"
  shows "of_nat (grants rl es) + rl_tokens (run rl_step rl es) \<le> rl_tokens rl +
    of_nat (length es) * of_int (rl_capacity rl) * 2 powi (- 53) +
    of_int (rl_last_refill (run rl_step rl es) - rl_last_refill rl) / 1000000000 *
      of_int (rl_refill_rate rl) * fl_up ^ 4"
  using assms
proof (induction es arbitrary: rl)
  case Nil
  then show ?case by simp
next
  case (Cons e es)
  define c :: rat where "c = of_int (rl_capacity rl) * 2 powi (- 53)"
  define K where "K = of_int (rl_refill_rate rl) * fl_up ^ 4 / 1000000000"
  define rl' where "rl' = rl_step rl e"
  define g :: rat where "g = (if rl_granted rl e then 1 else 0)"
  have ok: "rl_ok rl e" "run_ok rl_step rl_ok rl' es" using Cons.prems(4) by (simp_all add: rl'_def)
  have head: "g + rl_tokens rl' \<le> rl_tokens rl + c +
      of_int (rl_last_refill rl' - rl_last_refill rl) * K"
    using rl_step_gain [OF Cons.prems(1-3) ok(1)] by (simp add: c_def K_def g_def rl'_def mult.assoc)
  have tail: "of_nat (grants rl' es) + rl_tokens (run rl_step rl' es) \<le> rl_tokens rl' +
      of_nat (length es) * c + of_int (rl_last_refill (run rl_step rl' es) - rl_last_refill rl') * K"
    using Cons.IH [of rl'] rl_step_inv [OF Cons.prems(1) ok(1)] Cons.prems ok(2)
    by (simp add: c_def K_def rl'_def mult.assoc)
  have "of_nat (grants rl (e # es)) = g + of_nat (grants rl' es)"
    "run rl_step rl (e # es) = run rl_step rl' es"
    "of_nat (length (e # es)) * c = c + of_nat (length es) * c"
    by (simp_all add: g_def rl'_def distrib_right)
  with head tail have "of_nat (grants rl (e # es)) + rl_tokens (run rl_step rl (e # es)) \<le>
      rl_tokens rl + of_nat (length (e # es)) * c +
      of_int (rl_last_refill (run rl_step rl (e # es)) - rl_last_refill rl) * K"
    by (simp add: left_diff_distrib)
  then show ?case by (simp add: c_def K_def mult.assoc)
qed

lemma fl_up_4: "fl_up ^ 4 \<le> 1 + 2 powi (- 50)"
  by (simp add: fl_up_def power_int_minus power_numeral_reduce)

text \<open>
  C14: In any run of TryAcquire, Tokens and WaitAcquire polls whose clock readings do not go back, with
  a capacity and a rate from 0 to 2^53, the number of granted tokens is at most the bucket
  capacity plus the refill rate times the elapsed time, up to the rounding of the float64 level: a
  relative error of 2^-50 of the refill, and capacity times 2^-53 for each call.
\<close>

theorem limiter_rate_bound:
  assumes "0 \<le> capacity" "capacity \<le> 2 ^ 53" "0 \<le> rate" "rate \<le> 2 ^ 53"
    and "run_ok rl_step rl_ok (new_limiter capacity rate t0) es"
  defines "t \<equiv> rl_last_refill (run rl_step (new_limiter capacity rate t0) es)"
  shows "of_nat (grants (new_limiter capacity rate t0) es) \<le> of_int capacity
    + of_int (t - t0) / 1000000000 * of_int rate * (1 + 2 powi (- 50))
    + of_nat (length es) * of_int capacity * (2 powi (- 53) :: rat)"
proof -
  define rl where "rl = new_limiter capacity rate t0"
  have f: "rl_capacity rl = capacity" "rl_refill_rate rl = rate" "rl_last_refill rl = t0"
    "rl_tokens rl = of_int capacity"
    using assms by (simp_all add: rl_def new_limiter_def f_of_int_exact)
  have inv: "rl_inv rl" using assms by (simp add: rl_def new_limiter_inv)
  have ok: "run_ok rl_step rl_ok rl es" using assms(5) by (simp add: rl_def)
  have end_inv: "rl_inv (run rl_step rl es)" by (rule rlm.run_inv [OF inv ok])
  have mono: "rl_last_refill rl' \<le> rl_last_refill (run rl_step rl' fs)"
    if "run_ok rl_step rl_ok rl' fs" for rl' fs
    using that by (induction fs arbitrary: rl') (auto simp: rl_ok_def, fastforce)
  from mono [OF ok] have "0 \<le> t - t0" by (simp add: t_def rl_def [symmetric] f)
  then have "(of_int 0 :: rat) \<le> of_int (t - t0)" by (simp only: of_int_le_iff)
  with assms(3) have "of_int (t - t0) / 1000000000 * of_int rate * fl_up ^ 4
      \<le> of_int (t - t0) / 1000000000 * of_int rate * (1 + 2 powi (- 50))"
    by (intro mult_left_mono fl_up_4 mult_nonneg_nonneg divide_nonneg_nonneg) simp_all
  moreover have "of_nat (grants rl es) + rl_tokens (run rl_step rl es) \<le> of_int capacity
      + of_nat (length es) * of_int capacity * 2 powi (- 53)
      + of_int (t - t0) / 1000000000 * of_int rate * fl_up ^ 4"
    using rl_run_gain [OF inv _ _ ok] assms(2,4) by (simp only: f t_def rl_def [symmetric])
  moreover have "0 \<le> rl_tokens (run rl_step rl es)" using end_inv by (simp add: rl_inv_def)
  ultimately show ?thesis unfolding rl_def [symmetric] by linarith
qed

theorem limiter_rate_bound_witness:
  "of_nat (grants (new_limiter 2 1 0) [RlTry 0, RlPoll 0, RlTry 0, RlTry 1000000000]) \<le> (of_int 2
    + of_int (1000000000 - 0) / 1000000000 * of_int 1 * (1 + 2 powi (- 50))
    + of_nat 4 * of_int 2 * 2 powi (- 53) :: rat)"
proof -
  have "run_ok rl_step rl_ok (new_limiter 2 1 0) [RlTry 0, RlPoll 0, RlTry 0, RlTry 1000000000]"
    by (simp add: rl_ok_def new_limiter_def)
  from limiter_rate_bound [OF _ _ _ _ this] show ?thesis by simp
qed

subsection \<open>WaitAcquire\<close>

text \<open>Polls at least 10 ms apart, none of which sees the context end.\<close>

fun polls_spaced :: "time \<Rightarrow> (time \<times> goerr option) list \<Rightarrow> bool" where
  "polls_spaced t [] = True"
| "polls_spaced t ((u, sel) # env) = (t + 10 * millisecond \<le> u \<and> sel = None \<and> polls_spaced u env)"

lemma is_f64_128ths: "k \<le> 128 \<Longrightarrow> is_f64 (of_nat k / 128)"
  using is_f64_scaled [of "int k" "- 7"] by (simp add: power_int_minus field_simps)

lemma duration_seconds_10ms: "10 * millisecond \<le> d \<Longrightarrow> in64 d \<Longrightarrow> 1 / 128 \<le> duration_seconds d"
proof -
  assume d: "10 * millisecond \<le> d" "in64 d"
  let ?s = "d div 1000000000" and ?n = "d mod 1000000000"
  have s0: "0 \<le> ?s" using d by (simp add: millisecond_def pos_imp_zdiv_nonneg_iff)
  have f128: "is_f64 (1 / 128)" using is_f64_128ths [of 1] by simp
  have "1 / 128 \<le> of_int ?s + fl (of_int ?n / 1000000000)"
  proof (cases "?s = 0")
    case True
    then have "?n = d" using div_mult_mod_eq [of d 1000000000] by simp
    then have "of_int 10000000 \<le> (of_int ?n :: rat)" using d by (simp only: of_int_le_iff millisecond_def)
    then have "1 / 128 \<le> (of_int ?n / 1000000000 :: rat)" by simp
    with f128 have "1 / 128 \<le> fl (of_int ?n / 1000000000)" by (rule fl_ge)
    with True show ?thesis by simp
  next
    case False
    with s0 have "1 \<le> ?s" by simp
    then have "of_int 1 \<le> (of_int ?s :: rat)" by (simp only: of_int_le_iff)
    moreover have "0 \<le> fl (of_int ?n / 1000000000)" by (intro fl_nonneg) simp
    ultimately show ?thesis by simp
  qed
  with f128 have "1 / 128 \<le> fl (of_int ?s + fl (of_int ?n / 1000000000))" by (rule fl_ge)
  then show ?thesis using d by (simp add: duration_seconds_eq millisecond_def)
qed

lemma rl_refill_poll:
  assumes "rl_inv rl" "1 \<le> rl_capacity rl" "1 \<le> rl_refill_rate rl"
    and "rl_last_refill rl + 10 * millisecond \<le> now" "of_nat k / 128 \<le> rl_tokens rl" "k < 128"
  shows "of_nat (Suc k) / 128 \<le> rl_tokens (rl_refill now rl)"
proof -
  define d where "d = time_sub now (rl_last_refill rl)"
  have "10 * millisecond \<le> d" using assms(4) by (simp add: d_def time_sub_def millisecond_def)
  then have S: "1 / 128 \<le> duration_seconds d" by (rule duration_seconds_10ms) (simp add: d_def)
  have "1 \<le> f_of_int (rl_refill_rate rl)" using assms(3) by (rule f_of_int_pos)
  with S have "1 / 128 * 1 \<le> duration_seconds d * f_of_int (rl_refill_rate rl)"
    by (intro mult_mono) simp_all
  then have "1 / 128 \<le> fl (duration_seconds d * f_of_int (rl_refill_rate rl))"
    using is_f64_128ths [of 1] by (intro fl_ge) simp_all
  with assms(5) have "of_nat (Suc k) / 128 \<le> rl_tokens rl + fl (duration_seconds d * f_of_int (rl_refill_rate rl))"
    by (simp add: add_divide_distrib)
  then have "of_nat (Suc k) / 128 \<le> fl (rl_tokens rl + fl (duration_seconds d * f_of_int (rl_refill_rate rl)))"
    using assms(6) by (intro fl_ge is_f64_128ths) simp_all
  moreover have "of_nat (Suc k) / 128 \<le> f_of_int (rl_capacity rl)"
  proof -
    have "of_nat (Suc k) / 128 \<le> (1::rat)" using assms(6) by simp
    also have "\<dots> \<le> f_of_int (rl_capacity rl)" using assms(2) by (rule f_of_int_pos)
    finally show ?thesis .
  qed
  ultimately show ?thesis by (simp add: rl_refill_def Let_def d_def)
qed

lemma wait_acquire_polls:
  assumes "rl_inv rl" "1 \<le> rl_capacity rl" "1 \<le> rl_refill_rate rl"
    and "polls_spaced (rl_last_refill rl) env" "of_nat k / 128 \<le> rl_tokens rl" "k < 128"
    and "128 \<le> length env + k"
  shows "\<exists>rl'. wait_acquire env rl = Some (None, rl')"
  using assms
proof (induction env arbitrary: rl k)
  case Nil
  then show ?case by simp
next
  case (Cons p env)
  obtain now sel where p: "p = (now, sel)" by (cases p)
  define rl' where "rl' = rl_refill now rl"
  from Cons.prems p have sp: "rl_last_refill rl + 10 * millisecond \<le> now" "sel = None" "polls_spaced now env"
    by simp_all
  then have inv': "rl_inv rl'" using Cons.prems(1) by (simp add: rl'_def rl_refill_inv millisecond_def)
  have lev: "of_nat (Suc k) / 128 \<le> rl_tokens rl'"
    unfolding rl'_def using Cons.prems sp by (intro rl_refill_poll)
  show ?case
  proof (cases "1 \<le> rl_tokens rl'")
    case True
    then show ?thesis by (simp add: p rl'_def Let_def)
  next
    case False
    with lev have "of_nat (Suc k) / 128 < (1::rat)" by linarith
    then have "(of_nat (Suc k) :: rat) < of_nat 128" by simp
    then have "Suc k < 128" by (simp only: of_nat_less_iff)
    then have "\<exists>r. wait_acquire env rl' = Some (None, r)"
      using Cons.IH [of rl' "Suc k"] inv' lev sp Cons.prems by (simp add: rl'_def)
    with False show ?thesis by (simp add: p sp(2) rl'_def Let_def)
  qed
qed

text \<open>
  WaitAcquire returns a token after a bounded number of polls when the refill rate is positive,
  the polls are at least 10 ms apart and the context is not cancelled.
\<close>

theorem wait_acquire_terminates:
  assumes "rl_inv rl" "1 \<le> rl_capacity rl" "1 \<le> rl_refill_rate rl"
    and "polls_spaced (rl_last_refill rl) env" "128 \<le> length env"
  shows "\<exists>rl'. wait_acquire env rl = Some (None, rl')"
  using wait_acquire_polls [of rl env 0] assms by (simp add: rl_inv_def)

theorem wait_acquire_terminates_witness:
  "\<exists>rl'. wait_acquire (map (\<lambda>i. (int i * 10000000 + 10000000, None)) [0..<128])
     ((new_limiter 1 1 0)\<lparr>rl_tokens := 0\<rparr>) = Some (None, rl')"
proof (rule wait_acquire_terminates)
  have sp: "polls_spaced (int k * 10000000) (map (\<lambda>i. (int i * 10000000 + 10000000, None)) [k..<n])" for k n
  proof (induction "n - k" arbitrary: k)
    case (Suc m)
    then have "[k..<n] = k # [Suc k..<n]" by (simp add: upt_conv_Cons)
    moreover from Suc.hyps(2) have "m = n - Suc k" by simp
    ultimately show ?case using Suc.hyps(1) [of "Suc k"] by (simp add: millisecond_def algebra_simps)
  qed simp
  from sp [of 0 128] show "polls_spaced (rl_last_refill ((new_limiter 1 1 0)\<lparr>rl_tokens := 0\<rparr>))
     (map (\<lambda>i. (int i * 10000000 + 10000000, None)) [0..<128])"
    by (simp add: new_limiter_def)
qed (simp_all add: rl_inv_def new_limiter_def f_of_int_exact)

text \<open>
  WaitAcquire fails only with the context's error, wrapped, and then has taken no token.
\<close>

theorem wait_acquire_error:
  "wait_acquire env rl = Some (Some e, rl') \<Longrightarrow>
     (\<exists>c. (rl_last_refill rl', Some c) \<in> set env \<and> e = Wrap ''rate limiter'' c) \<and> rl_tokens rl' < 1"
proof (induction env rl rule: wait_acquire.induct)
  case (2 now sel env rl)
  then show ?case
    by (cases sel) (auto simp: Let_def not_le split: if_splits)
qed simp

theorem wait_acquire_error_witness:
  "rl_tokens (snd (the (wait_acquire [(0, None), (3, Some (Errorf ''deadline''))] (new_limiter 0 1 0)))) < 1"
proof -
  have 0: "wait_acquire [(0, None), (3, Some (Errorf ''deadline''))] (new_limiter 0 1 0) =
      Some (Some (Wrap ''rate limiter'' (Errorf ''deadline'')), rl_refill 3 (rl_refill 0 (new_limiter 0 1 0)))"
    by (simp add: new_limiter_def rl_refill_def Let_def)
  from wait_acquire_error [OF 0] show ?thesis unfolding 0 by simp
qed

end
