(* ===== verification/Circuit_Breaker.thy ===== *)
theory Circuit_Breaker
  imports Float64
begin

section \<open>The circuit breaker (internal/resilience/circuit_breaker.go)\<close>

text \<open>
  \<open>CircuitBreaker\<close> keeps its state, the half-open count and the time of the last change
  under a mutex, and four \<open>int64\<close> counters that every goroutine updates with atomic
  operations outside it. Each method is therefore a list of atomic actions
  (\<open>cb_micro\<close>, one per atomic operation or critical section, in the order of the source);
  a method run without interference is the composition of its actions. The theory holds
  the record, the methods and the two background loops, the sequential machine with its
  invariant and its transition diagram, and the interleaved system of any number of
  goroutines.
\<close>

datatype cb_state = StateClosed | StateOpen | StateHalfOpen

fun state_string :: "cb_state \<Rightarrow> string" where
  "state_string StateClosed = ''CLOSED''"
| "state_string StateOpen = ''OPEN''"
| "state_string StateHalfOpen = ''HALF_OPEN''"

record breaker =
  cb_name :: string
  cb_state :: cb_state
  cb_max_requests :: int
  cb_interval :: duration
  cb_timeout :: duration
  cb_failure_rate :: f64
  cb_slow_call_ms :: int
  cb_success_count :: int
  cb_failure_count :: int
  cb_slow_count :: int
  cb_total_count :: int
  cb_half_open_count :: int
  cb_last_state_change :: time
  cb_last_failure_time :: "time option"
  cb_stopped :: bool

definition new_breaker :: "string \<Rightarrow> int \<Rightarrow> int \<Rightarrow> int \<Rightarrow> f64 \<Rightarrow> int \<Rightarrow> time \<Rightarrow> breaker" where
  "new_breaker name max_requests interval_sec timeout_sec threshold slow_ms now =
     \<lparr>cb_name = name, cb_state = StateClosed, cb_max_requests = max_requests,
      cb_interval = s64 (interval_sec * second), cb_timeout = s64 (timeout_sec * second),
      cb_failure_rate = threshold, cb_slow_call_ms = slow_ms,
      cb_success_count = 0, cb_failure_count = 0, cb_slow_count = 0, cb_total_count = 0,
      cb_half_open_count = 0, cb_last_state_change = now, cb_last_failure_time = None,
      cb_stopped = False\<rparr>"

subsection \<open>Reading\<close>

definition cb_allow :: "time \<Rightarrow> breaker \<Rightarrow> bool" where
  "cb_allow now cb = (case cb_state cb of
      StateClosed \<Rightarrow> True
    | StateOpen \<Rightarrow> time_sub now (cb_last_state_change cb) > cb_timeout cb
    | StateHalfOpen \<Rightarrow> cb_half_open_count cb < cb_max_requests cb)"

definition get_state :: "breaker \<Rightarrow> string" where
  "get_state cb = state_string (cb_state cb)"

text \<open>\<open>currentFailureRate\<close>, from the two values it loads.\<close>

definition failure_rate_of :: "int \<Rightarrow> int \<Rightarrow> f64" where
  "failure_rate_of failures tot = (if tot = 0 then 0 else fl (f_of_int failures / f_of_int tot))"

definition current_failure_rate :: "breaker \<Rightarrow> f64" where
  "current_failure_rate cb = failure_rate_of (cb_failure_count cb) (cb_total_count cb)"

record cb_metrics =
  cbm_name :: string
  cbm_state :: string
  cbm_success_count :: int
  cbm_failure_count :: int
  cbm_slow_count :: int
  cbm_total_count :: int
  cbm_failure_rate :: f64

definition breaker_metrics :: "breaker \<Rightarrow> cb_metrics" where
  "breaker_metrics cb = \<lparr>cbm_name = cb_name cb, cbm_state = state_string (cb_state cb),
     cbm_success_count = cb_success_count cb, cbm_failure_count = cb_failure_count cb,
     cbm_slow_count = cb_slow_count cb, cbm_total_count = cb_total_count cb,
     cbm_failure_rate = current_failure_rate cb\<rparr>"

subsection \<open>Atomic actions and methods\<close>

definition transition_to :: "cb_state \<Rightarrow> time \<Rightarrow> breaker \<Rightarrow> breaker" where
  "transition_to new_state now cb =
     cb\<lparr>cb_state := new_state, cb_last_state_change := now, cb_half_open_count := 0\<rparr>"

datatype cb_micro =
    AddSuccess | AddFailure | AddSlow | AddTotal
  | LockedSuccess time | SetLastFailure time | LockedFailure time
  | ZeroSuccess | ZeroFailure | ZeroSlow | ZeroTotal

text \<open>The critical section of \<open>RecordSuccess\<close>; \<open>now\<close> is the clock reading of \<open>transitionTo\<close>.\<close>

definition locked_success :: "time \<Rightarrow> breaker \<Rightarrow> breaker" where
  "locked_success now cb =
     (if cb_state cb = StateHalfOpen then
        (let cb' = cb\<lparr>cb_half_open_count := s64 (cb_half_open_count cb + 1)\<rparr>
         in if cb_half_open_count cb' \<ge> cb_max_requests cb' then transition_to StateClosed now cb' else cb')
      else cb)"

definition locked_failure :: "time \<Rightarrow> breaker \<Rightarrow> breaker" where
  "locked_failure now cb =
     (if cb_state cb = StateHalfOpen then transition_to StateOpen now cb else cb)"

fun cb_exec :: "cb_micro \<Rightarrow> breaker \<Rightarrow> breaker" where
  "cb_exec AddSuccess cb = cb\<lparr>cb_success_count := s64 (cb_success_count cb + 1)\<rparr>"
| "cb_exec AddFailure cb = cb\<lparr>cb_failure_count := s64 (cb_failure_count cb + 1)\<rparr>"
| "cb_exec AddSlow cb = cb\<lparr>cb_slow_count := s64 (cb_slow_count cb + 1)\<rparr>"
| "cb_exec AddTotal cb = cb\<lparr>cb_total_count := s64 (cb_total_count cb + 1)\<rparr>"
| "cb_exec (LockedSuccess now) cb = locked_success now cb"
| "cb_exec (SetLastFailure now) cb = cb\<lparr>cb_last_failure_time := Some now\<rparr>"
| "cb_exec (LockedFailure now) cb = locked_failure now cb"
| "cb_exec ZeroSuccess cb = cb\<lparr>cb_success_count := 0\<rparr>"
| "cb_exec ZeroFailure cb = cb\<lparr>cb_failure_count := 0\<rparr>"
| "cb_exec ZeroSlow cb = cb\<lparr>cb_slow_count := 0\<rparr>"
| "cb_exec ZeroTotal cb = cb\<lparr>cb_total_count := 0\<rparr>"

definition record_success_micros :: "int \<Rightarrow> duration \<Rightarrow> time \<Rightarrow> cb_micro list" where
  "record_success_micros slow_ms d now =
     [AddSuccess, AddTotal] @ (if duration_ms d > slow_ms then [AddSlow] else []) @ [LockedSuccess now]"

definition record_failure_micros :: "time \<Rightarrow> time \<Rightarrow> cb_micro list" where
  "record_failure_micros now now' = [AddFailure, AddTotal, SetLastFailure now, LockedFailure now']"

definition window_reset_micros :: "cb_micro list" where
  "window_reset_micros = [ZeroSuccess, ZeroFailure, ZeroSlow, ZeroTotal]"

definition record_success :: "duration \<Rightarrow> time \<Rightarrow> breaker \<Rightarrow> breaker" where
  "record_success d now cb = fold cb_exec (record_success_micros (cb_slow_call_ms cb) d now) cb"

definition record_failure :: "time \<Rightarrow> breaker \<Rightarrow> breaker" where
  "record_failure now cb = fold cb_exec (record_failure_micros now now) cb"

text \<open>The decision of one tick of \<open>stateTransitionLoop\<close>, from the rate and the total it loaded.\<close>

definition tick_decide :: "time \<Rightarrow> f64 \<Rightarrow> int \<Rightarrow> breaker \<Rightarrow> breaker" where
  "tick_decide now rate tot cb =
     (if cb_state cb = StateClosed then
        (if tot > 0 \<and> rate \<ge> cb_failure_rate cb then transition_to StateOpen now cb else cb)
      else if cb_state cb = StateOpen then
        (if time_sub now (cb_last_state_change cb) > cb_timeout cb
         then transition_to StateHalfOpen now cb else cb)
      else cb)"

definition state_tick :: "time \<Rightarrow> breaker \<Rightarrow> breaker" where
  "state_tick now cb = tick_decide now (current_failure_rate cb) (cb_total_count cb) cb"

text \<open>
  One pass of each background loop: what its \<open>select\<close> received, and whether the loop goes on.
  \<open>time.NewTicker\<close> panics for an interval that is not positive.
\<close>

definition window_loop_start :: "breaker \<Rightarrow> string option" where
  "window_loop_start cb = (if cb_interval cb \<le> 0 then Some ''non-positive interval for NewTicker'' else None)"

fun window_reset_iter :: "loop_signal \<Rightarrow> breaker \<Rightarrow> breaker \<times> bool" where
  "window_reset_iter StopSignal cb = (cb, False)"
| "window_reset_iter (TickSignal now) cb = (fold cb_exec window_reset_micros cb, True)"

fun state_transition_iter :: "loop_signal \<Rightarrow> breaker \<Rightarrow> breaker \<times> bool" where
  "state_transition_iter StopSignal cb = (cb, False)"
| "state_transition_iter (TickSignal now) cb = (state_tick now cb, True)"

text \<open>
  \<open>Stop\<close> closes the channel (closing it twice panics: \<open>None\<close>) and waits for the two loops,
  one second each at most; the result also says how long the waits took, given the delay
  after which each \<open>doneCh\<close> message arrives.
\<close>

definition cb_stop :: "duration \<Rightarrow> duration \<Rightarrow> breaker \<Rightarrow> (breaker \<times> duration) option" where
  "cb_stop done1 done2 cb =
     (if cb_stopped cb then None
      else Some (cb\<lparr>cb_stopped := True\<rparr>, min done1 second + min done2 second))"

subsection \<open>The sequential machine\<close>

datatype cb_event =
    Success duration time
  | Failure time
  | WindowTick time
  | StateTick time

fun cb_step :: "breaker \<Rightarrow> cb_event \<Rightarrow> breaker" where
  "cb_step cb (Success d now) = record_success d now cb"
| "cb_step cb (Failure now) = record_failure now cb"
| "cb_step cb (WindowTick now) = fst (window_reset_iter (TickSignal now) cb)"
| "cb_step cb (StateTick now) = fst (state_transition_iter (TickSignal now) cb)"

text \<open>
  The half-open count is zero outside \<open>HALF_OPEN\<close>, and below the limit inside it.
\<close>

definition half_open_inv :: "breaker \<Rightarrow> bool" where
  "half_open_inv cb \<longleftrightarrow> 1 \<le> cb_max_requests cb \<and> cb_max_requests cb < 2 ^ 63 \<and>
     0 \<le> cb_half_open_count cb \<and> cb_half_open_count cb < cb_max_requests cb \<and>
     (cb_state cb \<noteq> StateHalfOpen \<longrightarrow> cb_half_open_count cb = 0)"

text \<open>Successes and failures add up to the total, as \<open>int64\<close> values.\<close>

definition cb_inv :: "breaker \<Rightarrow> bool" where
  "cb_inv cb \<longleftrightarrow> half_open_inv cb \<and> s64 (cb_success_count cb + cb_failure_count cb) = cb_total_count cb"

lemmas cb_method_defs =
  record_success_def record_failure_def record_success_micros_def record_failure_micros_def
  window_reset_micros_def state_tick_def tick_decide_def locked_success_def locked_failure_def
  transition_to_def

lemma cb_exec_frame [frame_simps, simp]:
  "cb_max_requests (cb_exec m cb) = cb_max_requests cb"
  "cb_timeout (cb_exec m cb) = cb_timeout cb"
  "cb_failure_rate (cb_exec m cb) = cb_failure_rate cb"
  "cb_slow_call_ms (cb_exec m cb) = cb_slow_call_ms cb"
  by (cases m; simp add: locked_success_def locked_failure_def transition_to_def Let_def)+

lemma cb_exec_half_open: "half_open_inv cb \<Longrightarrow> half_open_inv (cb_exec m cb)"
  by (cases m) (auto simp: half_open_inv_def locked_success_def locked_failure_def transition_to_def
      Let_def s64_id in64_def)

lemma tick_decide_half_open: "half_open_inv cb \<Longrightarrow> half_open_inv (tick_decide now rate tot cb)"
  by (auto simp: half_open_inv_def tick_decide_def transition_to_def)

lemma new_breaker_inv:
  "1 \<le> max_requests \<Longrightarrow> max_requests < 2 ^ 63 \<Longrightarrow> cb_inv (new_breaker name max_requests i t r s now)"
  by (simp add: cb_inv_def half_open_inv_def new_breaker_def)

lemma fold_exec_half_open: "half_open_inv cb \<Longrightarrow> half_open_inv (fold cb_exec ms cb)"
  by (induction ms arbitrary: cb) (simp_all add: cb_exec_half_open)

lemma cb_step_half_open: "half_open_inv cb \<Longrightarrow> half_open_inv (cb_step cb e)"
  by (cases e) (simp_all add: record_success_def record_failure_def fold_exec_half_open
      state_tick_def tick_decide_half_open)

text \<open>What each event does to the counters.\<close>

lemma locked_counters [frame_simps, simp]:
  "cb_success_count (locked_success now cb) = cb_success_count cb"
  "cb_failure_count (locked_success now cb) = cb_failure_count cb"
  "cb_slow_count (locked_success now cb) = cb_slow_count cb"
  "cb_total_count (locked_success now cb) = cb_total_count cb"
  "cb_success_count (locked_failure now cb) = cb_success_count cb"
  "cb_failure_count (locked_failure now cb) = cb_failure_count cb"
  "cb_slow_count (locked_failure now cb) = cb_slow_count cb"
  "cb_total_count (locked_failure now cb) = cb_total_count cb"
  by (simp_all add: locked_success_def locked_failure_def transition_to_def Let_def)

lemma tick_counters [frame_simps, simp]:
  "cb_success_count (tick_decide now rate n cb) = cb_success_count cb"
  "cb_failure_count (tick_decide now rate n cb) = cb_failure_count cb"
  "cb_slow_count (tick_decide now rate n cb) = cb_slow_count cb"
  "cb_total_count (tick_decide now rate n cb) = cb_total_count cb"
  by (simp_all add: tick_decide_def transition_to_def)

lemma record_counters [frame_simps, simp]:
  "cb_success_count (record_success d now cb) = s64 (cb_success_count cb + 1)"
  "cb_failure_count (record_success d now cb) = cb_failure_count cb"
  "cb_total_count (record_success d now cb) = s64 (cb_total_count cb + 1)"
  "cb_success_count (record_failure now cb) = cb_success_count cb"
  "cb_failure_count (record_failure now cb) = s64 (cb_failure_count cb + 1)"
  "cb_total_count (record_failure now cb) = s64 (cb_total_count cb + 1)"
  by (simp_all add: record_success_def record_failure_def record_success_micros_def
      record_failure_micros_def)

lemma fold_exec_config [frame_simps, simp]:
  "cb_max_requests (fold cb_exec ms cb) = cb_max_requests cb"
  "cb_timeout (fold cb_exec ms cb) = cb_timeout cb"
  "cb_failure_rate (fold cb_exec ms cb) = cb_failure_rate cb"
  "cb_slow_call_ms (fold cb_exec ms cb) = cb_slow_call_ms cb"
  by (induction ms arbitrary: cb) simp_all

text \<open>The configuration never changes.\<close>

lemma cb_step_config [frame_simps]:
  "cb_max_requests (cb_step cb e) = cb_max_requests cb"
  "cb_timeout (cb_step cb e) = cb_timeout cb"
  "cb_failure_rate (cb_step cb e) = cb_failure_rate cb"
  "cb_slow_call_ms (cb_step cb e) = cb_slow_call_ms cb"
  by (cases e; simp add: record_success_def record_failure_def state_tick_def tick_decide_def
      transition_to_def del: fold.simps)+

lemma record_sections:
  "cb_state (record_success d now cb) = cb_state (locked_success now cb)"
  "cb_half_open_count (record_success d now cb) = cb_half_open_count (locked_success now cb)"
  "cb_last_state_change (record_success d now cb) = cb_last_state_change (locked_success now cb)"
  "cb_state (record_failure now cb) = cb_state (locked_failure now cb)"
  "cb_half_open_count (record_failure now cb) = cb_half_open_count (locked_failure now cb)"
  "cb_last_state_change (record_failure now cb) = cb_last_state_change (locked_failure now cb)"
  by (simp_all add: record_success_def record_failure_def record_success_micros_def
      record_failure_micros_def locked_success_def locked_failure_def transition_to_def Let_def)

lemma cb_step_sum:
  assumes "s64 (cb_success_count cb + cb_failure_count cb) = cb_total_count cb"
  shows "s64 (cb_success_count (cb_step cb e) + cb_failure_count (cb_step cb e)) = cb_total_count (cb_step cb e)"
proof (cases e)
  case (Success d now)
  have "s64 (s64 (cb_success_count cb + 1) + cb_failure_count cb) =
      s64 (s64 (cb_success_count cb + cb_failure_count cb) + 1)"
    by (simp add: s64_add add.commute add.left_commute)
  with Success assms show ?thesis by simp
next
  case (Failure now)
  have "s64 (cb_success_count cb + s64 (cb_failure_count cb + 1)) =
      s64 (s64 (cb_success_count cb + cb_failure_count cb) + 1)"
    by (simp add: s64_add add.commute add.left_commute)
  with Failure assms show ?thesis by simp
next
  case (WindowTick now)
  then show ?thesis by (simp add: window_reset_micros_def)
next
  case (StateTick now)
  with assms show ?thesis by (simp add: state_tick_def)
qed

lemma cb_step_inv: "cb_inv cb \<Longrightarrow> cb_inv (cb_step cb e)"
  unfolding cb_inv_def by (simp only: cb_step_half_open cb_step_sum simp_thms)

interpretation cbm: machine cb_step "\<lambda>_ _. True" cb_inv
  by unfold_locales (rule cb_step_inv)

subsection \<open>The transition diagram\<close>

text \<open>
  The three-state model as the requirements draw it: the only four edges, with their guards.
\<close>

inductive breaker_edge :: "breaker \<Rightarrow> cb_event \<Rightarrow> cb_state \<Rightarrow> bool" where
  trip: "cb_state cb = StateClosed \<Longrightarrow> 0 < cb_total_count cb \<Longrightarrow>
    cb_failure_rate cb \<le> current_failure_rate cb \<Longrightarrow> breaker_edge cb (StateTick now) StateOpen"
| probe: "cb_state cb = StateOpen \<Longrightarrow> cb_timeout cb < time_sub now (cb_last_state_change cb) \<Longrightarrow>
    breaker_edge cb (StateTick now) StateHalfOpen"
| recover: "cb_state cb = StateHalfOpen \<Longrightarrow> cb_half_open_count cb + 1 = cb_max_requests cb \<Longrightarrow>
    breaker_edge cb (Success d now) StateClosed"
| reopen: "cb_state cb = StateHalfOpen \<Longrightarrow> breaker_edge cb (Failure now) StateOpen"

inductive_simps edge_success: "breaker_edge cb (Success d now) s"
inductive_simps edge_failure: "breaker_edge cb (Failure now) s"
inductive_simps edge_window: "breaker_edge cb (WindowTick now) s"
inductive_simps edge_tick: "breaker_edge cb (StateTick now) s"

lemmas edge_simps = edge_success edge_failure edge_window edge_tick

lemma half_open_next: "half_open_inv cb \<Longrightarrow> s64 (cb_half_open_count cb + 1) = cb_half_open_count cb + 1"
  by (auto simp: half_open_inv_def s64_id in64_def)

lemma cb_step_state:
  assumes "half_open_inv cb"
  shows "cb_state (cb_step cb e) = (case e of
      Success d now \<Rightarrow> (if cb_state cb = StateHalfOpen \<and> cb_half_open_count cb + 1 = cb_max_requests cb
        then StateClosed else cb_state cb)
    | Failure now \<Rightarrow> (if cb_state cb = StateHalfOpen then StateOpen else cb_state cb)
    | WindowTick now \<Rightarrow> cb_state cb
    | StateTick now \<Rightarrow> cb_state (state_tick now cb))"
proof (cases e)
  case (Success d now)
  have "cb_half_open_count cb + 1 \<ge> cb_max_requests cb \<longleftrightarrow> cb_half_open_count cb + 1 = cb_max_requests cb"
    using assms by (auto simp: half_open_inv_def)
  moreover have "s64 (cb_max_requests cb) = cb_max_requests cb"
    using assms by (simp add: half_open_inv_def s64_id in64_def)
  ultimately show ?thesis using Success half_open_next [OF assms]
    by (simp add: record_sections locked_success_def transition_to_def Let_def)
qed (simp_all add: record_sections locked_failure_def transition_to_def window_reset_micros_def)

text \<open>
  C1: For a breaker with a positive probe limit (an invariant of every run from such a breaker), each
  step (success, failure, window tick, state tick) changes its state exactly along an edge of the
  three-state diagram CLOSED, OPEN, HALF_OPEN, under the guard of that edge, and along no other.
\<close>

theorem breaker_follows_diagram:
  assumes "cb_inv cb"
  shows "cb_state (cb_step cb e) = s' \<and> s' \<noteq> cb_state cb \<longleftrightarrow> breaker_edge cb e s'"
proof -
  have h: "half_open_inv cb" using assms by (simp add: cb_inv_def)
  show ?thesis
  proof (cases e)
    case (StateTick now)
    then show ?thesis
      by (cases "cb_state cb") (auto simp: edge_simps state_tick_def tick_decide_def transition_to_def)
  qed (auto simp: edge_simps cb_step_state [OF h] simp del: cb_step.simps)
qed

theorem breaker_follows_diagram_witness:
  "breaker_edge ((new_breaker ''cb'' 5 60 30 (1 / 2) 1000 0)\<lparr>cb_failure_count := 1, cb_total_count := 1\<rparr>)
     (StateTick 7) StateOpen"
proof -
  let ?cb = "(new_breaker ''cb'' 5 60 30 (1 / 2) 1000 0)\<lparr>cb_failure_count := 1, cb_total_count := 1\<rparr>"
  have inv: "cb_inv ?cb" by (simp add: cb_inv_def half_open_inv_def new_breaker_def)
  have "current_failure_rate ?cb = 1"
    by (simp add: current_failure_rate_def failure_rate_of_def f_of_int_exact fl_exact)
  then have "cb_state (cb_step ?cb (StateTick 7)) = StateOpen \<and> StateOpen \<noteq> cb_state ?cb"
    by (simp add: state_tick_def tick_decide_def transition_to_def new_breaker_def)
  then show ?thesis by (simp only: breaker_follows_diagram [OF inv])
qed

subsection \<open>Admission\<close>

lemma cb_allow_inv:
  "half_open_inv cb \<Longrightarrow> cb_allow now cb \<longleftrightarrow>
     \<not> (cb_state cb = StateOpen \<and> time_sub now (cb_last_state_change cb) \<le> cb_timeout cb)"
  by (auto simp: cb_allow_def half_open_inv_def split: cb_state.splits)

text \<open>
  A breaker with a positive probe limit refuses a request only in OPEN and only within the
  timeout; the HALF_OPEN limit never refuses one.
\<close>

theorem breaker_rejects_only_open:
  assumes "1 \<le> max_requests" "max_requests < 2 ^ 63"
    and cb_def: "cb = run cb_step (new_breaker name max_requests interval timeout threshold slow t0) es"
  shows "cb_allow now cb \<longleftrightarrow>
    \<not> (cb_state cb = StateOpen \<and> time_sub now (cb_last_state_change cb) \<le> cb_timeout cb)"
proof -
  have "run_ok cb_step (\<lambda>_ _. True) cb' es" for cb' by (induction es arbitrary: cb') simp_all
  with assms have "cb_inv cb" unfolding cb_def by (intro cbm.run_inv new_breaker_inv)
  then show ?thesis by (simp add: cb_allow_inv cb_inv_def)
qed

theorem breaker_rejects_only_open_witness:
  "cb_allow 40 (run cb_step (new_breaker ''cb'' 5 60 30 (1 / 2) 1000 0) [Failure 1, WindowTick 2, StateTick 3])"
proof -
  let ?r = "run cb_step (new_breaker ''cb'' 5 60 30 (1 / 2) 1000 0) [Failure 1, WindowTick 2, StateTick 3]"
  have "cb_state ?r = StateClosed" by (simp add: cb_method_defs new_breaker_def Let_def)
  moreover have "cb_allow 40 ?r \<longleftrightarrow>
      \<not> (cb_state ?r = StateOpen \<and> time_sub 40 (cb_last_state_change ?r) \<le> cb_timeout ?r)"
    by (rule breaker_rejects_only_open [OF _ _ refl]) simp_all
  ultimately show ?thesis by (simp only: cb_state.distinct simp_thms)
qed

subsection \<open>Tripping\<close>

lemma is_f64_half: "is_f64 (1 / 2)" "is_f64 (1 / 2 - 1 / 9007199254740992)"
  using is_f64_scaled [of 1 "- 1"] is_f64_scaled [of "2 ^ 52 - 1" "- 53"]
  by (simp_all add: power_int_minus)

lemma half_rate_iff:
  assumes "0 \<le> f" "f \<le> n" "0 < n" "n \<le> 2 ^ 52"
  shows "1 / 2 \<le> failure_rate_of f n \<longleftrightarrow> n \<le> 2 * f"
proof -
  have r: "failure_rate_of f n = fl (of_int f / of_int n)"
    using assms using fl_of_int [of 1] by (simp add: failure_rate_of_def f_of_int_exact)
  show ?thesis
  proof (cases "n \<le> 2 * f")
    case True
    then have "(of_int n :: rat) \<le> of_int (2 * f)" by (simp only: of_int_le_iff)
    then have "1 / 2 \<le> (of_int f / of_int n :: rat)" using assms by (simp add: field_simps)
    then have "1 / 2 \<le> failure_rate_of f n" unfolding r by (rule fl_ge [OF is_f64_half(1)])
    with True show ?thesis by simp
  next
    case False
    then have "2 * f + 1 \<le> n" by simp
    then have "(of_int (2 * f + 1) :: rat) \<le> of_int n" by (simp only: of_int_le_iff)
    moreover have "(of_int n :: rat) \<le> of_int (2 ^ 52)" using assms(4) by (simp only: of_int_le_iff)
    moreover have "(0::rat) < of_int n" using assms(3) by simp
    ultimately have "of_int f / of_int n \<le> (1 / 2 - 1 / 9007199254740992 :: rat)" by (simp add: field_simps)
    then have "failure_rate_of f n \<le> 1 / 2 - 1 / 9007199254740992"
      unfolding r by (rule fl_le [OF is_f64_half(2)])
    with False show ?thesis by simp
  qed
qed

text \<open>
  With the default threshold 0.5 a CLOSED breaker trips at the next state tick exactly when at
  least half of the requests counted in the window failed.
\<close>

theorem breaker_trips_at_half:
  assumes "cb_state cb = StateClosed" "cb_failure_rate cb = 1 / 2"
    and "0 \<le> cb_failure_count cb" "cb_failure_count cb \<le> cb_total_count cb" "cb_total_count cb \<le> 2 ^ 52"
  shows "cb_state (state_tick now cb) = StateOpen \<longleftrightarrow>
    0 < cb_total_count cb \<and> cb_total_count cb \<le> 2 * cb_failure_count cb"
proof (cases "0 < cb_total_count cb")
  case True
  have "cb_failure_rate cb \<le> current_failure_rate cb \<longleftrightarrow> cb_total_count cb \<le> 2 * cb_failure_count cb"
    unfolding assms(2) current_failure_rate_def by (rule half_rate_iff [OF assms(3,4) True assms(5)])
  with True assms(1) show ?thesis by (simp add: state_tick_def tick_decide_def transition_to_def)
qed (use assms in \<open>simp add: state_tick_def tick_decide_def\<close>)

theorem breaker_trips_at_half_witness:
  "cb_state (state_tick 9 ((new_breaker ''cb'' 5 60 30 (1 / 2) 1000 0)
     \<lparr>cb_success_count := 2, cb_failure_count := 1, cb_total_count := 3\<rparr>)) \<noteq> StateOpen"
  using breaker_trips_at_half [of "(new_breaker ''cb'' 5 60 30 (1 / 2) 1000 0)
     \<lparr>cb_success_count := 2, cb_failure_count := 1, cb_total_count := 3\<rparr>" 9]
  by (simp add: new_breaker_def)

subsection \<open>Recovery\<close>

lemma run_successes_half_open:
  assumes "cb_state cb = StateHalfOpen" "half_open_inv cb"
  shows "cb_state (run cb_step cb (map (\<lambda>(d, t). Success d t) xs)) =
    (if cb_half_open_count cb + int (length xs) < cb_max_requests cb then StateHalfOpen else StateClosed)"
  using assms
proof (induction xs arbitrary: cb)
  case Nil
  then show ?case by (simp add: half_open_inv_def)
next
  case (Cons x xs)
  obtain d t where x: "x = (d, t)" by (cases x)
  define cb' where "cb' = record_success d t cb"
  have inv': "half_open_inv cb'" using cb_step_half_open [OF Cons.prems(2), of "Success d t"] by (simp add: cb'_def)
  have max': "cb_max_requests cb' = cb_max_requests cb"
    by (simp add: cb'_def record_success_def del: fold.simps)
  have closed: "cb_state (run cb_step c (map (\<lambda>(d, t). Success d t) ys)) = StateClosed"
    if "cb_state c = StateClosed" for c ys
    using that by (induction ys arbitrary: c) (auto simp: record_sections locked_success_def)
  show ?case
  proof (cases "cb_half_open_count cb + 1 = cb_max_requests cb")
    case True
    then have "cb_state cb' = StateClosed"
      using cb_step_state [OF Cons.prems(2), of "Success d t"] Cons.prems(1) by (simp add: cb'_def)
    from closed [OF this] True show ?thesis by (simp add: x cb'_def)
  next
    case False
    then have "cb_state cb' = StateHalfOpen"
      using cb_step_state [OF Cons.prems(2), of "Success d t"] Cons.prems(1) by (simp add: cb'_def)
    moreover have "cb_half_open_count cb' = cb_half_open_count cb + 1"
      using False Cons.prems half_open_next [OF Cons.prems(2)]
      by (auto simp: cb'_def record_sections locked_success_def Let_def half_open_inv_def)
    ultimately show ?thesis using Cons.IH [of cb'] inv' by (simp add: x cb'_def [symmetric] max' add.assoc)
  qed
qed

text \<open>
  C29: An OPEN breaker whose timeout has passed goes to HALF_OPEN at the next tick and to CLOSED after
  maxRequests successes; a failure that comes before them opens it again, one that comes after
  leaves it CLOSED.
\<close>

theorem breaker_recovers:
  assumes "cb_inv cb" "cb_state cb = StateOpen" "cb_timeout cb < time_sub now (cb_last_state_change cb)"
  shows "cb_state (run cb_step cb (StateTick now # map (\<lambda>(d, t). Success d t) xs)) =
      (if int (length xs) < cb_max_requests cb then StateHalfOpen else StateClosed) \<and>
    cb_state (run cb_step cb (StateTick now # map (\<lambda>(d, t). Success d t) xs @ [Failure t'])) =
      (if int (length xs) < cb_max_requests cb then StateOpen else StateClosed)"
proof -
  define cb1 where "cb1 = state_tick now cb"
  have s1: "cb_state cb1 = StateHalfOpen" "cb_half_open_count cb1 = 0" "cb_max_requests cb1 = cb_max_requests cb"
    using assms by (simp_all add: cb1_def state_tick_def tick_decide_def transition_to_def)
  have inv1: "half_open_inv cb1"
    using cb_step_half_open [of cb "StateTick now"] assms(1) by (simp add: cb1_def cb_inv_def)
  define cb2 where "cb2 = run cb_step cb1 (map (\<lambda>(d, t). Success d t) xs)"
  have s2: "cb_state cb2 = (if int (length xs) < cb_max_requests cb then StateHalfOpen else StateClosed)"
    using run_successes_half_open [OF s1(1) inv1, of xs] by (simp add: cb2_def s1)
  then have "cb_state (record_failure t' cb2) =
      (if int (length xs) < cb_max_requests cb then StateOpen else StateClosed)"
    by (simp add: record_sections locked_failure_def transition_to_def)
  with s2 show ?thesis by (simp add: cb2_def cb1_def)
qed

theorem breaker_recovers_witness:
  "cb_state (run cb_step ((new_breaker ''cb'' 2 60 30 (1 / 2) 1000 0)\<lparr>cb_state := StateOpen\<rparr>)
     (StateTick 30000000001 # map (\<lambda>(d, t). Success d t) [(5, 1), (5, 2)])) = StateClosed"
proof -
  let ?cb = "(new_breaker ''cb'' 2 60 30 (1 / 2) 1000 0)\<lparr>cb_state := StateOpen\<rparr>"
  have "cb_inv ?cb" by (simp add: cb_inv_def half_open_inv_def new_breaker_def)
  moreover have "cb_timeout ?cb < time_sub 30000000001 (cb_last_state_change ?cb)"
    by (simp add: new_breaker_def second_def time_sub_def s64_def)
  ultimately show ?thesis using breaker_recovers [of ?cb 30000000001 "[(5, 1), (5, 2)]"]
    by (simp add: new_breaker_def)
qed

text \<open>
  Closing does not clear the window: the counts that tripped the breaker are still there,
  and the next tick trips it again unless the window was reset or outvoted in between.
\<close>

lemma run_successes_counts:
  assumes "0 \<le> cb_total_count cb" "cb_total_count cb + int (length xs) < 2 ^ 63"
  shows "cb_failure_count (run cb_step cb (map (\<lambda>(d, t). Success d t) xs)) = cb_failure_count cb"
    "cb_total_count (run cb_step cb (map (\<lambda>(d, t). Success d t) xs)) = cb_total_count cb + int (length xs)"
    "cb_failure_rate (run cb_step cb (map (\<lambda>(d, t). Success d t) xs)) = cb_failure_rate cb"
proof -
  have "cb_failure_count (run cb_step cb (map (\<lambda>(d, t). Success d t) xs)) = cb_failure_count cb \<and>
    cb_total_count (run cb_step cb (map (\<lambda>(d, t). Success d t) xs)) = cb_total_count cb + int (length xs) \<and>
    cb_failure_rate (run cb_step cb (map (\<lambda>(d, t). Success d t) xs)) = cb_failure_rate cb"
    using assms
  proof (induction xs arbitrary: cb)
    case (Cons x xs)
    then have "s64 (cb_total_count cb + 1) = cb_total_count cb + 1" by (simp add: s64_id in64_def)
    moreover have "cb_failure_rate (record_success d t cb) = cb_failure_rate cb" for d t
      by (simp add: record_success_def del: fold.simps)
    ultimately show ?case using Cons by (cases x) simp
  qed simp
  then show "cb_failure_count (run cb_step cb (map (\<lambda>(d, t). Success d t) xs)) = cb_failure_count cb"
    "cb_total_count (run cb_step cb (map (\<lambda>(d, t). Success d t) xs)) = cb_total_count cb + int (length xs)"
    "cb_failure_rate (run cb_step cb (map (\<lambda>(d, t). Success d t) xs)) = cb_failure_rate cb"
    by simp_all
qed

text \<open>
  Closing does not clear the window: when the old failures still outvote the probes, the first
  tick after recovery opens the breaker again.
\<close>

theorem breaker_reopens_on_stale_window:
  assumes "cb_inv cb" "cb_state cb = StateHalfOpen" "cb_half_open_count cb = 0"
    and "int (length xs) = cb_max_requests cb"
    and "0 \<le> cb_total_count cb" "cb_total_count cb + cb_max_requests cb < 2 ^ 63"
    and "cb_failure_rate cb \<le> failure_rate_of (cb_failure_count cb) (cb_total_count cb + cb_max_requests cb)"
  shows "cb_state (run cb_step cb (map (\<lambda>(d, t). Success d t) xs)) = StateClosed \<and>
    cb_state (run cb_step cb (map (\<lambda>(d, t). Success d t) xs @ [StateTick now])) = StateOpen"
proof -
  define cb' where "cb' = run cb_step cb (map (\<lambda>(d, t). Success d t) xs)"
  have h: "half_open_inv cb" using assms(1) by (simp add: cb_inv_def)
  have closed: "cb_state cb' = StateClosed"
    using run_successes_half_open [OF assms(2) h, of xs] assms(3,4) by (simp add: cb'_def)
  have c: "cb_failure_count cb' = cb_failure_count cb" "cb_total_count cb' = cb_total_count cb + cb_max_requests cb"
    "cb_failure_rate cb' = cb_failure_rate cb"
    using run_successes_counts [of cb xs] assms(4-6) by (simp_all add: cb'_def)
  have "0 < cb_total_count cb'" using c(2) assms(5) h by (simp add: half_open_inv_def)
  with closed c assms(7) have "cb_state (state_tick now cb') = StateOpen"
    by (simp add: state_tick_def tick_decide_def current_failure_rate_def transition_to_def)
  with closed show ?thesis by (simp add: cb'_def)
qed

theorem breaker_reopens_on_stale_window_witness:
  "cb_state (run cb_step ((new_breaker ''cb'' 2 60 30 (1 / 2) 1000 0)
     \<lparr>cb_state := StateHalfOpen, cb_failure_count := 6, cb_total_count := 6\<rparr>)
     (map (\<lambda>(d, t). Success d t) [(5, 1), (5, 2)] @ [StateTick 3])) = StateOpen"
proof -
  let ?cb = "(new_breaker ''cb'' 2 60 30 (1 / 2) 1000 0)
     \<lparr>cb_state := StateHalfOpen, cb_failure_count := 6, cb_total_count := 6\<rparr>"
  have "(1 / 2 :: rat) \<le> fl (6 / 8)" by (rule fl_ge [OF is_f64_half(1)]) simp
  then have r: "cb_failure_rate ?cb \<le>
      failure_rate_of (cb_failure_count ?cb) (cb_total_count ?cb + cb_max_requests ?cb)"
    by (simp add: new_breaker_def failure_rate_of_def f_of_int_exact)
  have inv: "cb_inv ?cb" by (simp add: cb_inv_def half_open_inv_def new_breaker_def s64_def)
  show ?thesis
    by (rule breaker_reopens_on_stale_window [OF inv _ _ _ _ _ r, THEN conjunct2])
      (simp_all add: new_breaker_def s64_def)
qed

subsection \<open>Slow calls\<close>

text \<open>
  The slow-call count is kept and published, and read by no decision: the breaker with
  another slow-call threshold behaves the same.
\<close>

definition with_slow :: "int \<Rightarrow> int \<Rightarrow> breaker \<Rightarrow> breaker" where
  "with_slow ms n cb = cb\<lparr>cb_slow_call_ms := ms, cb_slow_count := n\<rparr>"

lemma locked_with_slow:
  "locked_success now (with_slow ms n cb) = with_slow ms n (locked_success now cb)"
  "locked_failure now (with_slow ms n cb) = with_slow ms n (locked_failure now cb)"
  by (simp_all add: with_slow_def locked_success_def locked_failure_def transition_to_def Let_def)

lemma with_slow_frame:
  "cb_slow_call_ms (with_slow ms n cb) = ms" "cb_slow_count (with_slow ms n cb) = n"
  "cb_success_count (with_slow ms n cb) = cb_success_count cb"
  "cb_failure_count (with_slow ms n cb) = cb_failure_count cb"
  "cb_total_count (with_slow ms n cb) = cb_total_count cb"
  "cb_state (with_slow ms n cb) = cb_state cb"
  "(with_slow ms n cb)\<lparr>cb_success_count := a\<rparr> = with_slow ms n (cb\<lparr>cb_success_count := a\<rparr>)"
  "(with_slow ms n cb)\<lparr>cb_total_count := b\<rparr> = with_slow ms n (cb\<lparr>cb_total_count := b\<rparr>)"
  "(with_slow ms n cb)\<lparr>cb_slow_count := k\<rparr> = with_slow ms k cb"
  "get_state (with_slow ms n cb) = get_state cb"
  by (simp_all add: with_slow_def get_state_def)

lemma cb_allow_with_slow: "cb_allow now (with_slow ms n cb) = cb_allow now cb"
  by (cases "cb_state cb") (simp_all add: with_slow_def cb_allow_def)

lemma with_slow_again: "with_slow ms n (with_slow ms' n' cb) = with_slow ms n cb"
  by (simp add: with_slow_def)

lemma record_success_slow:
  "\<exists>n'. record_success d now cb = with_slow (cb_slow_call_ms cb) n' (locked_success now
      (cb\<lparr>cb_success_count := s64 (cb_success_count cb + 1), cb_total_count := s64 (cb_total_count cb + 1)\<rparr>))"
proof -
  let ?cb1 = "cb\<lparr>cb_success_count := s64 (cb_success_count cb + 1), cb_total_count := s64 (cb_total_count cb + 1)\<rparr>"
  have "\<exists>n'. record_success d now cb = locked_success now (with_slow (cb_slow_call_ms cb) n' ?cb1)"
    by (auto simp: record_success_def record_success_micros_def with_slow_def
        intro: exI [of _ "s64 (cb_slow_count cb + 1)"] exI [of _ "cb_slow_count cb"])
  then show ?thesis by (simp add: locked_with_slow)
qed

lemma cb_step_with_slow: "\<exists>n'. cb_step (with_slow ms n cb) e = with_slow ms n' (cb_step cb e)"
proof (cases e)
  case (Success d now)
  let ?cb1 = "cb\<lparr>cb_success_count := s64 (cb_success_count cb + 1), cb_total_count := s64 (cb_total_count cb + 1)\<rparr>"
  obtain n1 where 1: "record_success d now cb = with_slow (cb_slow_call_ms cb) n1 (locked_success now ?cb1)"
    using record_success_slow by blast
  obtain n2 where "record_success d now (with_slow ms n cb) = with_slow ms n2 (locked_success now (with_slow ms n ?cb1))"
    using record_success_slow [of d now "with_slow ms n cb"] by (auto simp: with_slow_frame)
  then have "record_success d now (with_slow ms n cb) = with_slow ms n2 (record_success d now cb)"
    by (simp add: 1 locked_with_slow with_slow_again)
  with Success show ?thesis by auto
next
  case (Failure now)
  have "cb_step (with_slow ms n cb) e = with_slow ms n (cb_step cb e)"
    by (rule breaker.equality)
      (simp_all add: Failure record_failure_def record_failure_micros_def with_slow_def locked_failure_def
        transition_to_def)
  then show ?thesis by blast
next
  case (WindowTick now)
  have "cb_step (with_slow ms n cb) e = with_slow ms 0 (cb_step cb e)"
    by (rule breaker.equality) (simp_all add: WindowTick with_slow_def window_reset_micros_def)
  then show ?thesis by blast
next
  case (StateTick now)
  have "tick_decide now rate n' (with_slow ms n cb) = with_slow ms n (tick_decide now rate n' cb)" for rate n'
    by (rule breaker.equality) (simp_all add: with_slow_def tick_decide_def transition_to_def)
  then have "cb_step (with_slow ms n cb) e = with_slow ms n (cb_step cb e)"
    by (simp add: StateTick state_tick_def current_failure_rate_def with_slow_frame)
  then show ?thesis by blast
qed

text \<open>
  Two breakers that differ only in the slow-call threshold admit the same requests and show the
  same state after every run of events: the slow-call count decides nothing.
\<close>

theorem slow_calls_never_matter:
  "cb_allow now (run cb_step (new_breaker name m i t r slow t0) es) =
     cb_allow now (run cb_step (new_breaker name m i t r slow' t0) es) \<and>
   get_state (run cb_step (new_breaker name m i t r slow t0) es) =
     get_state (run cb_step (new_breaker name m i t r slow' t0) es)"
proof -
  have "\<exists>n'. run cb_step (with_slow ms n cb) es = with_slow ms n' (run cb_step cb es)" for ms n cb
  proof (induction es arbitrary: cb n)
    case (Cons e es)
    obtain n1 where "cb_step (with_slow ms n cb) e = with_slow ms n1 (cb_step cb e)"
      using cb_step_with_slow by blast
    with Cons.IH [of n1 "cb_step cb e"] show ?case by (simp del: cb_step.simps)
  qed auto
  moreover have "new_breaker name m i t r slow t0 = with_slow slow 0 (new_breaker name m i t r slow' t0)"
    by (simp add: new_breaker_def with_slow_def)
  ultimately obtain n' where "run cb_step (new_breaker name m i t r slow t0) es =
      with_slow slow n' (run cb_step (new_breaker name m i t r slow' t0) es)" by metis
  then show ?thesis by (simp only: with_slow_frame cb_allow_with_slow)
qed

subsection \<open>Any number of goroutines\<close>

text \<open>
  The interleaved system: each goroutine has the actions it still has to perform. Goroutine
  0 is \<open>windowResetLoop\<close>; the others run requests. A tick of \<open>stateTransitionLoop\<close> in
  \<open>CLOSED\<close> holds the mutex while it loads the counters one by one (\<open>ticker\<close>), so atomic
  additions of other goroutines can fall between its loads, and critical sections cannot.
  The clock reading of a critical section is any value, chosen when the call starts.
\<close>

datatype ticker = TickerIdle | TickerLocked | TickerTotal int | TickerRate f64

record cb_sys =
  sys_cb :: breaker
  sys_pend :: "nat \<Rightarrow> cb_micro list"
  sys_ticker :: ticker

fun takes_lock :: "cb_micro \<Rightarrow> bool" where
  "takes_lock (LockedSuccess now) = True"
| "takes_lock (SetLastFailure now) = True"
| "takes_lock (LockedFailure now) = True"
| "takes_lock _ = False"

inductive cb_istep :: "cb_sys \<Rightarrow> cb_sys \<Rightarrow> bool" where
  call_success: "g \<noteq> 0 \<Longrightarrow> sys_pend s g = [] \<Longrightarrow>
    cb_istep s (s\<lparr>sys_pend := (sys_pend s)(g := record_success_micros (cb_slow_call_ms (sys_cb s)) d now)\<rparr>)"
| call_failure: "g \<noteq> 0 \<Longrightarrow> sys_pend s g = [] \<Longrightarrow>
    cb_istep s (s\<lparr>sys_pend := (sys_pend s)(g := record_failure_micros now now')\<rparr>)"
| window_tick: "sys_pend s 0 = [] \<Longrightarrow>
    cb_istep s (s\<lparr>sys_pend := (sys_pend s)(0 := window_reset_micros)\<rparr>)"
| exec: "sys_pend s g = m # ms \<Longrightarrow> (takes_lock m \<Longrightarrow> sys_ticker s = TickerIdle) \<Longrightarrow>
    cb_istep s (s\<lparr>sys_cb := cb_exec m (sys_cb s), sys_pend := (sys_pend s)(g := ms)\<rparr>)"
| tick_not_closed: "sys_ticker s = TickerIdle \<Longrightarrow> cb_state (sys_cb s) \<noteq> StateClosed \<Longrightarrow>
    cb_istep s (s\<lparr>sys_cb := tick_decide now 0 0 (sys_cb s)\<rparr>)"
| tick_lock: "sys_ticker s = TickerIdle \<Longrightarrow> cb_state (sys_cb s) = StateClosed \<Longrightarrow>
    cb_istep s (s\<lparr>sys_ticker := TickerLocked\<rparr>)"
| tick_load_zero: "sys_ticker s = TickerLocked \<Longrightarrow> cb_total_count (sys_cb s) = 0 \<Longrightarrow>
    cb_istep s (s\<lparr>sys_ticker := TickerRate 0\<rparr>)"
| tick_load_total: "sys_ticker s = TickerLocked \<Longrightarrow> cb_total_count (sys_cb s) \<noteq> 0 \<Longrightarrow>
    cb_istep s (s\<lparr>sys_ticker := TickerTotal (cb_total_count (sys_cb s))\<rparr>)"
| tick_load_failures: "sys_ticker s = TickerTotal n \<Longrightarrow>
    cb_istep s (s\<lparr>sys_ticker := TickerRate (failure_rate_of (cb_failure_count (sys_cb s)) n)\<rparr>)"
| tick_decision: "sys_ticker s = TickerRate r \<Longrightarrow>
    cb_istep s (s\<lparr>sys_cb := tick_decide now r (cb_total_count (sys_cb s)) (sys_cb s), sys_ticker := TickerIdle\<rparr>)"

definition init_sys :: "breaker \<Rightarrow> cb_sys" where
  "init_sys cb = \<lparr>sys_cb = cb, sys_pend = (\<lambda>_. []), sys_ticker = TickerIdle\<rparr>"

inductive cb_reach :: "breaker \<Rightarrow> cb_sys \<Rightarrow> bool" for cb0 where
  start: "cb_reach cb0 (init_sys cb0)"
| step: "cb_reach cb0 s \<Longrightarrow> cb_istep s s' \<Longrightarrow> cb_reach cb0 s'"

text \<open>
  Under every interleaving: the half-open invariant, and while the ticker holds the mutex
  the state stays \<open>CLOSED\<close>, so its decision is about the state it saw.
\<close>

definition sys_inv :: "cb_sys \<Rightarrow> bool" where
  "sys_inv s \<longleftrightarrow> half_open_inv (sys_cb s) \<and>
     (sys_ticker s \<noteq> TickerIdle \<longrightarrow> cb_state (sys_cb s) = StateClosed)"

lemma cb_exec_lockfree: "\<not> takes_lock m \<Longrightarrow> cb_state (cb_exec m cb) = cb_state cb"
  by (cases m) simp_all

lemma cb_istep_inv: "cb_istep s s' \<Longrightarrow> sys_inv s \<Longrightarrow> sys_inv s'"
proof (induction rule: cb_istep.induct)
  case (exec s g m ms)
  then show ?case
    by (cases "takes_lock m") (simp_all add: sys_inv_def cb_exec_half_open cb_exec_lockfree)
qed (simp_all add: sys_inv_def tick_decide_half_open)

lemma cb_reach_inv: "cb_reach cb0 s \<Longrightarrow> half_open_inv cb0 \<Longrightarrow> sys_inv s"
  by (induction rule: cb_reach.induct) (auto simp: init_sys_def sys_inv_def dest: cb_istep_inv [unfolded sys_inv_def])

text \<open>
  The four stores of a window reset are not one action. A failure recorded between the
  reset of the failures and the reset of the total is counted as a failure of no request.
\<close>

lemma exec_step:
  "sys_pend s g = m # ms \<Longrightarrow> \<not> takes_lock m \<or> sys_ticker s = TickerIdle \<Longrightarrow> cb_reach cb0 s \<Longrightarrow>
     cb_reach cb0 (s\<lparr>sys_cb := cb_exec m (sys_cb s), sys_pend := (sys_pend s)(g := ms)\<rparr>)"
  by (blast intro: cb_reach.step cb_istep.exec)

lemma exec_all:
  assumes "cb_reach cb0 s" "sys_pend s g = ms @ rest" "sys_ticker s = TickerIdle"
  shows "cb_reach cb0 (s\<lparr>sys_cb := fold cb_exec ms (sys_cb s), sys_pend := (sys_pend s)(g := rest)\<rparr>)"
  using assms
proof (induction ms arbitrary: s)
  case Nil
  then have "(sys_pend s)(g := rest) = sys_pend s" by (simp add: fun_upd_idem)
  with Nil.prems(1) show ?case by (simp del: fun_upd_apply)
next
  case (Cons m ms)
  define s1 where "s1 = s\<lparr>sys_cb := cb_exec m (sys_cb s), sys_pend := (sys_pend s)(g := ms @ rest)\<rparr>"
  have "cb_reach cb0 s1" unfolding s1_def using Cons by (intro exec_step) simp_all
  then have "cb_reach cb0 (s1\<lparr>sys_cb := fold cb_exec ms (sys_cb s1), sys_pend := (sys_pend s1)(g := rest)\<rparr>)"
    by (rule Cons.IH) (simp_all add: s1_def Cons.prems(3))
  moreover have "s1\<lparr>sys_cb := fold cb_exec ms (sys_cb s1), sys_pend := (sys_pend s1)(g := rest)\<rparr> =
      s\<lparr>sys_cb := fold cb_exec (m # ms) (sys_cb s), sys_pend := (sys_pend s)(g := rest)\<rparr>"
    by (simp add: s1_def del: fun_upd_apply)
  ultimately show ?case by (simp only:)
qed

text \<open>The edges of the diagram, for a single step of any goroutine.\<close>

definition diagram_edge :: "cb_state \<Rightarrow> cb_state \<Rightarrow> bool" where
  "diagram_edge a b \<longleftrightarrow> a = b \<or>
     (a, b) \<in> {(StateClosed, StateOpen), (StateOpen, StateHalfOpen), (StateHalfOpen, StateClosed), (StateHalfOpen, StateOpen)}"

lemma cb_exec_edge: "diagram_edge (cb_state cb) (cb_state (cb_exec m cb))"
  by (cases m) (auto simp: diagram_edge_def locked_success_def locked_failure_def transition_to_def Let_def)

lemma tick_decide_edge: "diagram_edge (cb_state cb) (cb_state (tick_decide now r n cb))"
  by (cases "cb_state cb") (auto simp: diagram_edge_def tick_decide_def transition_to_def)

lemma cb_istep_edge: "cb_istep s s' \<Longrightarrow> diagram_edge (cb_state (sys_cb s)) (cb_state (sys_cb s'))"
  by (induction rule: cb_istep.induct) (simp_all add: cb_exec_edge tick_decide_edge, simp_all add: diagram_edge_def)

text \<open>
  C27: Under every interleaving of the atomic additions and critical sections of any number of
  goroutines with the two background loops, from a new breaker with a probe limit from 1 to 2^63 -
  1: the half-open count stays below the limit and is 0 outside HALF_OPEN; Allow admits every
  request in HALF_OPEN (the limit counts successes and does not bound the requests, contrary to
  its comment); the ticker decides on the state it locked; and every single atomic step leaves the
  state as it is or moves it along an edge of the three-state diagram.
\<close>

theorem breaker_concurrent_safety:
  assumes "cb_reach (new_breaker name max_requests i t r slow t0) s" "1 \<le> max_requests" "max_requests < 2 ^ 63"
  shows "half_open_inv (sys_cb s) \<and> (cb_state (sys_cb s) = StateHalfOpen \<longrightarrow> cb_allow now (sys_cb s)) \<and>
    (sys_ticker s \<noteq> TickerIdle \<longrightarrow> cb_state (sys_cb s) = StateClosed) \<and>
    (\<forall>s'. cb_istep s s' \<longrightarrow> diagram_edge (cb_state (sys_cb s)) (cb_state (sys_cb s')))"
proof -
  have "half_open_inv (new_breaker name max_requests i t r slow t0)"
    using new_breaker_inv [OF assms(2,3)] by (simp add: cb_inv_def)
  with assms(1) have "sys_inv s" by (rule cb_reach_inv)
  then show ?thesis using cb_istep_edge by (auto simp: sys_inv_def cb_allow_inv)
qed

text \<open>
  A failing call and a successful one overlap with a tick that opens the breaker: the tick holds
  the mutex in \<open>mid\<close>, between its loads; in \<open>half\<close> a later tick has made the breaker \<open>HALF_OPEN\<close>
  while both calls still wait for their critical sections.
\<close>

definition sample_breaker :: breaker where
  "sample_breaker = new_breaker ''cb'' 5 60 30 (1 / 2) 1000 0"

lemma sample_breaker_fields:
  "cb_state sample_breaker = StateClosed" "cb_total_count sample_breaker = 0" "cb_failure_count sample_breaker = 0"
  "cb_failure_rate sample_breaker = 1 / 2" "cb_timeout sample_breaker = 30 * second" "cb_slow_call_ms sample_breaker = 1000"
  by (simp_all add: sample_breaker_def new_breaker_def s64_id in64_def second_def)

definition overlap :: cb_sys where
  "overlap = \<lparr>sys_cb = fold cb_exec [AddFailure, AddTotal] sample_breaker,
     sys_pend = (\<lambda>_. [])(1 := [SetLastFailure 0, LockedFailure 0], 2 := [AddSuccess, AddTotal, LockedSuccess 0]),
     sys_ticker = TickerTotal 1\<rparr>"

lemma overlap_cb:
  "cb_state (sys_cb overlap) = StateClosed" "cb_total_count (sys_cb overlap) = 1" "cb_failure_count (sys_cb overlap) = 1"
  "cb_failure_rate (sys_cb overlap) = 1 / 2" "cb_timeout (sys_cb overlap) = 30 * second"
  by (simp_all add: overlap_def sample_breaker_fields s64_id in64_def)

lemma overlap_reached: "cb_reach sample_breaker overlap"
proof -
  define s1 where "s1 = (init_sys sample_breaker)\<lparr>sys_pend := (sys_pend (init_sys sample_breaker))(1 := record_failure_micros 0 0)\<rparr>"
  define s2 where "s2 = s1\<lparr>sys_pend := (sys_pend s1)(2 := record_success_micros (cb_slow_call_ms (sys_cb s1)) 0 0)\<rparr>"
  define s3 where "s3 = s2\<lparr>sys_cb := fold cb_exec [AddFailure, AddTotal] (sys_cb s2),
    sys_pend := (sys_pend s2)(1 := [SetLastFailure 0, LockedFailure 0])\<rparr>"
  have "cb_reach sample_breaker s1"
    unfolding s1_def by (rule cb_reach.step [OF cb_reach.start cb_istep.call_failure]) (simp_all add: init_sys_def)
  then have "cb_reach sample_breaker s2"
    unfolding s2_def by (rule cb_reach.step [OF _ cb_istep.call_success]) (simp_all add: s1_def init_sys_def)
  then have 3: "cb_reach sample_breaker s3"
    unfolding s3_def by (rule exec_all) (simp_all add: s2_def s1_def init_sys_def record_failure_micros_def)
  have 4: "overlap = s3\<lparr>sys_ticker := TickerLocked\<rparr>\<lparr>sys_ticker := TickerTotal (cb_total_count (sys_cb s3))\<rparr>"
    by (simp add: overlap_def s3_def s2_def s1_def init_sys_def sample_breaker_fields record_success_micros_def duration_ms_def quot_def
        s64_id in64_def fun_upd_twist)
  have c: "sys_cb s3 = sys_cb overlap" by (simp add: 4)
  have "cb_reach sample_breaker (s3\<lparr>sys_ticker := TickerLocked\<rparr>)"
    by (rule cb_reach.step [OF 3 cb_istep.tick_lock]) (simp_all add: c overlap_cb, simp add: s3_def s2_def s1_def init_sys_def)
  from cb_reach.step [OF this cb_istep.tick_load_total] show ?thesis unfolding 4 by (simp add: c overlap_cb)
qed

lemma overlap_half_open:
  "\<exists>half. cb_reach sample_breaker half \<and> cb_state (sys_cb half) = StateHalfOpen \<and> sys_pend half 1 \<noteq> [] \<and> sys_pend half 2 \<noteq> []"
proof -
  define s1 where "s1 = overlap\<lparr>sys_cb := cb_exec AddSuccess (sys_cb overlap), sys_pend := (sys_pend overlap)(2 := [AddTotal, LockedSuccess 0])\<rparr>"
  define s2 where "s2 = s1\<lparr>sys_ticker := TickerRate (failure_rate_of (cb_failure_count (sys_cb s1)) 1)\<rparr>"
  define s3 where "s3 = s2\<lparr>sys_cb := cb_exec AddTotal (sys_cb s2), sys_pend := (sys_pend s2)(2 := [LockedSuccess 0])\<rparr>"
  define s4 where "s4 = s3\<lparr>sys_cb := tick_decide 0 1 (cb_total_count (sys_cb s3)) (sys_cb s3), sys_ticker := TickerIdle\<rparr>"
  define half where "half = s4\<lparr>sys_cb := tick_decide (31 * second) 0 0 (sys_cb s4)\<rparr>"
  have rate: "failure_rate_of 1 1 = 1" using fl_of_int [of 1] by (simp add: failure_rate_of_def f_of_int_exact)
  have "cb_reach sample_breaker s1"
    unfolding s1_def by (rule exec_step [OF _ _ overlap_reached]) (simp_all add: overlap_def)
  then have "cb_reach sample_breaker s2"
    unfolding s2_def by (rule cb_reach.step [OF _ cb_istep.tick_load_failures]) (simp add: s1_def overlap_def)
  then have "cb_reach sample_breaker s3"
    unfolding s3_def by (rule exec_step [rotated 2]) (simp_all add: s2_def s1_def)
  then have 4: "cb_reach sample_breaker s4"
    unfolding s4_def by (rule cb_reach.step [OF _ cb_istep.tick_decision]) (simp add: s3_def s2_def s1_def overlap_cb rate)
  have c3: "cb_state (sys_cb s3) = StateClosed" "cb_total_count (sys_cb s3) = 2" "cb_failure_rate (sys_cb s3) = 1 / 2"
    "cb_timeout (sys_cb s3) = 30 * second"
    by (simp_all add: s3_def s2_def s1_def overlap_cb s64_id in64_def)
  have c4: "cb_state (sys_cb s4) = StateOpen" "cb_last_state_change (sys_cb s4) = 0" "cb_timeout (sys_cb s4) = 30 * second" "sys_ticker s4 = TickerIdle"
    by (simp_all add: s4_def tick_decide_def c3 transition_to_def)
  have "cb_reach sample_breaker half"
    unfolding half_def by (rule cb_reach.step [OF 4 cb_istep.tick_not_closed]) (simp_all add: c4)
  moreover have "cb_state (sys_cb half) = StateHalfOpen"
    by (simp add: half_def tick_decide_def c4 transition_to_def time_sub_def second_def)
  moreover have "sys_pend half 1 \<noteq> []" "sys_pend half 2 \<noteq> []"
    by (simp_all add: half_def s4_def s3_def s2_def s1_def overlap_def)
  ultimately show ?thesis by blast
qed

theorem breaker_concurrent_safety_witness:
  "\<exists>half. cb_reach sample_breaker overlap \<and> sys_ticker overlap = TickerTotal 1 \<and> cb_state (sys_cb overlap) = StateClosed \<and>
     cb_reach sample_breaker half \<and> cb_state (sys_cb half) = StateHalfOpen \<and> sys_pend half 1 \<noteq> [] \<and> sys_pend half 2 \<noteq> [] \<and>
     half_open_inv (sys_cb half) \<and> cb_allow (40 * second) (sys_cb half)"
proof -
  obtain half where h: "cb_reach sample_breaker half" "cb_state (sys_cb half) = StateHalfOpen" "sys_pend half 1 \<noteq> []" "sys_pend half 2 \<noteq> []"
    using overlap_half_open by blast
  have t: "sys_ticker overlap = TickerTotal 1" by (simp add: overlap_def)
  have m: "(1 :: int) \<le> 5" "(5 :: int) < 2 ^ 63" by simp_all
  note th = breaker_concurrent_safety [OF _ m, of "''cb''" 60 30 "1 / 2" 1000 0, folded sample_breaker_def]
  show ?thesis using overlap_reached h t th [OF overlap_reached] th [OF h(1), of "40 * second"] by (intro exI [of _ half]) simp
qed

text \<open>
  The four stores of a window reset are not atomic: some interleaving with RecordFailure leaves
  one failure counted and a total of zero.
\<close>

theorem window_reset_race:
  "\<exists>s. cb_reach (new_breaker name m i t r slow t0) s \<and> (\<forall>g. sys_pend s g = []) \<and>
     cb_failure_count (sys_cb s) = 1 \<and> cb_success_count (sys_cb s) = 0 \<and> cb_total_count (sys_cb s) = 0"
proof -
  define cb0 where "cb0 = new_breaker name m i t r slow t0"
  define s0 where "s0 = init_sys cb0"
  define s1 where "s1 = s0\<lparr>sys_pend := (sys_pend s0)(0 := window_reset_micros)\<rparr>"
  define s2 where "s2 = s1\<lparr>sys_pend := (sys_pend s1)(1 := record_failure_micros 0 0)\<rparr>"
  define s3 where "s3 = s2\<lparr>sys_cb := fold cb_exec [ZeroSuccess, ZeroFailure] (sys_cb s2),
    sys_pend := (sys_pend s2)(0 := [ZeroSlow, ZeroTotal])\<rparr>"
  define s4 where "s4 = s3\<lparr>sys_cb := fold cb_exec (record_failure_micros 0 0) (sys_cb s3),
    sys_pend := (sys_pend s3)(1 := [])\<rparr>"
  define s5 where "s5 = s4\<lparr>sys_cb := fold cb_exec [ZeroSlow, ZeroTotal] (sys_cb s4),
    sys_pend := (sys_pend s4)(0 := [])\<rparr>"
  note defs = s5_def s4_def s3_def s2_def s1_def s0_def init_sys_def
  have "cb_reach cb0 s1"
    unfolding s1_def s0_def by (rule cb_reach.step [OF cb_reach.start cb_istep.window_tick]) (simp add: init_sys_def)
  then have "cb_reach cb0 s2"
    unfolding s2_def by (rule cb_reach.step [OF _ cb_istep.call_failure]) (simp_all add: s1_def s0_def init_sys_def)
  then have "cb_reach cb0 s3"
    unfolding s3_def by (rule exec_all) (simp_all add: defs window_reset_micros_def)
  then have "cb_reach cb0 s4"
    unfolding s4_def by (rule exec_all) (simp_all add: defs)
  then have "cb_reach cb0 s5"
    unfolding s5_def by (rule exec_all) (simp_all add: defs)
  moreover have "\<forall>g. sys_pend s5 g = []" by (simp add: defs)
  moreover have "cb_failure_count (sys_cb s5) = 1" "cb_success_count (sys_cb s5) = 0" "cb_total_count (sys_cb s5) = 0"
    by (simp_all add: defs record_failure_micros_def cb0_def new_breaker_def)
  ultimately show ?thesis unfolding cb0_def by blast
qed

end
