(* ===== verification/Hot_Key.thy ===== *)
theory Hot_Key
  imports Prelude "HOL-Library.Multiset"
begin

section \<open>The hot-key detector (internal/cache/hot_key_detector.go)\<close>

text \<open>
  A detector keeps one ring of slot counters per key. The theory models the ring
  (\<open>slotRing\<close>: \<open>advance\<close>, \<open>inc\<close>, \<open>sum\<close>), the detector's operations and the cleanup, with the
  panics of the code (division by a zero interval, a negative slice length) as \<open>None\<close>. The
  ring refines a sliding list of counters, most recent first (\<open>ring_view\<close>); the client of
  that interface, the locale \<open>sliding_window\<close>, relates the sum to the accesses performed.
  An access is a chain of separately locked steps; here it runs without interleaving.
\<close>

record slot_ring =
  sr_counters :: "int list"
  sr_slot_idx :: nat
  sr_last_tick :: time

text \<open>\<open>make([]int64, slots)\<close> panics for a negative length.\<close>

definition new_slot_ring :: "int \<Rightarrow> time \<Rightarrow> slot_ring option" where
  "new_slot_ring slots now =
     (if slots < 0 then None
      else Some \<lparr>sr_counters = replicate (nat slots) 0, sr_slot_idx = 0, sr_last_tick = now\<rparr>)"

text \<open>One pass of the loop in \<open>advance\<close>, and \<open>n\<close> of them.\<close>

definition advance_slot :: "slot_ring \<Rightarrow> slot_ring" where
  "advance_slot sr =
     (let i = (sr_slot_idx sr + 1) mod length (sr_counters sr)
      in sr\<lparr>sr_slot_idx := i, sr_counters := (sr_counters sr)[i := 0]\<rparr>)"

primrec advance_slots :: "nat \<Rightarrow> slot_ring \<Rightarrow> slot_ring" where
  "advance_slots 0 sr = sr"
| "advance_slots (Suc n) sr = advance_slots n (advance_slot sr)"

definition sr_advance :: "duration \<Rightarrow> time \<Rightarrow> slot_ring \<Rightarrow> slot_ring option" where
  "sr_advance interval now sr =
     (case go_div (time_sub now (sr_last_tick sr)) interval of
        None \<Rightarrow> None
      | Some steps \<Rightarrow>
          if steps \<le> 0 then Some sr
          else
            (let n = int (length (sr_counters sr));
                 steps' = (if steps > n then n else steps)
             in Some ((advance_slots (nat steps') sr)\<lparr>sr_last_tick := now\<rparr>)))"

text \<open>\<open>counters[slotIdx]++\<close> is an index out of range on an empty slice.\<close>

definition sr_inc :: "slot_ring \<Rightarrow> slot_ring option" where
  "sr_inc sr =
     (if sr_slot_idx sr < length (sr_counters sr)
      then Some (sr\<lparr>sr_counters := (sr_counters sr)
        [sr_slot_idx sr := s64 (sr_counters sr ! sr_slot_idx sr + 1)]\<rparr>)
      else None)"

definition sr_sum :: "slot_ring \<Rightarrow> int" where
  "sr_sum sr = foldl (\<lambda>tot v. s64 (tot + v)) 0 (sr_counters sr)"

subsection \<open>The detector\<close>

record detector =
  hk_counters :: "string \<rightharpoonup> slot_ring"
  hk_threshold :: int
  hk_window_size :: duration
  hk_slots :: int
  hk_hot_keys :: "string set"
  hk_stopped :: bool

definition new_detector :: "int \<Rightarrow> int \<Rightarrow> int \<Rightarrow> detector" where
  "new_detector window_seconds slots threshold =
     \<lparr>hk_counters = Map.empty, hk_threshold = threshold,
      hk_window_size = s64 (window_seconds * second), hk_slots = slots,
      hk_hot_keys = {}, hk_stopped = False\<rparr>"

text \<open>
  \<open>RecordAccess\<close> reads the clock when it creates a ring and again in \<open>advance\<close>; nothing is
  counted between the two readings, which are one here.
\<close>

definition find_ring :: "string \<Rightarrow> time \<Rightarrow> detector \<Rightarrow> slot_ring option" where
  "find_ring key now h =
     (case hk_counters h key of Some sr \<Rightarrow> Some sr | None \<Rightarrow> new_slot_ring (hk_slots h) now)"

definition record_access :: "string \<Rightarrow> time \<Rightarrow> detector \<Rightarrow> (bool \<times> detector) option" where
  "record_access key now h =
     (case go_div (hk_window_size h) (hk_slots h) of
        None \<Rightarrow> None
      | Some interval \<Rightarrow>
          (case find_ring key now h of
             None \<Rightarrow> None
           | Some sr \<Rightarrow>
               (case sr_advance interval now sr of
                  None \<Rightarrow> None
                | Some sr1 \<Rightarrow>
                    (case sr_inc sr1 of
                       None \<Rightarrow> None
                     | Some sr2 \<Rightarrow>
                         (let is_hot = sr_sum sr2 > hk_threshold h;
                              h' = h\<lparr>hk_counters := (hk_counters h)(key \<mapsto> sr2)\<rparr>
                          in Some (is_hot,
                               if is_hot then h'\<lparr>hk_hot_keys := insert key (hk_hot_keys h')\<rparr> else h'))))))"

definition is_hot :: "string \<Rightarrow> detector \<Rightarrow> bool" where
  "is_hot key h = (key \<in> hk_hot_keys h)"

text \<open>The keys \<open>GetHotKeys\<close> returns, in Go's unspecified map order.\<close>

definition get_hot_keys :: "detector \<Rightarrow> string set" where
  "get_hot_keys h = hk_hot_keys h"

text \<open>
  \<open>cleanup\<close> collects under the read lock and re-checks under the write lock; accesses of
  other goroutines may fall between the two halves.
\<close>

definition low_count :: "detector \<Rightarrow> string \<Rightarrow> bool" where
  "low_count h key =
     (case hk_counters h key of None \<Rightarrow> False | Some sr \<Rightarrow> sr_sum sr \<le> quot (hk_threshold h) 10)"

definition cleanup_collect :: "detector \<Rightarrow> string set" where
  "cleanup_collect h = {key. low_count h key}"

definition cleanup_delete :: "string set \<Rightarrow> detector \<Rightarrow> detector" where
  "cleanup_delete to_delete h =
     h\<lparr>hk_counters := (\<lambda>key. if key \<in> to_delete \<and> low_count h key then None else hk_counters h key),
       hk_hot_keys := {key \<in> hk_hot_keys h. \<not> (key \<in> to_delete \<and> low_count h key)}\<rparr>"

definition cleanup :: "detector \<Rightarrow> detector" where
  "cleanup h = cleanup_delete (cleanup_collect h) h"

definition cleanup_loop_start :: "detector \<Rightarrow> string option" where
  "cleanup_loop_start h =
     (if s64 (hk_window_size h * 2) \<le> 0 then Some ''non-positive interval for NewTicker'' else None)"

fun cleanup_iter :: "loop_signal \<Rightarrow> detector \<Rightarrow> detector \<times> bool" where
  "cleanup_iter StopSignal h = (h, False)"
| "cleanup_iter (TickSignal now) h = (cleanup h, True)"

text \<open>\<open>Stop\<close> closes the channel; closing it twice panics.\<close>

definition hk_stop :: "detector \<Rightarrow> detector option" where
  "hk_stop h = (if hk_stopped h then None else Some (h\<lparr>hk_stopped := True\<rparr>))"

subsection \<open>The ring as a sliding list of counters\<close>

definition ring_ok :: "nat \<Rightarrow> slot_ring \<Rightarrow> bool" where
  "ring_ok n sr \<longleftrightarrow> length (sr_counters sr) = n \<and> sr_slot_idx sr < n"

text \<open>The counters from the current slot backwards.\<close>

definition ring_view :: "slot_ring \<Rightarrow> int list" where
  "ring_view sr =
     (let n = length (sr_counters sr)
      in map (\<lambda>i. sr_counters sr ! ((sr_slot_idx sr + (n - i)) mod n)) [0..<n])"

lemma ring_view_length [simp]: "length (ring_view sr) = length (sr_counters sr)"
  by (simp add: ring_view_def Let_def)

lemma ring_view_nth:
  "i < length (sr_counters sr) \<Longrightarrow>
     ring_view sr ! i = sr_counters sr ! ((sr_slot_idx sr + (length (sr_counters sr) - i)) mod length (sr_counters sr))"
  by (simp add: ring_view_def Let_def)

text \<open>Walking \<open>i\<close> slots back from the current one visits every slot once.\<close>

lemma back_index_inj:
  assumes "(s + (n - i)) mod n = (s + (n - j)) mod n" "i < n" "j < n"
  shows "i = (j :: nat)"
proof (rule ccontr)
  assume "i \<noteq> j"
  have *: False if "(s + (n - i)) mod n = (s + (n - j)) mod n" "i < j" "j < n" for i j
  proof -
    have "(s + (n - j)) mod n = (s + (n - j) + (j - i)) mod n" using that by (simp add: add.assoc)
    then have "n dvd (s + (n - j) + (j - i)) - (s + (n - j))"
      by (metis le_add1 mod_eq_dvd_iff_nat)
    then have "n dvd j - i" by simp
    with that(2,3) show False by (simp add: nat_dvd_not_less)
  qed
  from \<open>i \<noteq> j\<close> * [of i j] * [of j i] assms show False by (metis linorder_neq_iff)
qed

lemma back_index_zero: "s < n \<Longrightarrow> (s + (n - 0)) mod n = (s :: nat)"
  by simp

lemma mset_ring_view:
  assumes "ring_ok n sr"
  shows "mset (ring_view sr) = mset (sr_counters sr)"
proof -
  let ?f = "\<lambda>i. (sr_slot_idx sr + (n - i)) mod n"
  have n: "0 < n" "length (sr_counters sr) = n" using assms by (auto simp: ring_ok_def)
  have inj: "inj_on ?f {0..<n}" unfolding inj_on_def by (metis atLeastLessThan_iff back_index_inj)
  moreover have "?f ` {0..<n} \<subseteq> {0..<n}" using n by auto
  ultimately have "?f ` {0..<n} = {0..<n}" by (intro endo_inj_surj) (rule finite_atLeastLessThan)
  then have "image_mset ?f (mset_set {0..<n}) = mset_set {0..<n}"
    using inj by (simp add: image_mset_mset_set)
  moreover have "mset (ring_view sr) = image_mset (\<lambda>i. sr_counters sr ! i) (image_mset ?f (mset_set {0..<n}))"
    by (simp add: ring_view_def n image_mset.compositionality o_def)
  moreover have "image_mset (\<lambda>i. sr_counters sr ! i) (mset_set {0..<n}) = mset (sr_counters sr)"
    using n by (metis map_nth mset_map mset_upt)
  ultimately show ?thesis by simp
qed

lemma advance_slot_ok: "ring_ok n sr \<Longrightarrow> ring_ok n (advance_slot sr)"
  by (auto simp: ring_ok_def advance_slot_def Let_def)

lemma advance_slot_view:
  assumes "ring_ok n sr"
  shows "ring_view (advance_slot sr) = take n (0 # ring_view sr)"
proof (rule nth_equalityI)
  have n: "0 < n" "length (sr_counters sr) = n" using assms by (auto simp: ring_ok_def)
  then show "length (ring_view (advance_slot sr)) = length (take n (0 # ring_view sr))"
    by (simp add: advance_slot_def Let_def)
  fix i assume "i < length (ring_view (advance_slot sr))"
  then have i: "i < n" using n by (simp add: advance_slot_def Let_def)
  let ?s = "(sr_slot_idx sr + 1) mod n"
  have len: "length (sr_counters (advance_slot sr)) = n" "sr_slot_idx (advance_slot sr) = ?s"
    using n by (simp_all add: advance_slot_def Let_def)
  have "ring_view (advance_slot sr) ! i = (sr_counters sr)[?s := 0] ! ((?s + (n - i)) mod n)"
    using ring_view_nth [of i "advance_slot sr"] i n by (simp add: len) (simp add: advance_slot_def Let_def)
  also have "\<dots> = (0 # ring_view sr) ! i"
  proof (cases i)
    case 0
    have "(?s + (n - 0)) mod n = ?s" by (rule back_index_zero) (simp add: n)
    with 0 n show ?thesis by simp
  next
    case (Suc j)
    have "(?s + (n - i)) mod n \<noteq> ?s"
      using back_index_inj [of ?s n i 0] back_index_zero [of ?s n] i n Suc by auto
    moreover have "(?s + (n - i)) mod n = (sr_slot_idx sr + 1 + (n - i)) mod n" by (rule mod_add_left_eq)
    moreover have "sr_slot_idx sr + 1 + (n - i) = sr_slot_idx sr + (n - j)" using Suc i by simp
    ultimately show ?thesis using Suc i n by (simp add: ring_view_nth)
  qed
  finally show "ring_view (advance_slot sr) ! i = take n (0 # ring_view sr) ! i" using i by simp
qed

lemma advance_slots_ok: "ring_ok n sr \<Longrightarrow> ring_ok n (advance_slots k sr)"
  by (induction k arbitrary: sr) (simp_all add: advance_slot_ok)

lemma advance_slots_view:
  "ring_ok n sr \<Longrightarrow> ring_view (advance_slots k sr) = take n (replicate k 0 @ ring_view sr)"
proof (induction k arbitrary: sr)
  case 0
  then show ?case by (simp add: ring_ok_def)
next
  case (Suc k)
  have "take n (replicate k 0 @ take n (0 # ring_view sr)) = take n (replicate k (0 :: int) @ 0 # ring_view sr)"
    by (simp add: min_def)
  also have "replicate k (0 :: int) @ 0 # ring_view sr = replicate (Suc k) 0 @ ring_view sr"
    by (simp add: replicate_app_Cons_same)
  finally show ?case using Suc by (simp add: advance_slot_ok advance_slot_view)
qed

lemma advance_slots_tick [frame_simps, simp]: "sr_last_tick (advance_slots k sr) = sr_last_tick sr"
  by (induction k arbitrary: sr) (simp_all add: advance_slot_def Let_def)

lemma ring_tick_frame [frame_simps, simp]:
  "ring_view (sr\<lparr>sr_last_tick := t\<rparr>) = ring_view sr" "ring_ok n (sr\<lparr>sr_last_tick := t\<rparr>) = ring_ok n sr"
  by (simp_all add: ring_view_def ring_ok_def)

text \<open>The current slot as an operation on the ring: what \<open>inc\<close> does where it does not panic.\<close>

definition bump :: "slot_ring \<Rightarrow> slot_ring" where
  "bump sr = sr\<lparr>sr_counters := (sr_counters sr)[sr_slot_idx sr := s64 (sr_counters sr ! sr_slot_idx sr + 1)]\<rparr>"

lemma sr_inc_bump: "ring_ok n sr \<Longrightarrow> sr_inc sr = Some (bump sr)"
  by (simp add: sr_inc_def bump_def ring_ok_def)

lemma bump_ok: "ring_ok n sr \<Longrightarrow> ring_ok n (bump sr)"
  by (simp add: ring_ok_def bump_def)

lemma bump_view:
  assumes "ring_ok n sr"
  shows "ring_view (bump sr) = s64 (hd (ring_view sr) + 1) # tl (ring_view sr)"
proof (rule nth_equalityI)
  have n: "0 < n" "length (sr_counters sr) = n" "sr_slot_idx sr < n" using assms by (auto simp: ring_ok_def)
  then have ne: "ring_view sr \<noteq> []" by (metis length_greater_0_conv ring_view_length)
  show "length (ring_view (bump sr)) = length (s64 (hd (ring_view sr) + 1) # tl (ring_view sr))"
    using n by (simp add: bump_def)
  fix i assume "i < length (ring_view (bump sr))"
  then have i: "i < n" using n by (simp add: bump_def)
  have "ring_view (bump sr) ! i = (sr_counters sr)[sr_slot_idx sr := s64 (sr_counters sr ! sr_slot_idx sr + 1)] !
      ((sr_slot_idx sr + (n - i)) mod n)"
    using ring_view_nth [of i "bump sr"] i n by (simp add: bump_def)
  also have "\<dots> = (s64 (hd (ring_view sr) + 1) # tl (ring_view sr)) ! i"
  proof (cases i)
    case 0
    with n ne show ?thesis by (simp add: hd_conv_nth ring_view_nth)
  next
    case (Suc j)
    have "(sr_slot_idx sr + (n - i)) mod n \<noteq> sr_slot_idx sr"
      using back_index_inj [of "sr_slot_idx sr" n i 0] back_index_zero [of "sr_slot_idx sr" n] i n Suc by auto
    with Suc i n show ?thesis by (simp add: nth_tl ring_view_nth)
  qed
  finally show "ring_view (bump sr) ! i = (s64 (hd (ring_view sr) + 1) # tl (ring_view sr)) ! i" .
qed

lemma s64_foldl: "in64 a \<Longrightarrow> foldl (\<lambda>tot v. s64 (tot + v)) a xs = s64 (a + sum_list xs)"
proof (induction xs arbitrary: a)
  case (Cons x xs)
  have "s64 (s64 (a + x) + sum_list xs) = s64 (a + x + sum_list xs)" by (rule s64_add)
  with Cons show ?case by (simp add: add.assoc)
qed (simp add: s64_id)

lemma sr_sum_view: "ring_ok n sr \<Longrightarrow> sr_sum sr = s64 (sum_list (ring_view sr))"
  by (metis (no_types) add_0 in64_numeral(1) mset_ring_view s64_foldl sr_sum_def sum_mset_sum_list)

subsection \<open>What the window counts\<close>

text \<open>
  The interface of a sliding window of \<open>n\<close> counters, and its client: the accesses a window
  counts. \<open>slots\<close> lists the instants counted in each slot, most recent first, and
  \<open>dropped\<close> the instants no longer counted; \<open>lt\<close> is the instant of the last shift. A slot
  is open for less than one interval after a shift, and a shift of \<open>k\<close> slots happens after
  at least \<open>k\<close> and less than \<open>k + 1\<close> intervals, since the remainder of the division is
  thrown away.
\<close>

definition tracked :: "nat \<Rightarrow> duration \<Rightarrow> time \<Rightarrow> int list \<Rightarrow> time list \<Rightarrow> bool" where
  "tracked n ival lt view ts \<longleftrightarrow>
     (\<exists>slots dropped. length slots = n \<and> view = map (int \<circ> length) slots \<and>
        mset (concat slots) + mset dropped = mset ts \<and>
        (\<forall>j < n. \<forall>t \<in> set (slots ! j). (int j - 1) * ival < lt - t \<and> lt - t \<le> 2 * int j * ival) \<and>
        (\<forall>t \<in> set dropped. (int n - 1) * ival < lt - t))"

definition recent :: "duration \<Rightarrow> time \<Rightarrow> time list \<Rightarrow> int" where
  "recent d now ts = int (length (filter (\<lambda>t. now - t < d) ts))"

lemma tracked_nil: "tracked n ival t (replicate n 0) []"
  unfolding tracked_def by (rule exI [of _ "replicate n []"]) (simp add: o_def)

lemma shift_arith:
  fixes J M :: int
  assumes "J - M - I < l - t" "l - t \<le> 2 * J - 2 * M" "M \<le> d" "d < M + I" "1 * I \<le> M"
  shows "J - I < l + d - t \<and> l + d - t \<le> 2 * J"
  using assms by linarith

lemma in_concat_nth: "t \<in> set (concat xss) \<Longrightarrow> \<exists>j < length xss. t \<in> set (xss ! j)"
  by (metis UN_E in_set_conv_nth set_concat)

lemma tracked_shift:
  assumes "tracked n ival lt view ts" "1 \<le> e" "e * ival \<le> d" "d < (e + 1) * ival" "0 < ival"
    and "k = min e (int n)"
  shows "tracked n ival (lt + d) (take n (replicate (nat k) 0 @ view)) ts"
proof -
  from assms(1) obtain slots dropped where tr: "length slots = n" "view = map (int \<circ> length) slots"
    "mset (concat slots) + mset dropped = mset ts"
    "\<And>j t. j < n \<Longrightarrow> t \<in> set (slots ! j) \<Longrightarrow> (int j - 1) * ival < lt - t \<and> lt - t \<le> 2 * int j * ival"
    "\<And>t. t \<in> set dropped \<Longrightarrow> (int n - 1) * ival < lt - t"
    unfolding tracked_def by blast
  have "0 \<le> k" "k \<le> int n" using assms(2,6) by auto
  then obtain m where m: "k = int m" "m \<le> n" by (metis int_eq_iff nat_le_iff zle_int)
  let ?slots = "replicate m [] @ take (n - m) slots"
  let ?dropped = "concat (drop (n - m) slots) @ dropped"
  have "take n (replicate (nat k) 0 @ view) = map (int \<circ> length) ?slots"
    using m tr(1,2) by (simp add: take_map)
  moreover have "length ?slots = n" using m tr(1) by simp
  moreover have "mset (concat ?slots) + mset ?dropped = mset ts"
  proof -
    have "mset (concat slots) = mset (concat (take (n - m) slots)) + mset (concat (drop (n - m) slots))"
      by (metis append_take_drop_id concat_append mset_append)
    with tr(3) show ?thesis by (simp add: ac_simps)
  qed
  moreover have "(int j - 1) * ival < lt + d - t \<and> lt + d - t \<le> 2 * int j * ival"
    if "j < n" "t \<in> set (?slots ! j)" for j t
  proof -
    have j: "m \<le> j" "t \<in> set (slots ! (j - m))" using that m tr(1)
      by (auto simp: nth_append split: if_splits)
    have e: "e = int m" using m j that(1) assms(6) by auto
    from tr(4) [OF _ j(2)] that(1) have "(int j - int m - 1) * ival < lt - t \<and> lt - t \<le> 2 * (int j - int m) * ival"
      using j(1) by (simp add: of_nat_diff)
    then have "int j * ival - int m * ival - ival < lt - t" "lt - t \<le> 2 * (int j * ival) - 2 * (int m * ival)"
      by (simp_all add: algebra_simps)
    moreover have "int m * ival \<le> d" "d < int m * ival + ival" using assms(3,4) e by (simp_all add: algebra_simps)
    moreover have "1 * ival \<le> int m * ival" using assms(2,5) e by (intro mult_right_mono) auto
    ultimately have "int j * ival - ival < lt + d - t \<and> lt + d - t \<le> 2 * (int j * ival)"
      by (rule shift_arith)
    then show ?thesis by (simp add: algebra_simps)
  qed
  moreover have "(int n - 1) * ival < lt + d - t" if t: "t \<in> set ?dropped" for t
  proof (cases "t \<in> set dropped")
    case True
    moreover have "0 \<le> d" using assms(2,3,5) by (meson dual_order.trans mult_nonneg_nonneg zero_le_one order_less_imp_le)
    ultimately show ?thesis using tr(5) [of t] by simp
  next
    case False
    with t have "t \<in> set (concat (drop (n - m) slots))" by simp
    from in_concat_nth [OF this] obtain i where i: "i < n - (n - m)" "t \<in> set (drop (n - m) slots ! i)"
      using tr(1) by auto
    define j where "j = n - m + i"
    have j: "n - m \<le> j" "j < n" "t \<in> set (slots ! j)" using i tr(1) by (auto simp: j_def)
    have "(int n - int m) * ival \<le> int j * ival" using j(1) m(2) assms(5) by (intro mult_right_mono) auto
    moreover have "int m * ival \<le> d" using assms(3,5,6) m(1) by (metis min.cobounded1 mult_right_mono order_trans order_less_imp_le)
    ultimately show ?thesis using tr(4) [OF j(2,3)] by (simp add: algebra_simps)
  qed
  ultimately show ?thesis unfolding tracked_def by blast
qed

lemma tracked_hit:
  assumes "tracked n ival lt view ts" "0 < n" "lt \<le> now" "now - lt < ival"
  shows "tracked n ival lt ((hd view + 1) # tl view) (ts @ [now])"
proof -
  from assms(1) obtain slots dropped where tr: "length slots = n" "view = map (int \<circ> length) slots"
    "mset (concat slots) + mset dropped = mset ts"
    "\<And>j t. j < n \<Longrightarrow> t \<in> set (slots ! j) \<Longrightarrow> (int j - 1) * ival < lt - t \<and> lt - t \<le> 2 * int j * ival"
    "\<And>t. t \<in> set dropped \<Longrightarrow> (int n - 1) * ival < lt - t"
    unfolding tracked_def by blast
  obtain x xs where x: "slots = x # xs" using tr(1) assms(2) by (cases slots) auto
  have "(int j - 1) * ival < lt - t \<and> lt - t \<le> 2 * int j * ival"
    if "j < n" "t \<in> set (((now # x) # xs) ! j)" for j t
    using tr(4) [of j t] that assms(3,4) x by (cases j) auto
  moreover have "mset (concat ((now # x) # xs)) + mset dropped = mset (ts @ [now])"
    using tr(3) x by simp
  moreover have "(hd view + 1) # tl view = map (int \<circ> length) ((now # x) # xs)" using tr(2) x by simp
  moreover have "length ((now # x) # xs) = n" using tr(1) x by simp
  ultimately show ?thesis unfolding tracked_def
    by (intro exI [of _ "(now # x) # xs"] exI [of _ dropped] conjI allI impI ballI tr(5)) blast+
qed

lemma length_filter_mset: "length (filter P xs) = size (filter_mset P (mset xs))"
  by (metis mset_filter size_mset)

lemma filter_mset_all: "(\<And>x. x \<in># M \<Longrightarrow> P x) \<Longrightarrow> filter_mset P M = M"
  by (simp add: filter_mset_eq_conv)

lemma filter_mset_none: "(\<And>x. x \<in># M \<Longrightarrow> \<not> P x) \<Longrightarrow> filter_mset P M = {#}"
  by (simp add: filter_mset_eq_conv)

lemma tracked_sum:
  assumes "tracked n ival lt view ts" "lt \<le> now" "now - lt < ival" "0 < ival"
  shows "recent ((int n - 1) * ival) now ts \<le> sum_list view \<and>
    sum_list view \<le> recent ((2 * int n - 1) * ival) now ts \<and> 0 \<le> sum_list view \<and> sum_list view \<le> int (length ts)"
proof -
  from assms(1) obtain slots dropped where tr: "length slots = n" "view = map (int \<circ> length) slots"
    "mset (concat slots) + mset dropped = mset ts"
    "\<And>j t. j < n \<Longrightarrow> t \<in> set (slots ! j) \<Longrightarrow> (int j - 1) * ival < lt - t \<and> lt - t \<le> 2 * int j * ival"
    "\<And>t. t \<in> set dropped \<Longrightarrow> (int n - 1) * ival < lt - t"
    unfolding tracked_def by blast
  have s: "sum_list view = int (length (concat slots))"
    unfolding tr(2) by (induction slots) simp_all
  have "now - t < (2 * int n - 1) * ival" if t: "t \<in> set (concat slots)" for t
  proof -
    from in_concat_nth [OF t] tr(1) obtain j where j: "j < n" "t \<in> set (slots ! j)" by blast
    have "2 * int j * ival \<le> 2 * (int n - 1) * ival" using j(1) assms(4) by (intro mult_right_mono) auto
    with tr(4) [OF j] assms(2,3) show ?thesis by (simp add: algebra_simps)
  qed
  then have "filter_mset (\<lambda>t. now - t < (2 * int n - 1) * ival) (mset (concat slots)) = mset (concat slots)"
    by (intro filter_mset_all) simp
  then have "length (concat slots) \<le> length (filter (\<lambda>t. now - t < (2 * int n - 1) * ival) ts)"
    by (simp add: length_filter_mset flip: tr(3))
  moreover have "filter_mset (\<lambda>t. now - t < (int n - 1) * ival) (mset dropped) = {#}"
    by (rule filter_mset_none) (use tr(5) assms(2) in fastforce)
  then have "length (filter (\<lambda>t. now - t < (int n - 1) * ival) ts) =
      size {#t \<in># mset (concat slots). now - t < (int n - 1) * ival#}"
    unfolding length_filter_mset tr(3) [symmetric] filter_union_mset by simp
  moreover have "size {#t \<in># mset (concat slots). now - t < (int n - 1) * ival#} \<le> size (mset (concat slots))"
    by (rule size_filter_mset_lesseq)
  then have "size {#t \<in># mset (concat slots). now - t < (int n - 1) * ival#} \<le> length (concat slots)"
    unfolding size_mset .
  moreover have "length (concat slots) \<le> length ts"
    by (metis le_add1 size_mset size_union tr(3))
  ultimately show ?thesis by (simp add: s recent_def)
qed

locale sliding_window =
  fixes view :: "'r \<Rightarrow> int list" and okr :: "nat \<Rightarrow> 'r \<Rightarrow> bool"
    and adv :: "nat \<Rightarrow> 'r \<Rightarrow> 'r" and hit :: "'r \<Rightarrow> 'r" and tot :: "'r \<Rightarrow> int"
  assumes view_len: "okr n r \<Longrightarrow> 0 < n \<and> length (view r) = n"
    and adv_ok: "okr n r \<Longrightarrow> okr n (adv k r)"
    and adv_view: "okr n r \<Longrightarrow> view (adv k r) = take n (replicate k 0 @ view r)"
    and hit_ok: "okr n r \<Longrightarrow> okr n (hit r)"
    and hit_view: "okr n r \<Longrightarrow> view (hit r) = s64 (hd (view r) + 1) # tl (view r)"
    and tot_view: "okr n r \<Longrightarrow> tot r = s64 (sum_list (view r))"
begin

lemma hit_tracked:
  assumes "okr n r" "tracked n ival lt (view r) ts" "lt \<le> now" "now - lt < ival"
    and "int (length ts) < 2 ^ 63 - 1"
  shows "tracked n ival lt (view (hit r)) (ts @ [now])"
proof -
  have "view r \<noteq> []" using view_len [OF assms(1)] by auto
  then have "sum_list (view r) = hd (view r) + sum_list (tl (view r))" by (cases "view r") simp_all
  moreover have nonneg: "\<forall>v \<in> set (view r). 0 \<le> v" using assms(2) by (auto simp: tracked_def)
  then have "0 \<le> sum_list (tl (view r))" "0 \<le> hd (view r)"
    using \<open>view r \<noteq> []\<close> by (cases "view r"; auto intro: sum_list_nonneg)+
  moreover have "sum_list (view r) \<le> int (length ts)"
    using tracked_sum [OF assms(2), of lt] assms(3,4) by simp
  ultimately have "s64 (hd (view r) + 1) = hd (view r) + 1"
    using assms(5) by (simp add: s64_id in64_def)
  then show ?thesis
    using tracked_hit [OF assms(2) _ assms(3,4)] view_len [OF assms(1)] hit_view [OF assms(1)] by simp
qed

lemma adv_tracked:
  assumes "okr n r" "tracked n ival lt (view r) ts" "0 < ival" "lt \<le> now" "0 < (now - lt) div ival"
  shows "tracked n ival now (view (adv (nat (min ((now - lt) div ival) (int n))) r)) ts"
proof -
  define d where "d = now - lt"
  have "d div ival * ival \<le> d" "d < (d div ival + 1) * ival"
    using pos_mod_sign [OF assms(3), of d] pos_mod_bound [OF assms(3), of d] div_mult_mod_eq [of d ival]
    unfolding distrib_right by linarith+
  from tracked_shift [OF assms(2) _ this assms(3) refl] assms(5)
  have "tracked n ival (lt + d) (take n (replicate (nat (min (d div ival) (int n))) 0 @ view r)) ts"
    by (simp add: d_def)
  then show ?thesis by (simp add: adv_view [OF assms(1)] d_def)
qed

lemma tot_bounds:
  assumes "okr n r" "tracked n ival lt (view r) ts" "lt \<le> now" "now - lt < ival" "0 < ival"
    and "int (length ts) < 2 ^ 63"
  shows "recent ((int n - 1) * ival) now ts \<le> tot r \<and> tot r \<le> recent ((2 * int n - 1) * ival) now ts"
proof -
  have b: "recent ((int n - 1) * ival) now ts \<le> sum_list (view r) \<and>
    sum_list (view r) \<le> recent ((2 * int n - 1) * ival) now ts \<and> 0 \<le> sum_list (view r) \<and>
    sum_list (view r) \<le> int (length ts)" by (rule tracked_sum [OF assms(2-5)])
  with assms(6) have "s64 (sum_list (view r)) = sum_list (view r)" by (simp add: s64_id in64_def)
  with b show ?thesis by (simp add: tot_view [OF assms(1)])
qed

end

interpretation ringw: sliding_window ring_view ring_ok advance_slots bump sr_sum
proof
  show "ring_ok n r \<Longrightarrow> 0 < n \<and> length (ring_view r) = n" for n r by (auto simp: ring_ok_def)
qed (simp_all add: advance_slots_ok advance_slots_view bump_ok bump_view sr_sum_view)

subsection \<open>Runs of the detector\<close>

datatype hk_event = HkAccess string time | HkTick time

text \<open>\<open>None\<close> is the state after a panic.\<close>

fun hk_step :: "detector option \<Rightarrow> hk_event \<Rightarrow> detector option" where
  "hk_step None e = None"
| "hk_step (Some h) (HkAccess key now) = map_option snd (record_access key now h)"
| "hk_step (Some h) (HkTick now) = Some (fst (cleanup_iter (TickSignal now) h))"

definition hk_inv :: "detector \<Rightarrow> bool" where
  "hk_inv h \<longleftrightarrow> 0 < hk_slots h \<and> quot (hk_window_size h) (hk_slots h) \<noteq> 0 \<and>
     (\<forall>sr \<in> ran (hk_counters h). ring_ok (nat (hk_slots h)) sr) \<and> hk_hot_keys h \<subseteq> dom (hk_counters h)"

lemma sr_advance_ok:
  assumes "ring_ok n sr" "ival \<noteq> 0"
  shows "\<exists>sr'. sr_advance ival now sr = Some sr' \<and> ring_ok n sr'"
  using assms by (auto simp: sr_advance_def go_div_def advance_slots_ok Let_def)

lemma find_ring_ok: "hk_inv h \<Longrightarrow> \<exists>sr. find_ring key now h = Some sr \<and> ring_ok (nat (hk_slots h)) sr"
  by (auto simp: hk_inv_def find_ring_def new_slot_ring_def ring_ok_def split: option.split intro: ranI)

lemma record_access_inv:
  assumes "hk_inv h"
  shows "\<exists>hot h'. record_access key now h = Some (hot, h') \<and> hk_inv h'"
proof -
  define n where "n = nat (hk_slots h)"
  obtain sr where 1: "find_ring key now h = Some sr" "ring_ok n sr"
    using find_ring_ok [OF assms] unfolding n_def by blast
  obtain sr1 where 2: "sr_advance (quot (hk_window_size h) (hk_slots h)) now sr = Some sr1" "ring_ok n sr1"
    using sr_advance_ok [OF 1(2)] assms unfolding hk_inv_def by blast
  have 3: "ring_ok n (bump sr1)" "sr_inc sr1 = Some (bump sr1)"
    using 2(2) by (simp_all add: bump_ok sr_inc_bump)
  have "\<forall>sr \<in> ran ((hk_counters h)(key \<mapsto> bump sr1)). ring_ok n sr"
    using assms 3(1) by (auto simp: hk_inv_def n_def ran_def)
  with 1 2 3 assms show ?thesis
    by (auto simp: record_access_def go_div_def hk_inv_def Let_def n_def)
qed

lemma cleanup_inv: "hk_inv h \<Longrightarrow> hk_inv (cleanup h)"
  by (auto simp: hk_inv_def cleanup_def cleanup_delete_def ran_def split: if_splits)

lemma hk_step_inv: "\<exists>h. s = Some h \<and> hk_inv h \<Longrightarrow> \<exists>h. hk_step s e = Some h \<and> hk_inv h"
  using record_access_inv by (cases e) (fastforce simp: cleanup_inv)+

interpretation hkm: machine hk_step "\<lambda>_ _. True" "\<lambda>s. \<exists>h. s = Some h \<and> hk_inv h"
  by unfold_locales (rule hk_step_inv)

text \<open>The configurations whose accesses panic.\<close>

definition detector_ok :: "int \<Rightarrow> int \<Rightarrow> bool" where
  "detector_ok window_seconds slots \<longleftrightarrow> 0 < slots \<and> quot (s64 (window_seconds * second)) slots \<noteq> 0"

lemma hk_run_none: "run hk_step None es = None"
  by (induction es) simp_all

lemma new_detector_inv: "detector_ok w n \<Longrightarrow> hk_inv (new_detector w n thr)"
  by (simp add: hk_inv_def detector_ok_def new_detector_def)

lemma new_detector_panics:
  assumes "\<not> detector_ok w n"
  shows "record_access key now (new_detector w n thr) = None"
proof -
  consider "n = 0" | "n < 0" | "0 < n" "quot (s64 (w * second)) n = 0" using assms by (force simp: detector_ok_def)
  then show ?thesis
    by cases (simp_all add: record_access_def new_detector_def go_div_def find_ring_def new_slot_ring_def sr_advance_def)
qed

lemma new_detector_ticks: "fst (cleanup_iter (TickSignal now) (new_detector w n thr)) = new_detector w n thr"
  by (simp add: new_detector_def cleanup_def cleanup_delete_def low_count_def fun_eq_iff)

text \<open>
  A run of the detector panics exactly when it contains an access and the configuration has no
  positive slot count or a zero slot interval.
\<close>

theorem detector_panics_iff:
  "run hk_step (Some (new_detector w n thr)) es = None \<longleftrightarrow>
     \<not> detector_ok w n \<and> (\<exists>key now. HkAccess key now \<in> set es)"
proof (cases "detector_ok w n")
  case True
  then have "\<exists>h. run hk_step (Some (new_detector w n thr)) es = Some h \<and> hk_inv h"
    using hkm.run_inv [of "Some (new_detector w n thr)" es] new_detector_inv by simp
  with True show ?thesis by auto
next
  case False
  then show ?thesis
  proof (induction es)
    case (Cons e es)
    then show ?case
      by (cases e) (auto simp: new_detector_panics hk_run_none new_detector_ticks simp del: cleanup_iter.simps)
  qed simp
qed

text \<open>
  The accesses of one key in a run, and the invariant that relates the key's ring to them.
\<close>

definition accesses_of :: "string \<Rightarrow> (string \<times> time) list \<Rightarrow> time list" where
  "accesses_of key es = map snd (filter (\<lambda>(k, t). k = key) es)"

definition hk_access_events :: "(string \<times> time) list \<Rightarrow> hk_event list" where
  "hk_access_events es = map (\<lambda>(k, t). HkAccess k t) es"

definition key_tracked :: "nat \<Rightarrow> duration \<Rightarrow> time \<Rightarrow> detector \<Rightarrow> string \<Rightarrow> time list \<Rightarrow> bool" where
  "key_tracked n ival now h key ts \<longleftrightarrow>
     hk_slots h = int n \<and> 0 < n \<and> quot (hk_window_size h) (hk_slots h) = ival \<and> 0 < ival \<and>
     (case hk_counters h key of
        None \<Rightarrow> ts = []
      | Some sr \<Rightarrow> ring_ok n sr \<and> tracked n ival (sr_last_tick sr) (ring_view sr) ts \<and>
          0 \<le> sr_last_tick sr \<and> sr_last_tick sr \<le> now)"

lemma record_access_tracked:
  assumes "key_tracked n ival t0 h key ts" "0 \<le> t0" "t0 \<le> now" "now < 2 ^ 63"
    and "int (length ts) < 2 ^ 63 - 1"
  shows "\<exists>hot h'. record_access key now h = Some (hot, h') \<and> key_tracked n ival now h' key (ts @ [now]) \<and>
    hk_threshold h' = hk_threshold h \<and>
    (hk_threshold h < recent ((int n - 1) * ival) now (ts @ [now]) \<longrightarrow> hot) \<and>
    (hot \<longrightarrow> hk_threshold h < recent ((2 * int n - 1) * ival) now (ts @ [now])) \<and>
    (\<forall>key'. key' \<noteq> key \<longrightarrow> hk_counters h' key' = hk_counters h key')"
proof -
  have n: "hk_slots h = int n" "0 < n" "quot (hk_window_size h) (hk_slots h) = ival" "0 < ival"
    using assms(1) unfolding key_tracked_def by blast+
  obtain sr where sr: "find_ring key now h = Some sr" "ring_ok n sr"
    "tracked n ival (sr_last_tick sr) (ring_view sr) ts" "0 \<le> sr_last_tick sr" "sr_last_tick sr \<le> now"
  proof (cases "hk_counters h key")
    case None
    with assms(1-3) n have "find_ring key now h = Some \<lparr>sr_counters = replicate n 0, sr_slot_idx = 0, sr_last_tick = now\<rparr>"
      by (simp add: find_ring_def new_slot_ring_def)
    moreover have "ring_view \<lparr>sr_counters = replicate n 0, sr_slot_idx = 0, sr_last_tick = now\<rparr> = replicate n 0"
      using n(2) by (auto intro!: nth_equalityI simp: ring_view_nth)
    ultimately show ?thesis using None assms(1-3) n tracked_nil [of n ival now]
      by (intro that) (auto simp: key_tracked_def ring_ok_def)
  next
    case (Some sr)
    with assms(1,3) show ?thesis by (intro that) (auto simp: key_tracked_def find_ring_def)
  qed
  define lt where "lt = sr_last_tick sr"
  define k where "k = (now - lt) div ival"
  define sr1 where "sr1 = (if k \<le> 0 then sr else (advance_slots (nat (min k (int n))) sr)\<lparr>sr_last_tick := now\<rparr>)"
  have "time_sub now lt = now - lt" using sr(4,5) assms(4) by (simp add: lt_def time_sub_exact in64_def)
  then have adv: "sr_advance ival now sr = Some sr1"
    using sr(2,5) n(4) by (simp add: sr_advance_def lt_def [symmetric] go_div_pos k_def [symmetric] sr1_def Let_def
        ring_ok_def min_def)
  have ok1: "ring_ok n sr1" using sr(2) by (simp add: sr1_def advance_slots_ok)
  have tr1: "tracked n ival (sr_last_tick sr1) (ring_view sr1) ts \<and> 0 \<le> sr_last_tick sr1 \<and>
      sr_last_tick sr1 \<le> now \<and> now - sr_last_tick sr1 < ival"
  proof (cases "k \<le> 0")
    case True
    then have "now - lt < ival" using n(4) sr(5)
      by (metis k_def lt_def diff_ge_0_iff_ge linorder_not_le pos_imp_zdiv_pos_iff)
    with True sr show ?thesis by (simp add: sr1_def lt_def)
  next
    case False
    with ringw.adv_tracked [OF sr(2,3) n(4) sr(5)] sr(4,5) n(4) show ?thesis by (simp add: sr1_def k_def lt_def)
  qed
  let ?sr2 = "bump sr1"
  have ok2: "ring_ok n ?sr2" "sr_inc sr1 = Some ?sr2" "sr_last_tick ?sr2 = sr_last_tick sr1"
    using ok1 by (simp_all add: bump_ok sr_inc_bump) (simp add: bump_def)
  have tr2: "tracked n ival (sr_last_tick ?sr2) (ring_view ?sr2) (ts @ [now])"
    using ringw.hit_tracked [OF ok1] tr1 assms(5) ok2(3) by simp
  have "recent ((int n - 1) * ival) now (ts @ [now]) \<le> sr_sum ?sr2 \<and>
      sr_sum ?sr2 \<le> recent ((2 * int n - 1) * ival) now (ts @ [now])"
    by (rule ringw.tot_bounds [OF ok2(1) tr2]) (use tr1 ok2(3) n(4) assms(5) in auto)
  with sr(1) adv ok2 tr1 tr2 n show ?thesis
    by (auto simp: record_access_def go_div_def key_tracked_def Let_def)
qed

text \<open>An access or a run of accesses, seen from one key.\<close>

lemma access_run_tracked:
  assumes "sorted (t0 # map snd es)" "0 \<le> t0" "\<forall>(k, t) \<in> set es. t < 2 ^ 63"
    and "\<And>key. key_tracked n ival t0 h key (ts key)" "\<And>key. int (length (ts key) + length es) < 2 ^ 63 - 1"
  shows "\<exists>h'. run hk_step (Some h) (hk_access_events es) = Some h' \<and> hk_threshold h' = hk_threshold h \<and>
    (\<forall>key. key_tracked n ival (List.last (t0 # map snd es)) h' key (ts key @ accesses_of key es))"
  using assms
proof (induction es arbitrary: h t0 ts)
  case Nil
  then show ?case by (simp add: hk_access_events_def accesses_of_def)
next
  case (Cons e es)
  obtain key t where e: "e = (key, t)" by (cases e)
  have "t0 \<le> t" "t < 2 ^ 63" "0 \<le> t" using Cons.prems(1-3) e by auto
  moreover have "int (length (ts key)) < 2 ^ 63 - 1" using Cons.prems(5) [of key] by simp
  ultimately obtain hot h1 where h1: "record_access key t h = Some (hot, h1)"
    "key_tracked n ival t h1 key (ts key @ [t])" "hk_threshold h1 = hk_threshold h"
    "\<And>key'. key' \<noteq> key \<Longrightarrow> hk_counters h1 key' = hk_counters h key'"
    using record_access_tracked [OF Cons.prems(4) [of key] Cons.prems(2)] by blast
  define ts1 where "ts1 k = (if k = key then ts k @ [t] else ts k)" for k
  have tr1: "key_tracked n ival t h1 k (ts1 k)" for k
  proof (cases "k = key")
    case True
    then show ?thesis using h1(2) by (simp add: ts1_def)
  next
    case False
    with Cons.prems(4) [of k] h1(2) h1(4) [OF False] \<open>t0 \<le> t\<close> show ?thesis
      by (auto simp: ts1_def key_tracked_def split: option.splits)
  qed
  have len: "int (length (ts1 k) + length es) < 2 ^ 63 - 1" for k using Cons.prems(5) [of k] by (auto simp: ts1_def)
  have "sorted (t # map snd es)" "\<forall>(k, t) \<in> set es. t < 2 ^ 63" using Cons.prems(1,3) e by auto
  from Cons.IH [OF this(1) \<open>0 \<le> t\<close> this(2) tr1 len]
  obtain h' where "run hk_step (Some h1) (hk_access_events es) = Some h'" "hk_threshold h' = hk_threshold h1"
    "\<forall>k. key_tracked n ival (List.last (t # map snd es)) h' k (ts1 k @ accesses_of k es)" by blast
  moreover have "ts1 k @ accesses_of k es = ts k @ accesses_of k (e # es)" for k
    by (simp add: ts1_def accesses_of_def e)
  moreover have "run hk_step (Some h) (hk_access_events (e # es)) = run hk_step (Some h1) (hk_access_events es)"
    using h1(1) by (simp add: hk_access_events_def e)
  moreover have "List.last (t0 # map snd (e # es)) = List.last (t # map snd es)" by (simp add: e)
  ultimately show ?case using h1(3) by (simp only:) blast
qed

text \<open>
  C16: For a detector with at least one slot and a positive slot interval, after any run of accesses
  (fewer than 2^63 - 1) in the order of their times (from 0 to 2^63 ns), RecordAccess flags a key
  as hot when more than threshold accesses of it fall in the last n - 1 slot intervals, and only
  if more than threshold fall in the last 2n - 1: the window is between (n-1)/n and almost twice
  the configured size, because a shift throws the remainder of the interval away.
\<close>

theorem detector_counts_window:
  assumes "0 < n" "0 < ival" "quot (s64 (w * second)) (int n) = ival"
    and "sorted (map snd es @ [now])" "\<forall>(k, t) \<in> set es. 0 \<le> t" "0 \<le> now" "now < 2 ^ 63"
    and "int (length es) < 2 ^ 63 - 1"
  shows "\<exists>h hot h'. run hk_step (Some (new_detector w (int n) thr)) (hk_access_events es) = Some h \<and>
    record_access key now h = Some (hot, h') \<and>
    (thr < recent ((int n - 1) * ival) now (accesses_of key es @ [now]) \<longrightarrow> hot) \<and>
    (hot \<longrightarrow> thr < recent ((2 * int n - 1) * ival) now (accesses_of key es @ [now]))"
proof -
  have lt: "\<forall>(k, t) \<in> set es. t < 2 ^ 63" using assms(4,7) by (force simp: sorted_append)
  have "key_tracked n ival 0 (new_detector w (int n) thr) k []" for k
    using assms(1-3) by (simp add: key_tracked_def new_detector_def)
  moreover have "sorted (0 # map snd es)" using assms(4,5) by (auto simp: sorted_append)
  ultimately obtain h where h: "run hk_step (Some (new_detector w (int n) thr)) (hk_access_events es) = Some h"
    "hk_threshold h = thr" "\<And>k. key_tracked n ival (List.last (0 # map snd es)) h k (accesses_of k es)"
    using access_run_tracked [OF _ _ lt, of 0 n ival "new_detector w (int n) thr" "\<lambda>_. []"] assms(8)
    by (auto simp: new_detector_def)
  have "List.last (0 # map snd es) \<in> set (0 # map snd es)" by (rule last_in_set) simp
  then have "0 \<le> List.last (0 # map snd es)" "List.last (0 # map snd es) \<le> now"
    using assms(4-6) by (auto simp: sorted_append)
  moreover have "int (length (accesses_of key es)) < 2 ^ 63 - 1"
    using assms(8) le_less_trans [OF length_filter_le [of "\<lambda>(k, t). k = key" es], of "2 ^ 63 - 1"]
    by (simp add: accesses_of_def)
  ultimately show ?thesis
    using record_access_tracked [OF h(3) _ _ assms(7)] h(1,2) by blast
qed

theorem detector_counts_window_witness:
  "\<exists>h hot h'. run hk_step (Some (new_detector 10 10 1)) [HkAccess ''a'' 0, HkAccess ''b'' 3] = Some h \<and>
     record_access ''a'' 5 h = Some (hot, h') \<and> hot"
  using detector_counts_window [of 10 1000000000 10 "[(''a'', 0), (''b'', 3)]" 5 1 "''a''"]
  by (simp add: second_def s64_def quot_def hk_access_events_def accesses_of_def recent_def)

text \<open>
  The cleanup judges a key by its counters as the last access left them: nothing ages them
  in between. A hot key that is never accessed again stays hot through every cleanup.
\<close>

lemma hk_other_access:
  "key' \<noteq> key \<Longrightarrow> record_access key' now h = Some (hot, h') \<Longrightarrow>
     hk_counters h' key = hk_counters h key \<and> (key \<in> hk_hot_keys h' \<longleftrightarrow> key \<in> hk_hot_keys h) \<and>
     hk_threshold h' = hk_threshold h"
  by (auto simp: record_access_def Let_def split: option.splits if_splits)

lemma hk_step_frame:
  assumes "\<forall>now. e \<noteq> HkAccess key now" "hk_step (Some h) e = Some h'"
    and "hk_counters h key = Some sr" "quot (hk_threshold h) 10 < sr_sum sr"
  shows "hk_counters h' key = Some sr \<and> (is_hot key h' \<longleftrightarrow> is_hot key h) \<and> hk_threshold h' = hk_threshold h"
proof (cases e)
  case (HkAccess k now)
  with assms hk_other_access [of k key now h] show ?thesis by (auto simp: is_hot_def)
next
  case (HkTick now)
  with assms show ?thesis by (auto simp: is_hot_def cleanup_def cleanup_delete_def low_count_def)
qed

text \<open>
  A hot key whose counters are above a tenth of the threshold and that is never accessed again
  stays hot through any number of cleanups and accesses of other keys: cleanup does not age the
  counters.
\<close>

theorem hot_key_never_cools:
  assumes "hk_inv h" "is_hot key h" "hk_counters h key = Some sr" "quot (hk_threshold h) 10 < sr_sum sr"
    and "\<forall>now. HkAccess key now \<notin> set es"
  shows "\<exists>h'. run hk_step (Some h) es = Some h' \<and> is_hot key h' \<and> hk_counters h' key = Some sr"
  using assms
proof (induction es arbitrary: h)
  case (Cons e es)
  obtain h1 where h1: "hk_step (Some h) e = Some h1" "hk_inv h1" using hk_step_inv Cons.prems(1) by blast
  have "hk_counters h1 key = Some sr \<and> (is_hot key h1 \<longleftrightarrow> is_hot key h) \<and> hk_threshold h1 = hk_threshold h"
    by (rule hk_step_frame [OF _ h1(1)]) (use Cons.prems in auto)
  with Cons.IH [OF h1(2)] Cons.prems h1(1) show ?case by auto
qed simp

theorem hot_key_never_cools_witness:
  "\<exists>h'. run hk_step (Some ((new_detector 10 1 1)
       \<lparr>hk_counters := [''a'' \<mapsto> \<lparr>sr_counters = [2], sr_slot_idx = 0, sr_last_tick = 0\<rparr>], hk_hot_keys := {''a''}\<rparr>))
     (replicate 100 (HkTick (86400 * second))) = Some h' \<and> is_hot ''a'' h'"
proof -
  let ?sr = "\<lparr>sr_counters = [2], sr_slot_idx = 0, sr_last_tick = 0\<rparr>"
  let ?h = "(new_detector 10 1 1)\<lparr>hk_counters := [''a'' \<mapsto> ?sr], hk_hot_keys := {''a''}\<rparr>"
  have "hk_inv ?h" by (simp add: hk_inv_def new_detector_def ring_ok_def second_def s64_def quot_def)
  moreover have "quot (hk_threshold ?h) 10 < sr_sum ?sr"
    by (simp add: new_detector_def quot_def sr_sum_def s64_def)
  ultimately show ?thesis
    using hot_key_never_cools [of ?h "''a''" ?sr "replicate 100 (HkTick (86400 * second))"]
    by (auto simp: is_hot_def)
qed

end
