(* ===== verification/Config.thy ===== *)
theory Config
  imports Float64
begin

section \<open>Configuration and jittered expiry times (internal/config/config.go)\<close>

text \<open>
  The configuration structs, the defaults, \<open>Load\<close>, and the expiry times the cache uses.
  \<open>JitterDuration\<close> computes in \<open>float64\<close>; its eight random bytes are an argument. Reading
  the file and decoding YAML onto the defaults are arguments of \<open>load_config\<close>.
\<close>

record server_config =
  sc_port :: int
  sc_mode :: string

record l1_cache_config =
  l1c_max_entries :: int
  l1c_ttl_seconds :: int
  l1c_refresh_seconds :: int

record l2_cache_config =
  l2c_addresses :: "string list"
  l2c_password :: string
  l2c_pool_size :: int
  l2c_min_idle :: int
  l2c_dial_timeout_ms :: int
  l2c_read_timeout_ms :: int
  l2c_ttl_seconds :: int

record cache_config =
  cc_l1 :: l1_cache_config
  cc_l2 :: l2_cache_config
  cc_jitter_percent :: f64
  cc_null_ttl_seconds :: int

record database_config =
  dbc_enabled :: bool
  dbc_driver :: string
  dbc_dsn :: string
  dbc_replica_dsns :: "string list"
  dbc_max_open_conns :: int
  dbc_max_idle_conns :: int
  dbc_conn_max_lifetime_secs :: int

record mongo_config =
  mgc_enabled :: bool
  mgc_uri :: string
  mgc_username :: string
  mgc_password :: string
  mgc_database :: string
  mgc_max_pool_size :: nat
  mgc_min_pool_size :: nat
  mgc_connect_timeout_seconds :: int
  mgc_read_preference :: string

record es_config =
  esc_enabled :: bool
  esc_addresses :: "string list"
  esc_username :: string
  esc_password :: string

record multi_database_config =
  mdc_mysql :: database_config
  mdc_postgres :: database_config
  mdc_mongodb :: mongo_config
  mdc_elasticsearch :: es_config

record producer_config =
  pc_topic :: string
  pc_acks :: string
  pc_compression :: string
  pc_batch_size :: int
  pc_linger_ms :: int
  pc_max_retries :: int
  pc_idempotent :: bool

record consumer_config =
  csc_group_id :: string
  csc_topic :: string
  csc_dlq_topic :: string
  csc_max_retries :: int
  csc_rate_limit :: int
  csc_concurrency :: int
  csc_min_bytes :: int
  csc_max_bytes :: int
  csc_start_from_latest :: bool

record kafka_config =
  kc_brokers :: "string list"
  kc_producer :: producer_config
  kc_consumer :: consumer_config

record circuit_breaker_config =
  cbc_max_requests :: int
  cbc_interval_seconds :: int
  cbc_timeout_seconds :: int
  cbc_failure_threshold :: f64
  cbc_slow_call_threshold_ms :: int

record rate_limiter_config =
  rlc_bucket_capacity :: int
  rlc_refill_rate :: int

record hot_key_config =
  hkc_window_seconds :: int
  hkc_slots :: int
  hkc_threshold :: int

record trace_config =
  tc_enabled :: bool
  tc_exporter :: string

record observability_config =
  obc_trace :: trace_config
  obc_metrics_enabled :: bool

record logging_config =
  lgc_level :: string
  lgc_format :: string
  lgc_output :: string
  lgc_max_size_mb :: int
  lgc_max_backups :: int
  lgc_max_age_days :: int
  lgc_compress :: bool

record jwt_config =
  jc_secret :: string
  jc_expire_seconds :: int

record cors_config =
  cors_enabled :: bool
  cors_allowed_origins :: "string list"
  cors_allowed_methods :: "string list"
  cors_allowed_headers :: "string list"
  cors_exposed_headers :: "string list"
  cors_allow_credentials :: bool
  cors_max_age :: int

record app_config =
  cfg_server :: server_config
  cfg_cache :: cache_config
  cfg_databases :: multi_database_config
  cfg_kafka :: kafka_config
  cfg_circuit_breaker :: circuit_breaker_config
  cfg_rate_limiter :: rate_limiter_config
  cfg_hot_key :: hot_key_config
  cfg_observability :: observability_config
  cfg_logging :: logging_config
  cfg_swagger_enabled :: bool
  cfg_cors :: cors_config
  cfg_jwt :: jwt_config

text \<open>\<open>defaultConfig\<close>; a field the composite literal leaves out is Go's zero value.\<close>

definition default_cache_config :: cache_config where
  "default_cache_config =
     \<lparr>cc_l1 = \<lparr>l1c_max_entries = 1000000, l1c_ttl_seconds = 30, l1c_refresh_seconds = 25\<rparr>,
      cc_l2 = \<lparr>l2c_addresses = [''127.0.0.1:6379''], l2c_password = [], l2c_pool_size = 100, l2c_min_idle = 10,
               l2c_dial_timeout_ms = 3000, l2c_read_timeout_ms = 1000, l2c_ttl_seconds = 0\<rparr>,
      cc_jitter_percent = fl (2 / 10), cc_null_ttl_seconds = 60\<rparr>"

definition default_databases :: multi_database_config where
  "default_databases =
     \<lparr>mdc_mysql = \<lparr>dbc_enabled = True, dbc_driver = ''mysql'', dbc_dsn = [], dbc_replica_dsns = [],
        dbc_max_open_conns = 50, dbc_max_idle_conns = 10, dbc_conn_max_lifetime_secs = 1800\<rparr>,
      mdc_postgres = \<lparr>dbc_enabled = True, dbc_driver = ''postgres'', dbc_dsn = [], dbc_replica_dsns = [],
        dbc_max_open_conns = 30, dbc_max_idle_conns = 5, dbc_conn_max_lifetime_secs = 1800\<rparr>,
      mdc_mongodb = \<lparr>mgc_enabled = True, mgc_uri = [], mgc_username = [], mgc_password = [], mgc_database = [],
        mgc_max_pool_size = 100, mgc_min_pool_size = 10, mgc_connect_timeout_seconds = 10,
        mgc_read_preference = []\<rparr>,
      mdc_elasticsearch = \<lparr>esc_enabled = True, esc_addresses = [], esc_username = [], esc_password = []\<rparr>\<rparr>"

definition default_kafka :: kafka_config where
  "default_kafka =
     \<lparr>kc_brokers = [],
      kc_producer = \<lparr>pc_topic = ''order-create'', pc_acks = ''all'', pc_compression = ''lz4'', pc_batch_size = 16384,
        pc_linger_ms = 5, pc_max_retries = 3, pc_idempotent = True\<rparr>,
      kc_consumer = \<lparr>csc_group_id = ''order-consumer-group'', csc_topic = ''order-create'',
        csc_dlq_topic = ''order-create.dlq'', csc_max_retries = 3, csc_rate_limit = 2000, csc_concurrency = 8,
        csc_min_bytes = 0, csc_max_bytes = 0, csc_start_from_latest = False\<rparr>\<rparr>"

definition default_config :: app_config where
  "default_config =
     \<lparr>cfg_server = \<lparr>sc_port = 8080, sc_mode = ''release''\<rparr>,
      cfg_cache = default_cache_config,
      cfg_databases = default_databases,
      cfg_kafka = default_kafka,
      cfg_circuit_breaker = \<lparr>cbc_max_requests = 5, cbc_interval_seconds = 60, cbc_timeout_seconds = 30,
        cbc_failure_threshold = fl (1 / 2), cbc_slow_call_threshold_ms = 1000\<rparr>,
      cfg_rate_limiter = \<lparr>rlc_bucket_capacity = 5000, rlc_refill_rate = 5000\<rparr>,
      cfg_hot_key = \<lparr>hkc_window_seconds = 10, hkc_slots = 10, hkc_threshold = 100\<rparr>,
      cfg_observability = \<lparr>obc_trace = \<lparr>tc_enabled = False, tc_exporter = []\<rparr>, obc_metrics_enabled = False\<rparr>,
      cfg_logging = \<lparr>lgc_level = ''debug'', lgc_format = ''structured'', lgc_output = [], lgc_max_size_mb = 0,
        lgc_max_backups = 0, lgc_max_age_days = 0, lgc_compress = False\<rparr>,
      cfg_swagger_enabled = False,
      cfg_cors = \<lparr>cors_enabled = False, cors_allowed_origins = [''*''],
        cors_allowed_methods = [''GET'', ''POST'', ''PUT'', ''PATCH'', ''DELETE'', ''OPTIONS''],
        cors_allowed_headers = [''Origin'', ''Content-Type'', ''Accept'', ''Authorization'', ''X-Trace-Id'',
          ''X-Request-ID''],
        cors_exposed_headers = [''Content-Length'', ''X-Trace-Id''],
        cors_allow_credentials = True, cors_max_age = 86400\<rparr>,
      cfg_jwt = \<lparr>jc_secret = ''change-me-in-production'', jc_expire_seconds = 7200\<rparr>\<rparr>"

text \<open>What \<open>os.ReadFile\<close> gave, and the decoder that overlays a document on a configuration.\<close>

datatype read_result = FileData string | FileMissing | FileError goerr

definition load_config :: "(string \<Rightarrow> app_config \<Rightarrow> goerr + app_config) \<Rightarrow> read_result \<Rightarrow> goerr + app_config" where
  "load_config unmarshal file =
     (case file of
        FileMissing \<Rightarrow> Inr default_config
      | FileError e \<Rightarrow> Inl (Wrap ''read config'' e)
      | FileData data \<Rightarrow>
          (case unmarshal data default_config of
             Inl e \<Rightarrow> Inl (Wrap ''parse config'' e)
           | Inr cfg \<Rightarrow> Inr cfg))"

subsection \<open>Jitter\<close>

text \<open>\<open>binary.LittleEndian.Uint64\<close> of eight bytes.\<close>

definition le_uint64 :: "nat list \<Rightarrow> nat" where
  "le_uint64 bs = foldr (\<lambda>b a. b + 256 * a) (take 8 bs) 0"

definition jitter_duration :: "nat list \<Rightarrow> duration \<Rightarrow> f64 \<Rightarrow> duration" where
  "jitter_duration rnd base pct =
     (if pct \<le> 0 then base
      else
        (let n = fl (f_of_int (int (le_uint64 rnd div 2 ^ 11)) / 2 ^ 53);
             delta = fl (f_of_int base * pct);
             result = fl (fl (f_of_int base - delta) + fl (fl (2 * delta) * n))
         in f_to_int64 result))"

definition l1_ttl_config :: "nat list \<Rightarrow> cache_config \<Rightarrow> duration" where
  "l1_ttl_config rnd c =
     (let base = s64 (l1c_ttl_seconds (cc_l1 c) * second)
      in if cc_jitter_percent c \<le> 0 then base else jitter_duration rnd base (cc_jitter_percent c))"

definition l2_ttl_config :: "nat list \<Rightarrow> cache_config \<Rightarrow> duration" where
  "l2_ttl_config rnd c =
     (let base = s64 (l2c_ttl_seconds (cc_l2 c) * second);
          base' = (if base \<le> 0 then 30 * minute else base)
      in jitter_duration rnd base' (cc_jitter_percent c))"

definition null_ttl_config :: "cache_config \<Rightarrow> duration" where
  "null_ttl_config c = s64 (cc_null_ttl_seconds c * second)"

lemma le_uint64_bound:
  assumes "\<forall>b \<in> set bs. b < 256"
  shows "le_uint64 bs < 2 ^ 64"
proof -
  have "foldr (\<lambda>b a. b + 256 * a) xs 0 < 256 ^ length xs" if "\<forall>b \<in> set xs. b < 256" for xs :: "nat list"
    using that
  proof (induction xs)
    case (Cons x xs)
    then have "foldr (\<lambda>b a. b + 256 * a) xs 0 \<le> 256 ^ length xs - 1" "x < 256" by auto
    moreover have "1 \<le> (256 :: nat) ^ length xs" by simp
    ultimately have "x + 256 * foldr (\<lambda>b a. b + 256 * a) xs 0 < 256 * 256 ^ length xs" by linarith
    then show ?case by simp
  qed simp
  from this [of "take 8 bs"] assms have "le_uint64 bs < 256 ^ length (take 8 bs)"
    unfolding le_uint64_def by (meson in_set_takeD)
  also have "\<dots> \<le> 256 ^ 8" by (rule power_increasing) simp_all
  finally show ?thesis by simp
qed

lemma fl_half_error: "0 < x \<Longrightarrow> x < 2 ^ 53 \<Longrightarrow> \<bar>fl x - x\<bar> \<le> 1 / 2"
proof -
  assume x: "0 < x" "x < 2 ^ 53"
  have "flog2 x < 53" by (rule flog2_less [OF x(1)]) (use x(2) in simp)
  then have "ulp_exp x \<le> 0" by (simp add: ulp_exp_def)
  then have "(2::rat) powi ulp_exp x \<le> 2 powi 0" by (rule powi_mono)
  with fl_pos_error [OF x(1)] x(1) show ?thesis by (simp add: fl_def)
qed

lemma fl_half_error0: "0 \<le> x \<Longrightarrow> x < 2 ^ 53 \<Longrightarrow> \<bar>fl x - x\<bar> \<le> 1 / 2"
  using fl_half_error [of x] by (cases "x = 0") auto

lemma is_f64_double:
  assumes "is_f64 x"
  shows "is_f64 (2 * x)"
proof -
  obtain m k :: int where "\<bar>m\<bar> \<le> 2 ^ 53" "- 1074 \<le> k" "x = of_int m * 2 powi k"
    using assms unfolding is_f64_def by blast
  moreover have "(2::rat) powi (k + 1) = 2 * 2 powi k" by (simp add: power_int_add)
  ultimately show ?thesis using is_f64_scaled [of m "k + 1"] by (simp add: mult.left_commute)
qed

text \<open>The random factor is in \<open>[0, 1)\<close>.\<close>

lemma unit_random:
  assumes "\<forall>b \<in> set rnd. b < 256"
  shows "0 \<le> fl (f_of_int (int (le_uint64 rnd div 2 ^ 11)) / 2 ^ 53)"
    "fl (f_of_int (int (le_uint64 rnd div 2 ^ 11)) / 2 ^ 53) \<le> 1"
proof -
  let ?k = "int (le_uint64 rnd div 2 ^ 11)"
  have "le_uint64 rnd div 2 ^ 11 < 2 ^ 53"
    using le_uint64_bound [OF assms] by (simp add: less_mult_imp_div_less)
  then have "int (le_uint64 rnd div 2 ^ 11) < int (2 ^ 53)" by (simp only: of_nat_less_iff)
  then have k: "0 \<le> ?k" "?k \<le> 2 ^ 53" by simp_all
  then have "0 \<le> f_of_int ?k" "f_of_int ?k \<le> 2 ^ 53"
    using f_of_int_mono [OF k(2)] by (simp_all add: f_of_int_nonneg f_of_int_exact)
  then show "0 \<le> fl (f_of_int ?k / 2 ^ 53)" "fl (f_of_int ?k / 2 ^ 53) \<le> 1"
    by (auto intro!: fl_nonneg fl_le)
qed

text \<open>
  C38: For a base from 0 to 2^51 ns (26 days) and a percentage in (0, 1], the jittered expiry is within
  base times percentage of the base, up to the rounding of the float64 arithmetic (5/2 ns), and
  never negative, for every eight random bytes.
\<close>

theorem jitter_bounds:
  assumes "\<forall>b \<in> set rnd. b < 256" "0 \<le> base" "base \<le> 2 ^ 51" "is_f64 pct" "0 < pct" "pct \<le> 1"
  shows "\<bar>of_int (jitter_duration rnd base pct - base)\<bar> \<le> of_int base * pct + 5 / 2 \<and>
    0 \<le> jitter_duration rnd base pct"
proof -
  define D where "D = fl (f_of_int base * pct)"
  define n where "n = fl (f_of_int (int (le_uint64 rnd div 2 ^ 11)) / 2 ^ 53)"
  define A where "A = fl (f_of_int base - D)"
  define B where "B = fl (fl (2 * D) * n)"
  define R where "R = fl (A + B)"
  let ?b = "of_int base :: rat"
  have b: "f_of_int base = ?b" "0 \<le> ?b" "?b \<le> 2 ^ 51" "is_f64 ?b"
    using assms(2,3) of_int_le_iff [of base "2 ^ 51", where 'a = rat] by (simp_all add: f_of_int_exact is_f64_of_int)
  have bp: "0 \<le> ?b * pct" "?b * pct \<le> ?b" using b(2) assms(5,6) by (simp_all add: mult_left_le)
  have D: "0 \<le> D" "D \<le> ?b" "D \<le> ?b * pct + 1 / 2" "is_f64 D"
    using bp b abs_le_D1 [OF fl_half_error0 [of "?b * pct"]] by (auto simp: D_def intro: fl_nonneg fl_le)
  have n: "0 \<le> n" "n \<le> 1" using unit_random [OF assms(1)] by (simp_all add: n_def)
  have A: "\<bar>A - (?b - D)\<bar> \<le> 1 / 2" "0 \<le> A"
    using fl_half_error0 [of "?b - D"] D b by (auto simp: A_def intro: fl_nonneg)
  have "fl (2 * D) = 2 * D" by (simp add: fl_exact is_f64_double D(4))
  then have B: "0 \<le> B" "B \<le> 2 * D"
    using D(1) n is_f64_double [OF D(4)] by (auto simp: B_def mult_left_le intro: fl_nonneg fl_le)
  have b3: "?b \<le> 2251799813685248" using b(3) by (simp del: of_int_le_numeral_iff)
  have "A + B < 9007199254740992" using A B D(1,2) b3 by linarith
  with A(2) B(1) have R: "\<bar>R - (A + B)\<bar> \<le> 1 / 2" "0 \<le> R"
    using fl_half_error0 [of "A + B"] by (auto simp: R_def intro: fl_nonneg)
  then have tr: "f_trunc R = \<lfloor>R\<rfloor>" by (simp add: f_trunc_def)
  have "R < 9007199254740992" using R A B D(1,2) b3 by linarith
  then have "in64 (f_trunc R)" using R(2) by (simp add: tr in64_def floor_less_iff)
  then have j: "jitter_duration rnd base pct = \<lfloor>R\<rfloor>"
    using assms(5) b(1) tr by (simp add: jitter_duration_def f_to_int64_def D_def n_def A_def B_def R_def Let_def)
  have "of_int \<lfloor>R\<rfloor> \<le> R" "R - 1 < of_int \<lfloor>R\<rfloor>" by linarith+
  then have "of_int \<lfloor>R\<rfloor> - ?b \<le> ?b * pct + 5 / 2" "?b - of_int \<lfloor>R\<rfloor> \<le> ?b * pct + 5 / 2"
    using R A B D by linarith+
  with R(2) show ?thesis by (simp add: j abs_le_iff)
qed

theorem jitter_bounds_witness:
  "\<bar>of_int (jitter_duration [1, 2, 3, 4, 5, 6, 7, 8] 2000000000 (1 / 4) - 2000000000) :: rat\<bar> \<le> 2000000000 * (1 / 4) + 5 / 2"
proof -
  have "is_f64 (1 / 4)" using is_f64_scaled [of 1 "- 2"] by (simp add: power_int_minus)
  then show ?thesis using jitter_bounds [of "[1, 2, 3, 4, 5, 6, 7, 8]" 2000000000 "1 / 4"] by simp
qed

end
