(* ===== verification/Go_Json.thy ===== *)
theory Go_Json
  imports Float64
begin

section \<open>Model structs, dynamic values and JSON (internal/model/models.go, encoding/json)\<close>

text \<open>
  The structs of \<open>internal/model\<close>, the Go values the program passes as \<open>interface{}\<close>
  (\<open>gval\<close>), and what \<open>json.Marshal\<close> and \<open>json.Unmarshal\<close> do with them. A JSON text is
  represented by its parse tree (\<open>json\<close>): a number by the rational its decimal text denotes
  (\<open>JFrac\<close> is one written with a fraction or an exponent although its value may be an integer,
  which \<open>encoding/json\<close> refuses for an integer field), the RFC 3339 text of an instant by the
  instant, the base64 text of a byte slice by the slice. Member names match with the case of ASCII
  letters ignored. A byte slice or Redis value is a \<open>wire\<close>: the text of a JSON tree, or a text
  that is no JSON.
\<close>

record order =
  ord_id :: int
  ord_user_id :: int
  ord_order_no :: string
  ord_amount :: f64
  ord_status :: string
  ord_created_at :: time
  ord_updated_at :: time

record create_order_request =
  cor_user_id :: int
  cor_amount :: f64

record user_profile =
  up_id :: int
  up_user_id :: int
  up_nickname :: string
  up_avatar :: string
  up_email :: string
  up_phone :: string
  up_bio :: string
  up_tags :: "string list"
  up_created_at :: time
  up_updated_at :: time

record user =
  us_id :: int
  us_username :: string
  us_password_hash :: string
  us_email :: string
  us_phone :: string
  us_status :: int
  us_last_login_at :: "string option"
  us_created_at :: string
  us_updated_at :: string

datatype json =
    JNull | JBool bool | JNum rat | JFrac rat | JTime time | JB64 wire | JStr string
  | JArr "json list" | JObj "(string \<times> json) list"
and wire = Raw string | JText json

datatype gval =
    GNil | GBool bool | GNum f64 | GInt int | GStr string | GTimeText time | GB64Text wire
  | GList "gval list" | GMap "(string \<times> gval) list"
  | GBytes wire | GOrder order | GProfile user_profile | GEvent business_event
and business_event =
  BusinessEvent (ev_id: string) (ev_type: string) (ev_timestamp: int) (ev_trace_id: string) (ev_payload: gval)

subsection \<open>Numbers\<close>

text \<open>
  \<open>strconv\<close> prints a \<open>float64\<close> with the fewest decimal digits that read back as the same
  number, taking the closest such decimal; 17 digits always suffice, and the exact value
  stands in the branch that is never reached.
\<close>

definition floor_log10 :: "rat \<Rightarrow> int" where
  "floor_log10 x =
     (if 1 \<le> x then int (length (dec (nat \<lfloor>x\<rfloor>))) - 1 else - int (length (dec (nat (\<lceil>1 / x\<rceil> - 1)))))"

definition digits_candidate :: "nat \<Rightarrow> rat \<Rightarrow> rat" where
  "digits_candidate n x =
     (let e = floor_log10 x - (int n - 1) in of_int (rne (x / 10 powi e)) * 10 powi e)"

definition shortest_dec :: "f64 \<Rightarrow> rat" where
  "shortest_dec x =
     (case find (\<lambda>r. fl r = x) (map (\<lambda>n. digits_candidate n x) [1..<18]) of
        Some r \<Rightarrow> r
      | None \<Rightarrow> x)"

definition f64_dec :: "f64 \<Rightarrow> rat" where
  "f64_dec x = (if x = 0 then 0 else if 0 < x then shortest_dec x else - shortest_dec (- x))"

subsection \<open>Marshal\<close>

definition order_json :: "order \<Rightarrow> json" where
  "order_json od =
     JObj [(''id'', JNum (of_int (ord_id od))), (''user_id'', JNum (of_int (ord_user_id od))),
           (''order_no'', JStr (ord_order_no od)), (''amount'', JNum (f64_dec (ord_amount od))),
           (''status'', JStr (ord_status od)), (''created_at'', JTime (ord_created_at od)),
           (''updated_at'', JTime (ord_updated_at od))]"

definition profile_json :: "user_profile \<Rightarrow> json" where
  "profile_json u =
     JObj ([(''id'', JNum (of_int (up_id u))), (''user_id'', JNum (of_int (up_user_id u))),
            (''nickname'', JStr (up_nickname u)), (''avatar'', JStr (up_avatar u)),
            (''email'', JStr (up_email u)), (''phone'', JStr (up_phone u))]
         @ (if up_bio u = [] then [] else [(''bio'', JStr (up_bio u))])
         @ (if up_tags u = [] then [] else [(''tags'', JArr (map JStr (up_tags u)))])
         @ [(''created_at'', JTime (up_created_at u)), (''updated_at'', JTime (up_updated_at u))])"

primrec marshal :: "gval \<Rightarrow> json" and marshal_event :: "business_event \<Rightarrow> json" where
  "marshal GNil = JNull"
| "marshal (GBool b) = JBool b"
| "marshal (GNum x) = JNum (f64_dec x)"
| "marshal (GInt n) = JNum (of_int n)"
| "marshal (GStr s) = JStr s"
| "marshal (GTimeText t) = JTime t"
| "marshal (GB64Text w) = JB64 w"
| "marshal (GList vs) = JArr (map marshal vs)"
| "marshal (GMap kvs) = JObj (map (map_prod id marshal) kvs)"
| "marshal (GBytes w) = JB64 w"
| "marshal (GOrder od) = order_json od"
| "marshal (GProfile u) = profile_json u"
| "marshal (GEvent e) = marshal_event e"
| "marshal_event (BusinessEvent i ty ts tr p) =
     JObj [(''event_id'', JStr i), (''event_type'', JStr ty), (''timestamp'', JNum (of_int ts)),
           (''trace_id'', JStr tr), (''payload'', marshal p)]"

subsection \<open>Unmarshal\<close>

text \<open>Into \<open>interface{}\<close>: every number becomes a \<open>float64\<close>.\<close>

primrec unmarshal_any :: "json \<Rightarrow> gval" where
  "unmarshal_any JNull = GNil"
| "unmarshal_any (JBool b) = GBool b"
| "unmarshal_any (JNum r) = GNum (fl r)"
| "unmarshal_any (JFrac r) = GNum (fl r)"
| "unmarshal_any (JTime t) = GTimeText t"
| "unmarshal_any (JB64 w) = GB64Text w"
| "unmarshal_any (JStr s) = GStr s"
| "unmarshal_any (JArr vs) = GList (map unmarshal_any vs)"
| "unmarshal_any (JObj kvs) = GMap (map (map_prod id unmarshal_any) kvs)"

text \<open>Into a field of a fixed type; \<open>None\<close> is an \<open>UnmarshalTypeError\<close>.\<close>

fun as_u64 :: "json \<Rightarrow> int option" where
  "as_u64 (JNum r) = (if r = of_int \<lfloor>r\<rfloor> \<and> 0 \<le> r \<and> r < 2 ^ 64 then Some \<lfloor>r\<rfloor> else None)"
| "as_u64 _ = None"

fun as_i64 :: "json \<Rightarrow> int option" where
  "as_i64 (JNum r) = (if r = of_int \<lfloor>r\<rfloor> \<and> in64 \<lfloor>r\<rfloor> then Some \<lfloor>r\<rfloor> else None)"
| "as_i64 _ = None"

fun as_f64 :: "json \<Rightarrow> f64 option" where
  "as_f64 (JNum r) = (if \<bar>fl r\<bar> < 2 ^ 1024 then Some (fl r) else None)"
| "as_f64 (JFrac r) = (if \<bar>fl r\<bar> < 2 ^ 1024 then Some (fl r) else None)"
| "as_f64 _ = None"

fun as_str :: "json \<Rightarrow> string option" where
  "as_str (JStr s) = Some s"
| "as_str _ = None"

fun as_time :: "json \<Rightarrow> time option" where
  "as_time (JTime t) = Some t"
| "as_time _ = None"

text \<open>
  Into a struct: members are taken in turn, \<open>null\<close> leaves a field alone, a member of the
  wrong type leaves it alone and is reported after the rest has been decoded.
\<close>

definition type_error :: goerr where
  "type_error = Errorf ''json: cannot unmarshal value into Go struct field''"

definition first_error :: "goerr option \<Rightarrow> goerr option" where
  "first_error e = (case e of None \<Rightarrow> Some type_error | Some e' \<Rightarrow> Some e')"

definition set_field ::
  "(json \<Rightarrow> 'a option) \<Rightarrow> ('a \<Rightarrow> 's \<Rightarrow> 's) \<Rightarrow> json \<Rightarrow> goerr option \<times> 's \<Rightarrow> goerr option \<times> 's" where
  "set_field rd upd v es =
     (if v = JNull then es
      else case rd v of None \<Rightarrow> (first_error (fst es), snd es) | Some a \<Rightarrow> (fst es, upd a (snd es)))"

definition order_member :: "string \<times> json \<Rightarrow> goerr option \<times> order \<Rightarrow> goerr option \<times> order" where
  "order_member = (\<lambda>(k, v) es.
     if k = ''id'' then set_field as_u64 (\<lambda>a od. od\<lparr>ord_id := a\<rparr>) v es
     else if k = ''user_id'' then set_field as_u64 (\<lambda>a od. od\<lparr>ord_user_id := a\<rparr>) v es
     else if k = ''order_no'' then set_field as_str (\<lambda>a od. od\<lparr>ord_order_no := a\<rparr>) v es
     else if k = ''amount'' then set_field as_f64 (\<lambda>a od. od\<lparr>ord_amount := a\<rparr>) v es
     else if k = ''status'' then set_field as_str (\<lambda>a od. od\<lparr>ord_status := a\<rparr>) v es
     else if k = ''created_at'' then set_field as_time (\<lambda>a od. od\<lparr>ord_created_at := a\<rparr>) v es
     else if k = ''updated_at'' then set_field as_time (\<lambda>a od. od\<lparr>ord_updated_at := a\<rparr>) v es
     else es)"

definition zero_time :: time where "zero_time = - 62135596800 * second"

definition zero_order :: order where
  "zero_order = \<lparr>ord_id = 0, ord_user_id = 0, ord_order_no = [], ord_amount = 0, ord_status = [],
     ord_created_at = zero_time, ord_updated_at = zero_time\<rparr>"

text \<open>\<open>strings.ToLower\<close> on ASCII; a member's name is matched with its case ignored.\<close>

definition lower_char :: "char \<Rightarrow> char" where
  "lower_char c = (let n = (of_char c :: nat) in if 65 \<le> n \<and> n \<le> 90 then char_of (n + 32) else c)"

definition to_lower :: "string \<Rightarrow> string" where
  "to_lower = map lower_char"

definition fold_names :: "(string \<times> json \<Rightarrow> 'r) \<Rightarrow> string \<times> json \<Rightarrow> 'r" where
  "fold_names mem = (\<lambda>(k, v). mem (to_lower k, v))"

lemma lower_names [simp]:
  "to_lower ''id'' = ''id''" "to_lower ''user_id'' = ''user_id''" "to_lower ''order_no'' = ''order_no''"
  "to_lower ''amount'' = ''amount''" "to_lower ''status'' = ''status''" "to_lower ''created_at'' = ''created_at''"
  "to_lower ''updated_at'' = ''updated_at''" "to_lower ''nickname'' = ''nickname''" "to_lower ''avatar'' = ''avatar''"
  "to_lower ''email'' = ''email''" "to_lower ''phone'' = ''phone''" "to_lower ''bio'' = ''bio''" "to_lower ''tags'' = ''tags''"
  "to_lower ''event_id'' = ''event_id''" "to_lower ''event_type'' = ''event_type''" "to_lower ''timestamp'' = ''timestamp''"
  "to_lower ''trace_id'' = ''trace_id''" "to_lower ''payload'' = ''payload''" "to_lower ''username'' = ''username''"
  "to_lower ''password'' = ''password''" "to_lower ''took'' = ''took''" "to_lower ''hits'' = ''hits''" "to_lower ''total'' = ''total''"
  "to_lower ''value'' = ''value''" "to_lower ''relation'' = ''relation''" "to_lower ''_index'' = ''_index''"
  "to_lower ''_source'' = ''_source''"
  by (simp_all add: to_lower_def lower_char_def)

lemma fold_names_pair [simp]: "fold_names mem (k, v) = mem (to_lower k, v)"
  by (simp add: fold_names_def)

fun unmarshal_struct ::
  "(string \<times> json \<Rightarrow> goerr option \<times> 's \<Rightarrow> goerr option \<times> 's) \<Rightarrow> 's \<Rightarrow> json \<Rightarrow> goerr option \<times> 's" where
  "unmarshal_struct mem s (JObj kvs) = fold (fold_names mem) kvs (None, s)"
| "unmarshal_struct mem s JNull = (None, s)"
| "unmarshal_struct mem s _ = (Some type_error, s)"

definition unmarshal_order :: "json \<Rightarrow> goerr option \<times> order" where
  "unmarshal_order j = unmarshal_struct order_member zero_order j"

text \<open>
  A profile. An element of \<open>tags\<close> of the wrong type is reported and left empty, like a \<open>null\<close>.
\<close>

definition zero_profile :: user_profile where
  "zero_profile = \<lparr>up_id = 0, up_user_id = 0, up_nickname = [], up_avatar = [], up_email = [], up_phone = [],
     up_bio = [], up_tags = [], up_created_at = zero_time, up_updated_at = zero_time\<rparr>"

fun tag_text :: "json \<Rightarrow> string" where
  "tag_text (JStr s) = s"
| "tag_text _ = []"

definition set_tags :: "json \<Rightarrow> goerr option \<times> user_profile \<Rightarrow> goerr option \<times> user_profile" where
  "set_tags v es =
     (case v of
        JNull \<Rightarrow> (fst es, (snd es)\<lparr>up_tags := []\<rparr>)
      | JArr vs \<Rightarrow> (if \<forall>t \<in> set vs. t = JNull \<or> as_str t \<noteq> None then fst es else first_error (fst es),
                   (snd es)\<lparr>up_tags := map tag_text vs\<rparr>)
      | _ \<Rightarrow> (first_error (fst es), snd es))"

definition profile_member :: "string \<times> json \<Rightarrow> goerr option \<times> user_profile \<Rightarrow> goerr option \<times> user_profile" where
  "profile_member = (\<lambda>(k, v) es.
     if k = ''id'' then set_field as_u64 (\<lambda>a u. u\<lparr>up_id := a\<rparr>) v es
     else if k = ''user_id'' then set_field as_u64 (\<lambda>a u. u\<lparr>up_user_id := a\<rparr>) v es
     else if k = ''nickname'' then set_field as_str (\<lambda>a u. u\<lparr>up_nickname := a\<rparr>) v es
     else if k = ''avatar'' then set_field as_str (\<lambda>a u. u\<lparr>up_avatar := a\<rparr>) v es
     else if k = ''email'' then set_field as_str (\<lambda>a u. u\<lparr>up_email := a\<rparr>) v es
     else if k = ''phone'' then set_field as_str (\<lambda>a u. u\<lparr>up_phone := a\<rparr>) v es
     else if k = ''bio'' then set_field as_str (\<lambda>a u. u\<lparr>up_bio := a\<rparr>) v es
     else if k = ''tags'' then set_tags v es
     else if k = ''created_at'' then set_field as_time (\<lambda>a u. u\<lparr>up_created_at := a\<rparr>) v es
     else if k = ''updated_at'' then set_field as_time (\<lambda>a u. u\<lparr>up_updated_at := a\<rparr>) v es
     else es)"

definition unmarshal_profile :: "json \<Rightarrow> goerr option \<times> user_profile" where
  "unmarshal_profile j = unmarshal_struct profile_member zero_profile j"

text \<open>A \<open>BusinessEvent\<close>; its payload goes into \<open>interface{}\<close>, where \<open>null\<close> is \<open>nil\<close>.\<close>

definition event_member :: "string \<times> json \<Rightarrow> goerr option \<times> business_event \<Rightarrow> goerr option \<times> business_event" where
  "event_member = (\<lambda>(k, v) es.
     if k = ''event_id'' then set_field as_str (\<lambda>a e. BusinessEvent a (ev_type e) (ev_timestamp e) (ev_trace_id e) (ev_payload e)) v es
     else if k = ''event_type'' then set_field as_str (\<lambda>a e. BusinessEvent (ev_id e) a (ev_timestamp e) (ev_trace_id e) (ev_payload e)) v es
     else if k = ''timestamp'' then set_field as_i64 (\<lambda>a e. BusinessEvent (ev_id e) (ev_type e) a (ev_trace_id e) (ev_payload e)) v es
     else if k = ''trace_id'' then set_field as_str (\<lambda>a e. BusinessEvent (ev_id e) (ev_type e) (ev_timestamp e) a (ev_payload e)) v es
     else if k = ''payload'' then
       (fst es, (case snd es of BusinessEvent i ty ts tr p \<Rightarrow> BusinessEvent i ty ts tr (unmarshal_any v)))
     else es)"

definition unmarshal_event :: "json \<Rightarrow> goerr option \<times> business_event" where
  "unmarshal_event j = unmarshal_struct event_member (BusinessEvent [] [] 0 [] GNil) j"

text \<open>\<open>json.Unmarshal\<close> of bytes that are no JSON fails before it looks at the target.\<close>

definition syntax_error :: goerr where
  "syntax_error = Errorf ''invalid character looking for beginning of value''"

subsection \<open>Printed numbers read back\<close>

lemma fl_shortest_dec: "is_f64 x \<Longrightarrow> fl (shortest_dec x) = x"
  by (auto simp: shortest_dec_def fl_exact find_Some_iff split: option.split)

lemma fl_f64_dec [simp]: "is_f64 x \<Longrightarrow> fl (f64_dec x) = x"
  by (simp add: f64_dec_def fl_shortest_dec fl_minus)

lemma dec_nonempty: "dec n \<noteq> []"
  by (subst dec.simps) simp

lemma floor_log10_nat:
  assumes "1 \<le> n"
  shows "floor_log10 (of_int n) = int (length (dec (nat n))) - 1"
  using assms by (simp add: floor_log10_def)

lemma digits_candidate_exact:
  assumes "1 \<le> n"
  shows "digits_candidate (length (dec (nat n))) (of_int n) = of_int n"
  by (simp add: digits_candidate_def floor_log10_nat [OF assms])

lemma digits_candidate_int:
  assumes "1 \<le> n" "k \<le> length (dec (nat n))" "1 \<le> k"
  shows "\<exists>m. digits_candidate k (of_int n) = of_int m"
proof -
  define e where "e = floor_log10 (of_int n) - (int k - 1)"
  have "0 \<le> e" using assms by (simp add: e_def floor_log10_nat)
  then have "(10::rat) powi e = of_int (10 ^ nat e)" by (simp add: power_int_def)
  then have "digits_candidate k (of_int n) = of_int (rne (of_int n / 10 powi e) * 10 ^ nat e)"
    by (simp add: digits_candidate_def e_def [symmetric])
  then show ?thesis by blast
qed

text \<open>An integer below \<open>2 ^ 53\<close> is printed exactly.\<close>

lemma fl_int_unique:
  assumes "fl (of_int m) = of_int n" "0 < n" "n < 2 ^ 53"
  shows "m = n"
proof -
  have "m < 2 ^ 53"
  proof (rule ccontr)
    assume "\<not> ?thesis"
    then have "2 ^ 53 \<le> m" by simp
    then have "(of_int (2 ^ 53) :: rat) \<le> of_int m" by (simp only: of_int_le_iff)
    then have "of_int (2 ^ 53) \<le> fl (of_int m :: rat)" by (intro fl_ge is_f64_of_int) simp_all
    with assms(1) have "(of_int (2 ^ 53) :: rat) \<le> of_int n" by simp
    with assms(3) show False by (simp only: of_int_le_iff)
  qed
  moreover have "0 \<le> m"
  proof (rule ccontr)
    assume "\<not> ?thesis"
    then have "fl (of_int m :: rat) \<le> 0" by (intro fl_nonpos) simp
    with assms(1,2) show False by simp
  qed
  ultimately have "fl (of_int m :: rat) = of_int m" by (intro fl_of_int) simp
  with assms(1) show ?thesis by simp
qed

lemma find_first:
  "k < length xs \<Longrightarrow> P (xs ! k) \<Longrightarrow> (\<And>i. i \<le> k \<Longrightarrow> P (xs ! i) \<Longrightarrow> xs ! i = r) \<Longrightarrow> find P xs = Some r"
proof (induction xs arbitrary: k)
  case (Cons x xs)
  show ?case
  proof (cases "P x")
    case True
    with Cons.prems(3) [of 0] show ?thesis by simp
  next
    case False
    with Cons.prems(1,2) obtain k' where "k = Suc k'" by (cases k) auto
    with False Cons.IH [of k'] Cons.prems(1,2) Cons.prems(3) [of "Suc i" for i] show ?thesis
      by (metis Suc_le_mono Suc_less_eq find.simps(2) length_Cons nth_Cons_Suc)
  qed
qed simp

lemma shortest_dec_int:
  assumes "0 < n" "n < 2 ^ 53"
  shows "shortest_dec (of_int n) = of_int n"
proof -
  let ?d = "length (dec (nat n))"
  let ?xs = "map (\<lambda>k. digits_candidate k (of_int n)) [1..<18]"
  have "nat n < 10 ^ Suc 15" using assms by simp
  then have d: "1 \<le> ?d" "?d \<le> 16" using dec_length [of "nat n" 15] dec_nonempty [of "nat n"]
    by (simp_all add: Suc_le_eq)
  have "fl (of_int n :: rat) = of_int n" using assms by (intro fl_of_int) simp
  moreover have "[1..<18] ! (?d - 1) = ?d" using d by (subst nth_upt) auto
  moreover have "?d - 1 < length [1..<18]" using d(2) by simp
  ultimately have hit: "fl (?xs ! (?d - 1)) = of_int n"
    using digits_candidate_exact [of n] assms by (simp only: nth_map)
  have "?xs ! i = of_int n" if i: "i \<le> ?d - 1" "fl (?xs ! i) = of_int n" for i
  proof -
    have "i < length [1..<18]" "[1..<18] ! i = Suc i" using i(1) d by simp_all
    then have xi: "?xs ! i = digits_candidate (Suc i) (of_int n)" by (simp only: nth_map)
    moreover have "Suc i \<le> ?d" using i(1) d(1) by linarith
    then obtain m where "digits_candidate (Suc i) (of_int n) = of_int m"
      using digits_candidate_int [of n "Suc i"] assms by auto
    ultimately show ?thesis using i(2) fl_int_unique [OF _ assms, of m] by simp
  qed
  moreover have "?d - 1 < length ?xs" using d(2) by simp
  ultimately have "find (\<lambda>r. fl r = of_int n) ?xs = Some (of_int n)" 
    using hit by (intro find_first [where k = "?d - 1" and xs = ?xs and P = "\<lambda>r. fl r = of_int n"])
  then show ?thesis by (simp add: shortest_dec_def)
qed

lemma f64_dec_int: "\<bar>n\<bar> < 2 ^ 53 \<Longrightarrow> f64_dec (of_int n) = of_int n"
  using shortest_dec_int [of n] shortest_dec_int [of "- n"] by (auto simp: f64_dec_def abs_if split: if_splits)

subsection \<open>Orders through JSON\<close>

definition order_ok :: "order \<Rightarrow> bool" where
  "order_ok od \<longleftrightarrow> 0 \<le> ord_id od \<and> ord_id od < 2 ^ 64 \<and> 0 \<le> ord_user_id od \<and> ord_user_id od < 2 ^ 64 \<and>
     is_f64 (ord_amount od) \<and> \<bar>ord_amount od\<bar> < 2 ^ 1024"

lemma set_field_some [simp]: "v \<noteq> JNull \<Longrightarrow> rd v = Some a \<Longrightarrow> set_field rd upd v (e, s) = (e, upd a s)"
  by (simp add: set_field_def)

lemma as_u64_int: "0 \<le> n \<Longrightarrow> n < 2 ^ 64 \<Longrightarrow> as_u64 (JNum (of_int n)) = Some n"
  using of_int_less_iff [of n "2 ^ 64", where 'a = rat] by simp

lemma as_f64_dec: "is_f64 x \<Longrightarrow> \<bar>x\<bar> < 2 ^ 1024 \<Longrightarrow> as_f64 (JNum (f64_dec x)) = Some x"
  by simp

lemma unmarshal_order_members:
  assumes "as_u64 i = Some n" "as_u64 u = Some m" "as_f64 a = Some x" "i \<noteq> JNull" "u \<noteq> JNull" "a \<noteq> JNull"
  shows "unmarshal_order (JObj [(''id'', i), (''user_id'', u), (''order_no'', JStr no), (''amount'', a),
      (''status'', JStr st), (''created_at'', JTime c), (''updated_at'', JTime t)]) =
    (None, \<lparr>ord_id = n, ord_user_id = m, ord_order_no = no, ord_amount = x, ord_status = st,
      ord_created_at = c, ord_updated_at = t\<rparr>)"
  using assms by (simp add: unmarshal_order_def order_member_def zero_order_def)

lemma unmarshal_order_json:
  assumes "order_ok od"
  shows "unmarshal_order (order_json od) = (None, od)"
  using assms unmarshal_order_members [OF as_u64_int as_u64_int as_f64_dec, of "ord_id od" "ord_user_id od"
      "ord_amount od" "ord_order_no od" "ord_status od" "ord_created_at od" "ord_updated_at od"]
  by (simp add: order_ok_def order_json_def del: as_u64.simps as_f64.simps)

text \<open>
  Unmarshalling the JSON of an order gives the order back, amount included, for every order with
  64-bit identifiers and a finite amount.
\<close>

theorem order_json_roundtrip:
  assumes "order_ok od"
  shows "unmarshal_order (marshal (GOrder od)) = (None, od)"
  using unmarshal_order_json [OF assms] by simp

definition sample_order :: order where
  "sample_order = \<lparr>ord_id = 7, ord_user_id = 10001, ord_order_no = ''ORD1000100042123'', ord_amount = 1 / 2,
     ord_status = ''pending'', ord_created_at = 0, ord_updated_at = 0\<rparr>"

lemma is_f64_half_amount [simp]: "is_f64 (1 / 2)"
  using is_f64_scaled [of 1 "- 1"] by (simp add: power_int_minus)

lemma sample_order_ok: "order_ok sample_order"
  by (simp add: order_ok_def sample_order_def)

theorem order_json_roundtrip_witness:
  "unmarshal_order (marshal (GOrder sample_order)) = (None, sample_order)"
  by (rule order_json_roundtrip [OF sample_order_ok])

text \<open>
  The way back from Redis: into \<open>interface{}\<close>, marshalled again, into the struct. Identifiers
  pass through a \<open>float64\<close>.
\<close>

definition via_interface :: "json \<Rightarrow> json" where
  "via_interface j = marshal (unmarshal_any j)"

lemma via_interface_order:
  "via_interface (order_json od) =
     JObj [(''id'', JNum (f64_dec (fl (of_int (ord_id od))))), (''user_id'', JNum (f64_dec (fl (of_int (ord_user_id od))))),
           (''order_no'', JStr (ord_order_no od)), (''amount'', JNum (f64_dec (fl (f64_dec (ord_amount od))))),
           (''status'', JStr (ord_status od)), (''created_at'', JTime (ord_created_at od)),
           (''updated_at'', JTime (ord_updated_at od))]"
  by (simp add: via_interface_def order_json_def)

lemma via_interface_exact:
  assumes "order_ok od" "ord_id od < 2 ^ 53" "ord_user_id od < 2 ^ 53"
  shows "via_interface (order_json od) = order_json od"
proof -
  have "fl (of_int n :: rat) = of_int n" if "0 \<le> n" "n < 2 ^ 53" for n :: int
    using that by (intro fl_of_int) simp
  with assms have "f64_dec (fl (of_int (ord_id od))) = of_int (ord_id od)"
    "f64_dec (fl (of_int (ord_user_id od))) = of_int (ord_user_id od)"
    "fl (f64_dec (ord_amount od)) = ord_amount od"
    by (simp_all add: f64_dec_int order_ok_def del: of_int_less_iff)
  then show ?thesis unfolding via_interface_order by (simp add: order_json_def)
qed

lemma via_interface_sample: "via_interface (order_json sample_order) = order_json sample_order"
  by (rule via_interface_exact [OF sample_order_ok]) (simp_all add: sample_order_def)

text \<open>
  C39: An order read back from Redis as an untyped value and converted as GetOrder does is the order
  that was stored, provided its identifiers are below 2^53 and its amount is a finite float64.
\<close>

theorem order_through_redis:
  assumes "order_ok od" "ord_id od < 2 ^ 53" "ord_user_id od < 2 ^ 53"
  shows "unmarshal_order (marshal (unmarshal_any (marshal (GOrder od)))) = (None, od)"
  using via_interface_exact [OF assms] unmarshal_order_json [OF assms(1)] by (simp add: via_interface_def)

theorem order_through_redis_witness:
  "unmarshal_order (marshal (unmarshal_any (marshal (GOrder sample_order)))) = (None, sample_order)"
  by (rule order_through_redis [OF sample_order_ok]) (simp_all add: sample_order_def)

subsection \<open>Profiles through JSON\<close>

definition profile_ok :: "user_profile \<Rightarrow> bool" where
  "profile_ok u \<longleftrightarrow> 0 \<le> up_id u \<and> up_id u < 2 ^ 64 \<and> 0 \<le> up_user_id u \<and> up_user_id u < 2 ^ 64"

lemma tag_text_strs [simp]: "map (tag_text \<circ> JStr) ts = ts"
  by (induction ts) simp_all

lemma unmarshal_profile_members:
  assumes "as_u64 i = Some n" "as_u64 j = Some m" "i \<noteq> JNull" "j \<noteq> JNull"
  shows "unmarshal_profile (JObj ([(''id'', i), (''user_id'', j), (''nickname'', JStr a), (''avatar'', JStr b),
       (''email'', JStr c), (''phone'', JStr d)]
       @ (if bio = [] then [] else [(''bio'', JStr bio)]) @ (if ts = [] then [] else [(''tags'', JArr (map JStr ts))])
       @ [(''created_at'', JTime t), (''updated_at'', JTime t')])) =
    (None, \<lparr>up_id = n, up_user_id = m, up_nickname = a, up_avatar = b, up_email = c, up_phone = d, up_bio = bio,
       up_tags = ts, up_created_at = t, up_updated_at = t'\<rparr>)"
  using assms by (simp add: unmarshal_profile_def profile_member_def zero_profile_def set_tags_def)

lemma via_interface_profile:
  "via_interface (profile_json u) =
     JObj ([(''id'', JNum (f64_dec (fl (of_int (up_id u))))), (''user_id'', JNum (f64_dec (fl (of_int (up_user_id u))))),
            (''nickname'', JStr (up_nickname u)), (''avatar'', JStr (up_avatar u)),
            (''email'', JStr (up_email u)), (''phone'', JStr (up_phone u))]
         @ (if up_bio u = [] then [] else [(''bio'', JStr (up_bio u))])
         @ (if up_tags u = [] then [] else [(''tags'', JArr (map JStr (up_tags u)))])
         @ [(''created_at'', JTime (up_created_at u)), (''updated_at'', JTime (up_updated_at u))])"
  by (simp add: via_interface_def profile_json_def)

lemma f64_dec_small: "0 \<le> n \<Longrightarrow> n < 2 ^ 53 \<Longrightarrow> f64_dec (fl (of_int n :: rat)) = of_int n"
  by (simp add: fl_of_int f64_dec_int del: of_int_less_iff)

lemma profile_through_json:
  assumes "profile_ok u"
  shows "unmarshal_profile (profile_json u) = (None, u)"
  unfolding profile_json_def
  using assms by (subst unmarshal_profile_members [OF as_u64_int as_u64_int]) (simp_all add: profile_ok_def)

text \<open>
  A profile read back from Redis as an untyped value and converted as GetProfile does is the
  profile that was stored, provided its identifiers are below 2^53.
\<close>

theorem profile_through_redis:
  assumes "profile_ok u" "up_id u < 2 ^ 53" "up_user_id u < 2 ^ 53"
  shows "unmarshal_profile (marshal (unmarshal_any (marshal (GProfile u)))) = (None, u)"
proof -
  have "via_interface (profile_json u) = profile_json u"
    using assms f64_dec_small [of "up_id u"] f64_dec_small [of "up_user_id u"]
    unfolding via_interface_profile by (simp add: profile_ok_def profile_json_def)
  then show ?thesis using profile_through_json [OF assms(1)] by (simp add: via_interface_def)
qed

definition sample_profile :: user_profile where
  "sample_profile = \<lparr>up_id = 1, up_user_id = 10001, up_nickname = ''test_user'', up_avatar = [], up_email = ''a@b.c'',
     up_phone = [], up_bio = [], up_tags = [''vip''], up_created_at = 0, up_updated_at = 0\<rparr>"

theorem profile_through_redis_witness:
  "unmarshal_profile (marshal (unmarshal_any (marshal (GProfile sample_profile)))) = (None, sample_profile)"
  by (rule profile_through_redis) (simp_all add: profile_ok_def sample_profile_def)

section \<open>Whatever is decoded, the fields are of their types\<close>

lemma unmarshal_struct_inv:
  assumes "P s" "\<And>kv es. P (snd es) \<Longrightarrow> P (snd (mem kv es))"
  shows "P (snd (unmarshal_struct mem s j))"
proof -
  have "P (snd es) \<Longrightarrow> P (snd (fold (fold_names mem) kvs es))" for kvs es
    by (induction kvs arbitrary: es) (simp_all add: fold_names_def assms(2) split_beta)
  from this [of "(None, s)"] assms(1) show ?thesis by (cases j) simp_all
qed

lemma as_u64_range: "as_u64 v = Some n \<Longrightarrow> 0 \<le> n \<and> n < 2 ^ 64"
proof (cases v)
  case (JNum r)
  assume "as_u64 v = Some n"
  with JNum have "r = of_int n" "0 \<le> r" "r < 2 ^ 64" by (auto split: if_splits)
  moreover have "(of_int n :: rat) < 2 ^ 64 \<longleftrightarrow> n < 2 ^ 64" using of_int_less_iff [of n "2 ^ 64", where 'a = rat] by simp
  ultimately show ?thesis by simp
qed simp_all

lemma as_i64_range: "as_i64 v = Some n \<Longrightarrow> in64 n"
  by (cases v) (auto split: if_splits)

lemma as_f64_range: "as_f64 v = Some x \<Longrightarrow> is_f64 x \<and> \<bar>x\<bar> < 2 ^ 1024"
  by (cases v) (auto split: if_splits)

lemma set_field_inv:
  "P (snd es) \<Longrightarrow> (\<And>a. rd v = Some a \<Longrightarrow> P (upd a (snd es))) \<Longrightarrow> P (snd (set_field rd upd v es))"
  by (simp add: set_field_def split: option.split)

lemma order_ok_upd:
  "order_ok od \<Longrightarrow> as_u64 v = Some a \<Longrightarrow> order_ok (od\<lparr>ord_id := a\<rparr>)"
  "order_ok od \<Longrightarrow> as_u64 v = Some a \<Longrightarrow> order_ok (od\<lparr>ord_user_id := a\<rparr>)"
  "order_ok od \<Longrightarrow> as_f64 v = Some x \<Longrightarrow> order_ok (od\<lparr>ord_amount := x\<rparr>)"
  "order_ok (od\<lparr>ord_order_no := s\<rparr>) = order_ok od" "order_ok (od\<lparr>ord_status := s\<rparr>) = order_ok od"
  "order_ok (od\<lparr>ord_created_at := t\<rparr>) = order_ok od" "order_ok (od\<lparr>ord_updated_at := t\<rparr>) = order_ok od"
  by (auto simp: order_ok_def dest: as_u64_range as_f64_range)

lemma order_member_ok: "order_ok (snd es) \<Longrightarrow> order_ok (snd (order_member kv es))"
  by (cases kv) (simp add: order_member_def set_field_inv [where P = order_ok] order_ok_upd)

lemma profile_ok_upd:
  "profile_ok u \<Longrightarrow> as_u64 v = Some a \<Longrightarrow> profile_ok (u\<lparr>up_id := a\<rparr>)"
  "profile_ok u \<Longrightarrow> as_u64 v = Some a \<Longrightarrow> profile_ok (u\<lparr>up_user_id := a\<rparr>)"
  "profile_ok (u\<lparr>up_nickname := s\<rparr>) = profile_ok u" "profile_ok (u\<lparr>up_avatar := s\<rparr>) = profile_ok u"
  "profile_ok (u\<lparr>up_email := s\<rparr>) = profile_ok u" "profile_ok (u\<lparr>up_phone := s\<rparr>) = profile_ok u"
  "profile_ok (u\<lparr>up_bio := s\<rparr>) = profile_ok u" "profile_ok (u\<lparr>up_tags := ts\<rparr>) = profile_ok u"
  "profile_ok (u\<lparr>up_created_at := t\<rparr>) = profile_ok u" "profile_ok (u\<lparr>up_updated_at := t\<rparr>) = profile_ok u"
  by (auto simp: profile_ok_def dest: as_u64_range)

lemma set_tags_ok: "profile_ok (snd es) \<Longrightarrow> profile_ok (snd (set_tags v es))"
  by (simp add: set_tags_def profile_ok_upd split: json.split)

lemma profile_member_ok: "profile_ok (snd es) \<Longrightarrow> profile_ok (snd (profile_member kv es))"
  by (cases kv) (simp add: profile_member_def set_field_inv [where P = profile_ok] profile_ok_upd set_tags_ok)

lemma event_member_ok: "in64 (ev_timestamp (snd es)) \<Longrightarrow> in64 (ev_timestamp (snd (event_member kv es)))"
  by (cases kv; cases "snd es") (simp add: event_member_def as_i64_range set_field_inv [where P = "\<lambda>e. in64 (ev_timestamp e)"])

text \<open>
  Whatever JSON a request or message carries, the decoded order, profile and event are well typed:
  identifiers in 64 bits, the amount a finite float64, the timestamp in 64 bits.
\<close>

theorem decoded_structs_are_typed:
  "order_ok (snd (unmarshal_order j)) \<and> profile_ok (snd (unmarshal_profile j)) \<and> in64 (ev_timestamp (snd (unmarshal_event j)))"
proof (intro conjI)
  show "order_ok (snd (unmarshal_order j))"
    unfolding unmarshal_order_def
    by (rule unmarshal_struct_inv [where P = order_ok]) (simp_all add: order_member_ok, simp add: order_ok_def zero_order_def)
  show "profile_ok (snd (unmarshal_profile j))"
    unfolding unmarshal_profile_def
    by (rule unmarshal_struct_inv [where P = profile_ok]) (simp_all add: profile_member_ok, simp add: profile_ok_def zero_profile_def)
  show "in64 (ev_timestamp (snd (unmarshal_event j)))"
    unfolding unmarshal_event_def
    by (rule unmarshal_struct_inv [where P = "\<lambda>e. in64 (ev_timestamp e)"]) (simp_all add: event_member_ok)
qed

end
