(* ===== verification/Services.thy ===== *)
theory Services
  imports Go_Json
begin

section \<open>What the program calls: clock, random bytes, Ristretto, Redis, SQL, Kafka, Elasticsearch\<close>

text \<open>
  Code outside the repository is an argument of the model: a record of operations over an
  opaque world \<open>'w\<close>, one field per call the program makes, with the result the program
  looks at (a result it discards is not there; a query gives the rows and \<open>rows.Err\<close>). \<open>clock_ok\<close> and \<open>lease_ok\<close> are the documented
  behaviour some properties rely on; the last section has a world that meets them, for the
  witnesses.
\<close>

text \<open>A header value: a text, or the RFC 3339 text of an instant.\<close>

datatype header_value = HText string | HTime time

record kafka_message =
  km_key :: string
  km_value :: wire
  km_time :: "time option"
  km_headers :: "(string \<times> header_value) list"

record 'w services =
  sv_now :: "'w \<Rightarrow> time \<times> 'w"
  sv_sleep :: "duration \<Rightarrow> 'w \<Rightarrow> 'w"
  sv_rand :: "nat \<Rightarrow> 'w \<Rightarrow> nat list \<times> 'w"
  l1_get :: "string \<Rightarrow> 'w \<Rightarrow> gval option \<times> 'w"
  l1_set :: "string \<Rightarrow> gval \<Rightarrow> duration \<Rightarrow> 'w \<Rightarrow> 'w"
  l1_wait :: "'w \<Rightarrow> 'w"
  l1_del :: "string \<Rightarrow> 'w \<Rightarrow> 'w"
  rd_get :: "string \<Rightarrow> 'w \<Rightarrow> (goerr + wire) \<times> 'w"
  rd_set :: "string \<Rightarrow> wire \<Rightarrow> duration \<Rightarrow> 'w \<Rightarrow> 'w"
  rd_setnx :: "string \<Rightarrow> wire \<Rightarrow> duration \<Rightarrow> 'w \<Rightarrow> (goerr + bool) \<times> 'w"
  rd_del :: "string \<Rightarrow> 'w \<Rightarrow> 'w"
  rd_publish :: "string \<Rightarrow> string \<Rightarrow> 'w \<Rightarrow> 'w"
  rd_eval :: "('w \<Rightarrow> int \<times> 'w) \<Rightarrow> 'w \<Rightarrow> (goerr + int) \<times> 'w"
  srv_get :: "string \<Rightarrow> 'w \<Rightarrow> wire option"
  srv_del :: "string \<Rightarrow> 'w \<Rightarrow> int \<times> 'w"
  sql_exec :: "nat \<Rightarrow> string \<Rightarrow> gval list \<Rightarrow> 'w \<Rightarrow> goerr option \<times> 'w"
  sql_row :: "nat \<Rightarrow> string \<Rightarrow> gval list \<Rightarrow> 'w \<Rightarrow> (goerr + order) \<times> 'w"
  sql_query :: "nat \<Rightarrow> string \<Rightarrow> gval list \<Rightarrow> 'w \<Rightarrow> (goerr + gval list list \<times> goerr option) \<times> 'w"
  sql_ping :: "nat \<Rightarrow> 'w \<Rightarrow> goerr option \<times> 'w"
  sql_close :: "nat \<Rightarrow> 'w \<Rightarrow> 'w"
  kafka_write :: "string \<Rightarrow> kafka_message \<Rightarrow> 'w \<Rightarrow> goerr option \<times> 'w"
  kafka_dial :: "string \<Rightarrow> 'w \<Rightarrow> goerr option \<times> 'w"
  es_index_order :: "order \<Rightarrow> 'w \<Rightarrow> goerr option \<times> 'w"
  es_index_profile :: "user_profile \<Rightarrow> 'w \<Rightarrow> goerr option \<times> 'w"
  mongo_find :: "int \<Rightarrow> 'w \<Rightarrow> (goerr + user_profile) \<times> 'w"
  mongo_upsert :: "user_profile \<Rightarrow> 'w \<Rightarrow> goerr option \<times> 'w"
  log_compensation :: "string \<Rightarrow> string \<Rightarrow> wire \<Rightarrow> 'w \<Rightarrow> 'w"

text \<open>\<open>redis.Nil\<close>, \<open>sql.ErrNoRows\<close> and \<open>mongo.ErrNoDocuments\<close>.\<close>

definition redis_nil :: goerr where "redis_nil = Sentinel ''redis: nil''"
definition mongo_no_documents :: goerr where "mongo_no_documents = Sentinel ''mongo: no documents in result''"
definition sql_no_rows :: goerr where "sql_no_rows = Sentinel ''sql: no rows in result set''"

text \<open>The clock: reading it and the Redis calls do not turn it back, sleeping advances it.\<close>

definition clock_ok :: "'w services \<Rightarrow> ('w \<Rightarrow> time) \<Rightarrow> bool" where
  "clock_ok S clk \<longleftrightarrow>
     (\<forall>w. fst (sv_now S w) = clk w \<and> clk w \<le> clk (snd (sv_now S w))) \<and>
     (\<forall>d w. clk w + d \<le> clk (sv_sleep S d w)) \<and>
     (\<forall>n w. clk w \<le> clk (snd (sv_rand S n w))) \<and>
     (\<forall>k v d w. clk w \<le> clk (snd (rd_setnx S k v d w)))"

text \<open>
  Redis keys with an expiry. \<open>kv w k\<close> is the value of \<open>k\<close> and the instant it expires;
  \<open>live\<close> is what a command sees. A command takes effect at an instant between call and
  return, or fails having taken effect or not. A script runs as one command.
\<close>

definition live :: "time \<Rightarrow> (wire \<times> time) option \<Rightarrow> wire option" where
  "live t ent = (case ent of None \<Rightarrow> None | Some (v, e) \<Rightarrow> if t < e then Some v else None)"

definition leased :: "('w \<Rightarrow> time) \<Rightarrow> ('w \<Rightarrow> string \<Rightarrow> (wire \<times> time) option) \<Rightarrow> string \<Rightarrow> wire \<Rightarrow> duration \<Rightarrow>
    'w \<Rightarrow> 'w \<Rightarrow> bool" where
  "leased clk kv k v ttl w w' \<longleftrightarrow>
     (\<exists>t e. clk w \<le> t \<and> t \<le> clk w' \<and> live t (kv w k) = None \<and> t + ttl \<le> e \<and> kv w' = (kv w)(k \<mapsto> (v, e)))"

definition lease_ok :: "'w services \<Rightarrow> ('w \<Rightarrow> time) \<Rightarrow> ('w \<Rightarrow> string \<Rightarrow> (wire \<times> time) option) \<Rightarrow> bool" where
  "lease_ok S clk kv \<longleftrightarrow>
     (\<forall>k v ttl w. case rd_setnx S k v ttl w of
        (Inr True, w') \<Rightarrow> leased clk kv k v ttl w w'
      | (Inr False, w') \<Rightarrow> kv w' = kv w
      | (Inl e, w') \<Rightarrow> kv w' = kv w \<or> leased clk kv k v ttl w w') \<and>
     (\<forall>k w. srv_get S k w = live (clk w) (kv w k)) \<and>
     (\<forall>k w. kv (snd (srv_del S k w)) = (kv w)(k := None) \<and> clk (snd (srv_del S k w)) = clk w) \<and>
     (\<forall>f w. (\<forall>u. clk u \<le> clk (snd (f u))) \<longrightarrow> (\<exists>w1. clk w \<le> clk w1 \<and> kv w1 = kv w \<and> clk w1 \<le> clk (snd (rd_eval S f w)) \<and>
        (kv (snd (rd_eval S f w)) = kv w \<or> kv (snd (rd_eval S f w)) = kv (snd (f w1))))) \<and>
     (\<forall>w. kv (snd (sv_now S w)) = kv w) \<and>
     (\<forall>n w. kv (snd (sv_rand S n w)) = kv w)"

text \<open>
  The two stores as the cache sees them. \<open>l1v w k\<close> is the value last set for \<open>k\<close> in Ristretto
  and not deleted since; \<open>Get\<close> returns it or nothing (the entry was dropped, evicted, or has
  expired). A Redis write takes effect or fails. Nothing else changes either store.
\<close>

definition quiet :: "('w \<Rightarrow> string \<Rightarrow> gval option) \<Rightarrow> ('w \<Rightarrow> string \<Rightarrow> (wire \<times> time) option) \<Rightarrow> 'w \<Rightarrow> 'w \<Rightarrow> bool" where
  "quiet l1v kv w w' \<longleftrightarrow> l1v w' = l1v w \<and> kv w' = kv w"

definition redis_put :: "('w \<Rightarrow> string \<Rightarrow> gval option) \<Rightarrow> ('w \<Rightarrow> string \<Rightarrow> (wire \<times> time) option) \<Rightarrow> string \<Rightarrow> wire \<Rightarrow>
    'w \<Rightarrow> 'w \<Rightarrow> bool" where
  "redis_put l1v kv k v w w' \<longleftrightarrow> l1v w' = l1v w \<and> (kv w' = kv w \<or> (\<exists>e. kv w' = (kv w)(k \<mapsto> (v, e))))"

definition store_ok :: "'w services \<Rightarrow> ('w \<Rightarrow> string \<Rightarrow> gval option) \<Rightarrow> ('w \<Rightarrow> string \<Rightarrow> (wire \<times> time) option) \<Rightarrow> bool" where
  "store_ok S l1v kv \<longleftrightarrow>
     (\<forall>k w. quiet l1v kv w (snd (l1_get S k w)) \<and>
        (fst (l1_get S k w) = None \<or> fst (l1_get S k w) = l1v w k)) \<and>
     (\<forall>k v d w. l1v (l1_set S k v d w) = (l1v w)(k \<mapsto> v) \<and> kv (l1_set S k v d w) = kv w) \<and>
     (\<forall>w. quiet l1v kv w (l1_wait S w)) \<and>
     (\<forall>k w. l1v (l1_del S k w) = (l1v w)(k := None) \<and> kv (l1_del S k w) = kv w) \<and>
     (\<forall>k w. quiet l1v kv w (snd (rd_get S k w)) \<and>
        (\<forall>v. fst (rd_get S k w) = Inr v \<longrightarrow> (\<exists>e. kv w k = Some (v, e)))) \<and>
     (\<forall>k v d w. redis_put l1v kv k v w (rd_set S k v d w)) \<and>
     (\<forall>k v d w. redis_put l1v kv k v w (snd (rd_setnx S k v d w))) \<and>
     (\<forall>k w. l1v (rd_del S k w) = l1v w \<and> (kv (rd_del S k w) = kv w \<or> kv (rd_del S k w) = (kv w)(k := None))) \<and>
     (\<forall>w. quiet l1v kv w (snd (sv_now S w))) \<and>
     (\<forall>d w. quiet l1v kv w (sv_sleep S d w)) \<and>
     (\<forall>n w. quiet l1v kv w (snd (sv_rand S n w)))"

text \<open>Redis up: a read sees the live entry, a write with a positive expiry takes effect.\<close>

definition clock_fwd :: "'w services \<Rightarrow> ('w \<Rightarrow> time) \<Rightarrow> bool" where
  "clock_fwd S clk \<longleftrightarrow>
     (\<forall>k v d w. clk w \<le> clk (l1_set S k v d w)) \<and> (\<forall>w. clk w \<le> clk (l1_wait S w)) \<and>
     (\<forall>k v d w. clk w \<le> clk (rd_set S k v d w)) \<and> (\<forall>n w. clk w \<le> clk (snd (sv_rand S n w)))"

definition redis_up :: "'w services \<Rightarrow> ('w \<Rightarrow> time) \<Rightarrow> ('w \<Rightarrow> string \<Rightarrow> (wire \<times> time) option) \<Rightarrow> bool" where
  "redis_up S clk kv \<longleftrightarrow>
     (\<forall>k w. fst (rd_get S k w) = (case live (clk w) (kv w k) of None \<Rightarrow> Inl redis_nil | Some v \<Rightarrow> Inr v)) \<and>
     (\<forall>k v d w. 0 < d \<longrightarrow> (\<exists>e. clk w + d \<le> e \<and> kv (rd_set S k v d w) = (kv w)(k \<mapsto> (v, e))))"

lemma lease_setnx:
  "lease_ok S clk kv \<Longrightarrow>
     (case rd_setnx S k v ttl w of
        (Inr True, w') \<Rightarrow> leased clk kv k v ttl w w'
      | (Inr False, w') \<Rightarrow> kv w' = kv w
      | (Inl e, w') \<Rightarrow> kv w' = kv w \<or> leased clk kv k v ttl w w')"
  unfolding lease_ok_def by (erule conjE, drule spec, drule spec, drule spec, drule spec, assumption)

subsection \<open>A world that behaves as documented\<close>

record ref_world =
  rf_clock :: time
  rf_l1 :: "string \<rightharpoonup> gval \<times> time"
  rf_kv :: "string \<rightharpoonup> wire \<times> time"
  rf_rows :: "string \<rightharpoonup> order"
  rf_sent :: "(string \<times> kafka_message) list"
  rf_profiles :: "int \<rightharpoonup> user_profile"
  rf_users :: "user list"
  rf_open :: "nat list"

text \<open>An expiry of zero or less means none; a far instant stands for it.\<close>

definition ref_expiry :: "time \<Rightarrow> duration \<Rightarrow> time" where
  "ref_expiry t ttl = (if ttl \<le> 0 then t + 2 ^ 62 else t + ttl)"

definition ref_setnx :: "string \<Rightarrow> wire \<Rightarrow> duration \<Rightarrow> ref_world \<Rightarrow> (goerr + bool) \<times> ref_world" where
  "ref_setnx k v ttl w =
     (if live (rf_clock w) (rf_kv w k) = None
      then (Inr True, w\<lparr>rf_kv := (rf_kv w)(k \<mapsto> (v, ref_expiry (rf_clock w) ttl))\<rparr>)
      else (Inr False, w))"

definition ref_get :: "string \<Rightarrow> ref_world \<Rightarrow> (goerr + wire) \<times> ref_world" where
  "ref_get k w =
     (case live (rf_clock w) (rf_kv w k) of None \<Rightarrow> (Inl redis_nil, w) | Some v \<Rightarrow> (Inr v, w))"

definition ref_l1_get :: "string \<Rightarrow> ref_world \<Rightarrow> gval option \<times> ref_world" where
  "ref_l1_get k w =
     (case rf_l1 w k of None \<Rightarrow> (None, w) | Some (v, e) \<Rightarrow> (if rf_clock w < e then Some v else None, w))"

text \<open>An insert into \<open>orders\<close>, or the update of the row that has the number.\<close>

fun ref_int :: "gval \<Rightarrow> int" where "ref_int (GInt n) = n" | "ref_int _ = 0"
fun ref_str :: "gval \<Rightarrow> string" where "ref_str (GStr s) = s" | "ref_str _ = []"
fun ref_num :: "gval \<Rightarrow> f64" where "ref_num (GNum x) = x" | "ref_num _ = 0"
fun ref_time :: "gval \<Rightarrow> time" where "ref_time (GTimeText t) = t" | "ref_time _ = 0"

definition ref_exec :: "gval list \<Rightarrow> ref_world \<Rightarrow> ref_world" where
  "ref_exec args w =
     (case args of
        [u, no, a, st, c, up] \<Rightarrow>
          w\<lparr>rf_rows := (rf_rows w)(ref_str no \<mapsto>
            (case rf_rows w (ref_str no) of
               None \<Rightarrow> \<lparr>ord_id = 1, ord_user_id = ref_int u, ord_order_no = ref_str no, ord_amount = ref_num a,
                 ord_status = ref_str st, ord_created_at = ref_time c, ord_updated_at = ref_time up\<rparr>
             | Some old \<Rightarrow> old\<lparr>ord_amount := ref_num a, ord_status := ref_str st, ord_updated_at := ref_time up\<rparr>))\<rparr>
      | _ \<Rightarrow> w)"

definition ref_services :: "ref_world services" where
  "ref_services =
     \<lparr>sv_now = (\<lambda>w. (rf_clock w, w)),
      sv_sleep = (\<lambda>d w. w\<lparr>rf_clock := rf_clock w + d\<rparr>),
      sv_rand = (\<lambda>n w. (replicate n 7, w)),
      l1_get = ref_l1_get,
      l1_set = (\<lambda>k v ttl w. w\<lparr>rf_l1 := (rf_l1 w)(k \<mapsto> (v, ref_expiry (rf_clock w) ttl))\<rparr>),
      l1_wait = (\<lambda>w. w),
      l1_del = (\<lambda>k w. w\<lparr>rf_l1 := (rf_l1 w)(k := None)\<rparr>),
      rd_get = ref_get,
      rd_set = (\<lambda>k v ttl w. w\<lparr>rf_kv := (rf_kv w)(k \<mapsto> (v, ref_expiry (rf_clock w) ttl))\<rparr>),
      rd_setnx = ref_setnx,
      rd_del = (\<lambda>k w. w\<lparr>rf_kv := (rf_kv w)(k := None)\<rparr>),
      rd_publish = (\<lambda>ch m w. w),
      rd_eval = (\<lambda>f w. case f w of (n, w') \<Rightarrow> (Inr n, w')),
      srv_get = (\<lambda>k w. live (rf_clock w) (rf_kv w k)),
      srv_del = (\<lambda>k w. (1, w\<lparr>rf_kv := (rf_kv w)(k := None)\<rparr>)),
      sql_exec = (\<lambda>db q args w. (None, ref_exec args w)),
      sql_row = (\<lambda>db q args w.
        (case args of [GStr no] \<Rightarrow> (case rf_rows w no of None \<Rightarrow> Inl sql_no_rows | Some od \<Rightarrow> Inr od) | _ \<Rightarrow> Inl sql_no_rows, w)),
      sql_query = (\<lambda>db q args w. (Inr ([], None), w)),
      sql_ping = (\<lambda>db w. (None, w)),
      sql_close = (\<lambda>db w. w\<lparr>rf_open := removeAll db (rf_open w)\<rparr>),
      kafka_write = (\<lambda>topic m w. (None, w\<lparr>rf_sent := rf_sent w @ [(topic, m)]\<rparr>)),
      kafka_dial = (\<lambda>b w. (None, w)),
      es_index_order = (\<lambda>od w. (None, w)),
      es_index_profile = (\<lambda>u w. (None, w)),
      mongo_find = (\<lambda>uid w. (case rf_profiles w uid of None \<Rightarrow> Inl mongo_no_documents | Some u \<Rightarrow> Inr u, w)),
      mongo_upsert = (\<lambda>u w. (None, w\<lparr>rf_profiles := (rf_profiles w)(up_user_id u \<mapsto> u)\<rparr>)),
      log_compensation = (\<lambda>t k v w. w)\<rparr>"

definition ref_init :: "time \<Rightarrow> ref_world" where
  "ref_init t = \<lparr>rf_clock = t, rf_l1 = Map.empty, rf_kv = Map.empty, rf_rows = Map.empty, rf_sent = [], rf_profiles = Map.empty, rf_users = [], rf_open = []\<rparr>"

lemma ref_clock_ok: "clock_ok ref_services rf_clock"
  by (simp add: clock_ok_def ref_services_def ref_setnx_def)

lemma leased_ref:
  "live (rf_clock w) (rf_kv w k) = None \<Longrightarrow>
     leased rf_clock rf_kv k v ttl w (w\<lparr>rf_kv := (rf_kv w)(k \<mapsto> (v, ref_expiry (rf_clock w) ttl))\<rparr>)"
  unfolding leased_def
  by (intro exI [of _ "rf_clock w"] exI [of _ "ref_expiry (rf_clock w) ttl"]) (simp add: ref_expiry_def)

lemma ref_lease_setnx:
  "case rd_setnx ref_services k v ttl w of
     (Inr True, w') \<Rightarrow> leased rf_clock rf_kv k v ttl w w'
   | (Inr False, w') \<Rightarrow> rf_kv w' = rf_kv w
   | (Inl e, w') \<Rightarrow> rf_kv w' = rf_kv w \<or> leased rf_clock rf_kv k v ttl w w'"
  by (simp add: ref_services_def ref_setnx_def leased_ref)

lemma ref_lease_ok: "lease_ok ref_services rf_clock rf_kv"
  unfolding lease_ok_def
proof (intro conjI allI ref_lease_setnx impI)
  fix f :: "ref_world \<Rightarrow> int \<times> ref_world" and w
  assume "\<forall>u. rf_clock u \<le> rf_clock (snd (f u))"
  then show "\<exists>w1. rf_clock w \<le> rf_clock w1 \<and> rf_kv w1 = rf_kv w \<and>
      rf_clock w1 \<le> rf_clock (snd (rd_eval ref_services f w)) \<and>
      (rf_kv (snd (rd_eval ref_services f w)) = rf_kv w \<or>
       rf_kv (snd (rd_eval ref_services f w)) = rf_kv (snd (f w1)))"
    by (intro exI [of _ w]) (auto simp: ref_services_def split_beta)
qed (simp_all add: ref_services_def)

definition ref_l1v :: "ref_world \<Rightarrow> string \<Rightarrow> gval option" where
  "ref_l1v w k = map_option fst (rf_l1 w k)"

lemma ref_store_ok: "store_ok ref_services ref_l1v rf_kv"
  unfolding store_ok_def
  by (intro conjI allI impI)
    (auto simp: ref_services_def quiet_def redis_put_def ref_l1v_def ref_l1_get_def ref_get_def ref_setnx_def live_def
      fun_eq_iff split: option.splits if_splits)

lemma ref_redis_up: "redis_up ref_services rf_clock rf_kv"
  by (auto simp: redis_up_def ref_services_def ref_get_def ref_expiry_def split: option.splits)

lemma ref_clock_fwd: "clock_fwd ref_services rf_clock"
  by (simp add: clock_fwd_def ref_services_def)

end
