(* ===== verification/Lock.thy ===== *)
theory Lock
  imports Services
begin

section \<open>The distributed lock (internal/lock/distributed_lock.go)\<close>

text \<open>
  \<open>Lock\<close> repeats one attempt (\<open>lock_attempt\<close>) and sleeps 50 ms between attempts; the loop is
  a \<open>partial_function\<close>, so that not returning is \<open>None\<close>. \<open>Unlock\<close> runs the Lua script
  (\<open>unlock_script\<close>) atomically. The last section runs any number of clients against one
  key.
\<close>

definition random_hex :: "'w services \<Rightarrow> nat \<Rightarrow> 'w \<Rightarrow> string \<times> 'w" where
  "random_hex S n w =
     (case sv_rand S (n div 2 + 1) w of (b, w1) \<Rightarrow> (take n (hex_string b), w1))"

text \<open>The token: \<open>%d-%s\<close> of the clock and eight random hex digits.\<close>

definition lock_token :: "'w services \<Rightarrow> 'w \<Rightarrow> string \<times> 'w" where
  "lock_token S w =
     (case sv_now S w of (t, w1) \<Rightarrow>
      case random_hex S 8 w1 of (h, w2) \<Rightarrow> (dec_int t @ ''-'' @ h, w2))"

datatype attempt = Acquired | Failed goerr | Retry

definition lock_timeout :: "string \<Rightarrow> goerr" where
  "lock_timeout key = Errorf (''acquire lock timeout: '' @ key)"

text \<open>One iteration of the loop up to the sleep.\<close>

definition lock_attempt ::
  "'w services \<Rightarrow> string \<Rightarrow> string \<Rightarrow> duration \<Rightarrow> duration \<Rightarrow> time \<Rightarrow> 'w \<Rightarrow> attempt \<times> 'w" where
  "lock_attempt S key token ttl wait_timeout deadline w =
     (case rd_setnx S key (Raw token) ttl w of
        (Inl e, w1) \<Rightarrow> (Failed (Wrap ''redis setnx'' e), w1)
      | (Inr True, w1) \<Rightarrow> (Acquired, w1)
      | (Inr False, w1) \<Rightarrow>
          if wait_timeout = 0 then (Failed (lock_timeout key), w1)
          else (case sv_now S w1 of (now, w2) \<Rightarrow>
            if now > deadline then (Failed (lock_timeout key), w2) else (Retry, w2)))"

partial_function (option) lock_loop ::
  "'w services \<Rightarrow> string \<Rightarrow> string \<Rightarrow> duration \<Rightarrow> duration \<Rightarrow> time \<Rightarrow> 'w \<Rightarrow> ((goerr + string) \<times> 'w) option" where
  "lock_loop S key token ttl wait_timeout deadline w =
     (case lock_attempt S key token ttl wait_timeout deadline w of
        (Acquired, w1) \<Rightarrow> Some (Inr token, w1)
      | (Failed e, w1) \<Rightarrow> Some (Inl e, w1)
      | (Retry, w1) \<Rightarrow> lock_loop S key token ttl wait_timeout deadline (sv_sleep S (50 * millisecond) w1))"

definition lock_acquire ::
  "'w services \<Rightarrow> string \<Rightarrow> duration \<Rightarrow> duration \<Rightarrow> 'w \<Rightarrow> ((goerr + string) \<times> 'w) option" where
  "lock_acquire S key ttl wait_timeout w =
     (case lock_token S w of (token, w1) \<Rightarrow>
      case sv_now S w1 of (now, w2) \<Rightarrow>
        lock_loop S key token ttl wait_timeout (now + wait_timeout) w2)"

text \<open>The Lua script: compare, then delete.\<close>

definition unlock_script :: "'w services \<Rightarrow> string \<Rightarrow> string \<Rightarrow> 'w \<Rightarrow> int \<times> 'w" where
  "unlock_script S key token w =
     (if srv_get S key w = Some (Raw token) then srv_del S key w else (0, w))"

definition lock_release :: "'w services \<Rightarrow> string \<Rightarrow> string \<Rightarrow> 'w \<Rightarrow> goerr option \<times> 'w" where
  "lock_release S key token w =
     (case rd_eval S (unlock_script S key token) w of
        (Inl e, w1) \<Rightarrow> (Some (Wrap ''unlock'' e), w1)
      | (Inr n, w1) \<Rightarrow> (None, w1))"

text \<open>\<open>WithLock\<close>: the deferred \<open>Unlock\<close> runs after \<open>fn\<close> and its error is dropped.\<close>

definition with_lock ::
  "'w services \<Rightarrow> string \<Rightarrow> duration \<Rightarrow> duration \<Rightarrow> ('w \<Rightarrow> goerr option \<times> 'w) \<Rightarrow> 'w \<Rightarrow> (goerr option \<times> 'w) option" where
  "with_lock S key ttl wait_timeout fn w =
     (case lock_acquire S key ttl wait_timeout w of
        None \<Rightarrow> None
      | Some (Inl e, w1) \<Rightarrow> Some (Some e, w1)
      | Some (Inr token, w1) \<Rightarrow>
          (case fn w1 of (r, w2) \<Rightarrow> Some (r, snd (lock_release S key token w2))))"

subsection \<open>Lock returns\<close>

lemma lock_attempt_clock: "clock_ok S clk \<Longrightarrow> clk w \<le> clk (snd (lock_attempt S key token ttl wt dl w))"
  unfolding lock_attempt_def clock_ok_def
  by (auto split: prod.splits sum.splits bool.splits) (metis order_trans snd_conv)+

lemma lock_attempt_deadline:
  assumes "clock_ok S clk" "dl < clk w"
  shows "fst (lock_attempt S key token ttl wt dl w) \<noteq> Retry"
proof -
  have "dl < fst (sv_now S w1)" if "rd_setnx S key (Raw token) ttl w = (r, w1)" for r w1
  proof -
    have "clk w \<le> clk w1" using assms(1) that unfolding clock_ok_def by (metis snd_conv)
    with assms show ?thesis unfolding clock_ok_def by simp
  qed
  then show ?thesis by (auto simp: lock_attempt_def split: prod.splits sum.splits bool.splits)
qed

lemma lock_loop_returns:
  assumes "clock_ok S clk" "dl - clk w < int k * (50 * millisecond)"
  shows "\<exists>r w'. lock_loop S key token ttl wt dl w = Some (r, w') \<and>
    (r = Inr token \<or> r = Inl (lock_timeout key) \<or> (\<exists>e. r = Inl (Wrap ''redis setnx'' e)))"
  using assms(2)
proof (induction k arbitrary: w)
  case 0
  then have "fst (lock_attempt S key token ttl wt dl w) \<noteq> Retry"
    by (intro lock_attempt_deadline [OF assms(1)]) simp
  then show ?case
    by (subst lock_loop.simps) (auto simp: lock_attempt_def split: prod.splits sum.splits bool.splits if_splits)
next
  case (Suc k)
  obtain a w1 where a: "lock_attempt S key token ttl wt dl w = (a, w1)" by force
  show ?case
  proof (cases "a = Retry")
    case True
    let ?w2 = "sv_sleep S (50 * millisecond) w1"
    have "clk w \<le> clk w1" using lock_attempt_clock [OF assms(1)] a by (metis snd_conv)
    moreover have "clk w1 + 50 * millisecond \<le> clk ?w2" using assms(1) by (simp add: clock_ok_def)
    ultimately have "dl - clk ?w2 < int k * (50 * millisecond)"
      using Suc.prems by (simp add: distrib_right)
    from Suc.IH [OF this] a True show ?thesis by (subst lock_loop.simps) simp
  next
    case False
    with a show ?thesis
      by (subst lock_loop.simps) (auto simp: lock_attempt_def split: prod.splits sum.splits bool.splits if_splits)
  qed
qed

lemma lock_acquire_some:
  assumes "clock_ok S clk"
  shows "\<exists>r w'. lock_acquire S key ttl wait_timeout w = Some (r, w') \<and>
    ((\<exists>t. r = Inr t) \<or> r = Inl (lock_timeout key) \<or> (\<exists>e. r = Inl (Wrap ''redis setnx'' e)))"
proof -
  obtain token w1 where 1: "lock_token S w = (token, w1)" by force
  obtain now w2 where 2: "sv_now S w1 = (now, w2)" by force
  let ?d = "now + wait_timeout - clk w2"
  have "?d < int (nat (?d + 1)) * (50 * millisecond)" by (cases "0 \<le> ?d") (auto simp: millisecond_def)
  from lock_loop_returns [OF assms this, of key token ttl wait_timeout] 1 2 show ?thesis
    by (auto simp: lock_acquire_def)
qed

text \<open>
  C37: When time passes (each sleep takes at least its duration and the clock does not go back), Lock
  returns on every schedule, with a token, a timeout error or a wrapped Redis error.
\<close>

theorem lock_always_returns:
  assumes "clock_ok S clk"
  shows "\<exists>r w'. lock_acquire S key ttl wait_timeout w = Some (r, w') \<and>
    (\<forall>e. r = Inl e \<longrightarrow> e = lock_timeout key \<or> (\<exists>e'. e = Wrap ''redis setnx'' e'))"
  using lock_acquire_some [OF assms, of key ttl wait_timeout w] by auto

theorem lock_always_returns_witness:
  "\<exists>r w'. lock_acquire ref_services ''order:create:1'' (5 * second) (200 * millisecond) (ref_init 0) = Some (r, w')"
  using lock_always_returns [OF ref_clock_ok] by blast

subsection \<open>Mutual exclusion\<close>

text \<open>
  Any number of clients of one key. A client draws a token nobody has used (the random part),
  attempts until it holds the lock or gives up, and releases. A holder may count on its lease
  until the \<open>ttl\<close> after the instant its successful attempt began. Between two steps the world
  may move on by itself: the clock advances and other keys change.
\<close>

datatype lock_pc = LIdle | LTrying string duration duration time | LHolding string time

record 'w lock_sys =
  ls_world :: 'w
  ls_pc :: "nat \<Rightarrow> lock_pc"
  ls_used :: "string set"

inductive lock_step ::
  "'w services \<Rightarrow> ('w \<Rightarrow> time) \<Rightarrow> ('w \<Rightarrow> string \<Rightarrow> (wire \<times> time) option) \<Rightarrow> string \<Rightarrow> 'w lock_sys \<Rightarrow> 'w lock_sys \<Rightarrow> bool"
  for S clk kv key where
  begin_lock: "ls_pc s i = LIdle \<Longrightarrow> token \<notin> ls_used s \<Longrightarrow>
    lock_step S clk kv key s (s\<lparr>ls_pc := (ls_pc s)(i := LTrying token ttl wt dl), ls_used := insert token (ls_used s)\<rparr>)"
| got: "ls_pc s i = LTrying token ttl wt dl \<Longrightarrow> lock_attempt S key token ttl wt dl (ls_world s) = (Acquired, w') \<Longrightarrow>
    lock_step S clk kv key s
      (s\<lparr>ls_world := w', ls_pc := (ls_pc s)(i := LHolding token (clk (ls_world s) + ttl))\<rparr>)"
| failed: "ls_pc s i = LTrying token ttl wt dl \<Longrightarrow> lock_attempt S key token ttl wt dl (ls_world s) = (Failed e, w') \<Longrightarrow>
    lock_step S clk kv key s (s\<lparr>ls_world := w', ls_pc := (ls_pc s)(i := LIdle)\<rparr>)"
| retry: "ls_pc s i = LTrying token ttl wt dl \<Longrightarrow> lock_attempt S key token ttl wt dl (ls_world s) = (Retry, w') \<Longrightarrow>
    lock_step S clk kv key s (s\<lparr>ls_world := w'\<rparr>)"
| release: "ls_pc s i = LHolding token u \<Longrightarrow> lock_release S key token (ls_world s) = (r, w') \<Longrightarrow>
    lock_step S clk kv key s (s\<lparr>ls_world := w', ls_pc := (ls_pc s)(i := LIdle)\<rparr>)"
| env: "clk (ls_world s) \<le> clk w' \<Longrightarrow> kv w' key = kv (ls_world s) key \<Longrightarrow>
    lock_step S clk kv key s (s\<lparr>ls_world := w'\<rparr>)"

definition lock_init :: "'w \<Rightarrow> 'w lock_sys" where
  "lock_init w = \<lparr>ls_world = w, ls_pc = (\<lambda>_. LIdle), ls_used = {}\<rparr>"

inductive lock_reach for S clk kv key w0 where
  start: "lock_reach S clk kv key w0 (lock_init w0)"
| step: "lock_reach S clk kv key w0 s \<Longrightarrow> lock_step S clk kv key s s' \<Longrightarrow> lock_reach S clk kv key w0 s'"

fun pc_token :: "lock_pc \<Rightarrow> string option" where
  "pc_token LIdle = None"
| "pc_token (LTrying token ttl wt dl) = Some token"
| "pc_token (LHolding token u) = Some token"

definition holds_lease :: "('w \<Rightarrow> time) \<Rightarrow> ('w \<Rightarrow> string \<Rightarrow> (wire \<times> time) option) \<Rightarrow> string \<Rightarrow> 'w \<Rightarrow> string \<Rightarrow> time \<Rightarrow> bool" where
  "holds_lease clk kv key w token u \<longleftrightarrow> u \<le> clk w \<or> (\<exists>e. u \<le> e \<and> kv w key = Some (Raw token, e))"

definition lock_inv :: "('w \<Rightarrow> time) \<Rightarrow> ('w \<Rightarrow> string \<Rightarrow> (wire \<times> time) option) \<Rightarrow> string \<Rightarrow> 'w lock_sys \<Rightarrow> bool" where
  "lock_inv clk kv key s \<longleftrightarrow>
     (\<forall>i t. pc_token (ls_pc s i) = Some t \<longrightarrow> t \<in> ls_used s) \<and>
     (\<forall>i j t. pc_token (ls_pc s i) = Some t \<longrightarrow> pc_token (ls_pc s j) = Some t \<longrightarrow> i = j) \<and>
     (\<forall>i token u. ls_pc s i = LHolding token u \<longrightarrow> holds_lease clk kv key (ls_world s) token u)"

lemma attempt_effect:
  assumes "lease_ok S clk kv" "lock_attempt S key token ttl wt dl w = (a, w')"
  shows "leased clk kv key (Raw token) ttl w w' \<or> a \<noteq> Acquired \<and> kv w' = kv w"
proof -
  obtain r w1 where r: "rd_setnx S key (Raw token) ttl w = (r, w1)" by force
  have now: "kv (snd (sv_now S w1)) = kv w1" using assms(1) by (simp add: lease_ok_def)
  have "case (r, w1) of (Inr True, w') \<Rightarrow> leased clk kv key (Raw token) ttl w w' | (Inr False, w') \<Rightarrow> kv w' = kv w
      | (Inl e, w') \<Rightarrow> kv w' = kv w \<or> leased clk kv key (Raw token) ttl w w'"
    using lease_setnx [OF assms(1), where k = key and v = "Raw token" and ttl = ttl and w = w]
    by (simp only: r)
  with assms(2) r now show ?thesis
    by (auto simp: lock_attempt_def split: sum.splits bool.splits prod.splits if_splits)
qed

lemma leased_keeps:
  "holds_lease clk kv key w t u \<Longrightarrow> leased clk kv key v ttl w w' \<Longrightarrow> holds_lease clk kv key w' t u"
  by (auto simp: holds_lease_def leased_def live_def split: if_splits)

lemma leased_holds:
  "leased clk kv key (Raw t) ttl w w' \<Longrightarrow> holds_lease clk kv key w' t (clk w + ttl)"
  by (fastforce simp: holds_lease_def leased_def)

lemma same_keeps:
  "holds_lease clk kv key w t u \<Longrightarrow> kv w' key = kv w key \<Longrightarrow> clk w \<le> clk w' \<Longrightarrow> holds_lease clk kv key w' t u"
  by (auto simp: holds_lease_def)

lemma release_effect:
  assumes "lease_ok S clk kv" "lock_release S key token w = (r, w')"
  shows "clk w \<le> clk w' \<and> (kv w' = kv w \<or> (\<exists>e. kv w key = Some (Raw token, e)) \<and> kv w' = (kv w)(key := None))"
proof -
  let ?f = "unlock_script S key token"
  have del: "kv (snd (srv_del S k u)) = (kv u)(k := None)" "clk (snd (srv_del S k u)) = clk u"
    "srv_get S k u = live (clk u) (kv u k)" for k u
    using assms(1) by (simp_all add: lease_ok_def)
  have "\<forall>u. clk u \<le> clk (snd (?f u))" by (simp add: unlock_script_def del)
  moreover have w': "w' = snd (rd_eval S ?f w)"
    using assms(2) by (auto simp: lock_release_def split: prod.splits sum.splits)
  ultimately obtain w1 where w1: "clk w \<le> clk w1" "kv w1 = kv w" "clk w1 \<le> clk w'"
    "kv w' = kv w \<or> kv w' = kv (snd (?f w1))"
    using assms(1) unfolding lease_ok_def by blast
  moreover have "kv (snd (?f w1)) = kv w1 \<or> (\<exists>e. kv w1 key = Some (Raw token, e)) \<and> kv (snd (?f w1)) = (kv w1)(key := None)"
    by (auto simp: unlock_script_def del live_def split: option.splits if_splits)
  ultimately show ?thesis by auto
qed

lemma release_keeps:
  assumes "lease_ok S clk kv" "lock_release S key token w = (r, w')" "holds_lease clk kv key w t u" "t \<noteq> token"
  shows "holds_lease clk kv key w' t u"
  using release_effect [OF assms(1,2)] assms(3,4) by (auto simp: holds_lease_def)

lemma attempt_clock: "clock_ok S clk \<Longrightarrow> lock_attempt S key token ttl wt dl w = (a, w') \<Longrightarrow> clk w \<le> clk w'"
  by (metis lock_attempt_clock snd_conv)

lemma attempt_keeps:
  assumes "lease_ok S clk kv" "clock_ok S clk" "lock_attempt S key token ttl wt dl w = (a, w')" "holds_lease clk kv key w t u"
  shows "holds_lease clk kv key w' t u"
  using attempt_effect [OF assms(1,3)] attempt_clock [OF assms(2,3)] leased_keeps [OF assms(4)] same_keeps [OF assms(4)]
  by metis

lemma lock_step_inv:
  assumes "lock_step S clk kv key s s'" "lease_ok S clk kv" "clock_ok S clk" "lock_inv clk kv key s"
  shows "lock_inv clk kv key s'"
  using assms(1,4)
proof (induction rule: lock_step.induct)
  case (begin_lock s i token ttl wt dl)
  then show ?case by (auto simp: lock_inv_def)
next
  case (got s i token ttl wt dl w')
  have "holds_lease clk kv key w' token (clk (ls_world s) + ttl)"
    by (rule leased_holds) (use attempt_effect [OF assms(2) got(2)] in simp)
  moreover have "holds_lease clk kv key w' t u" if "holds_lease clk kv key (ls_world s) t u" for t u
    by (rule attempt_keeps [OF assms(2,3) got(2) that])
  ultimately show ?case using got(1,3) by (auto simp: lock_inv_def) (metis pc_token.simps(2))+
next
  case (failed s i token ttl wt dl e w')
  have "holds_lease clk kv key w' t u" if "holds_lease clk kv key (ls_world s) t u" for t u
    by (rule attempt_keeps [OF assms(2,3) failed(2) that])
  with failed(1,3) show ?case by (auto simp: lock_inv_def)
next
  case (retry s i token ttl wt dl w')
  have "holds_lease clk kv key w' t u" if "holds_lease clk kv key (ls_world s) t u" for t u
    by (rule attempt_keeps [OF assms(2,3) retry(2) that])
  with retry(3) show ?case by (auto simp: lock_inv_def)
next
  case (release s i token u r w')
  have "t \<noteq> token" if "pc_token (ls_pc s j) = Some t" "j \<noteq> i" for j t
    using release(1,3) that unfolding lock_inv_def by (metis pc_token.simps(3))
  then have "holds_lease clk kv key w' t v" if "ls_pc s j = LHolding t v" "j \<noteq> i" for j t v
    using that release(3) release_keeps [OF assms(2) release(2)] unfolding lock_inv_def by (metis pc_token.simps(3))
  with release(1,3) show ?case by (auto simp: lock_inv_def)
next
  case (env s w')
  then have "holds_lease clk kv key w' t u" if "holds_lease clk kv key (ls_world s) t u" for t u
    using same_keeps [of clk kv key "ls_world s" t u w', OF that] by simp
  with env(3) show ?case by (auto simp: lock_inv_def)
qed

lemma lock_reach_inv:
  "lock_reach S clk kv key w0 s \<Longrightarrow> lease_ok S clk kv \<Longrightarrow> clock_ok S clk \<Longrightarrow> lock_inv clk kv key s"
  by (induction rule: lock_reach.induct) (auto simp: lock_init_def lock_inv_def dest: lock_step_inv [unfolded lock_inv_def])

text \<open>
  C2: In every state reachable by any number of clients that lock, retry, fail and unlock one key
  while the world moves on, at most one client holds the lock within its lease.
\<close>

theorem lock_mutual_exclusion:
  assumes "lock_reach S clk kv key w0 s" "lease_ok S clk kv" "clock_ok S clk"
    and "ls_pc s i = LHolding t u" "ls_pc s j = LHolding t' u'"
    and "clk (ls_world s) < u" "clk (ls_world s) < u'"
  shows "i = j"
proof -
  have inv: "lock_inv clk kv key s" by (rule lock_reach_inv [OF assms(1-3)])
  then have "holds_lease clk kv key (ls_world s) t u" "holds_lease clk kv key (ls_world s) t' u'"
    using assms(4,5) unfolding lock_inv_def by blast+
  with assms(6,7) have "t = t'" by (auto simp: holds_lease_def)
  with inv assms(4,5) show ?thesis unfolding lock_inv_def by (metis pc_token.simps(3))
qed

lemma ref_init_clock: "rf_clock ((ref_init 0)\<lparr>rf_kv := m\<rparr>) = 0"
  by (simp add: ref_init_def)

lemma sample_lock_reach:
  "lock_reach ref_services rf_clock rf_kv ''k'' (ref_init 0)
     (\<lparr>ls_world = (ref_init 0)\<lparr>rf_kv := [''k'' \<mapsto> (Raw ''t'', 5)]\<rparr>, ls_pc = (\<lambda>_. LIdle)(0 := LHolding ''t'' 5), ls_used = {''t''}\<rparr>)"
proof -
  have 1: "lock_reach ref_services rf_clock rf_kv ''k'' (ref_init 0)
      (lock_init (ref_init 0)\<lparr>ls_pc := (\<lambda>_. LIdle)(0 := LTrying ''t'' 5 0 0), ls_used := {''t''}\<rparr>)"
    using lock_step.begin_lock [of "lock_init (ref_init 0)" 0 "''t''"]
    by (intro lock_reach.step [OF lock_reach.start]) (simp add: lock_init_def)
  show ?thesis
    using lock_reach.step [OF 1 lock_step.got [of _ 0 "''t''" 5 0 0]]
    by (simp add: lock_attempt_def ref_services_def ref_setnx_def ref_init_def live_def ref_expiry_def lock_init_def)
qed

theorem lock_mutual_exclusion_witness:
  "\<exists>s. lock_reach ref_services rf_clock rf_kv ''k'' (ref_init 0) s \<and> rf_clock (ls_world s) < 5 \<and>
     {i. ls_pc s i = LHolding ''t'' 5} = {0}"
proof -
  obtain s where s: "lock_reach ref_services rf_clock rf_kv ''k'' (ref_init 0) s"
    "ls_pc s 0 = LHolding ''t'' 5" "rf_clock (ls_world s) < 5"
    using sample_lock_reach by (metis fun_upd_same lock_sys.select_convs(1,2) ref_init_clock zero_less_numeral)
  have "i = 0" if "ls_pc s i = LHolding ''t'' 5" for i
    by (rule lock_mutual_exclusion [OF s(1) ref_lease_ok ref_clock_ok that s(2,3,3)])
  with s show ?thesis by blast
qed

end
