(* ===== verification/Cache.thy ===== *)
theory Cache
  imports Lock Hot_Key Config
begin

section \<open>The multi-level cache (internal/cache/multi_level_cache.go)\<close>

text \<open>
  \<open>MultiLevelCache\<close>: L1 (Ristretto), L2 (Redis, may be absent), the loader, the hot-key
  detector, the counters (\<open>uint64\<close>), the eviction channel and the delayed deletions that
  \<open>InvalidateWithDelay\<close> leaves to goroutines. L1 and L2 are reached through the services.
  A panic of the detector makes \<open>Get\<close> \<open>None\<close>.
\<close>

definition null_marker :: string where "null_marker = ''__NULL__''"

record 'w mlc =
  mc_l2 :: bool
  mc_loader :: "(string \<Rightarrow> 'w \<Rightarrow> (goerr + gval) \<times> 'w) option"
  mc_hot_keys :: "detector option"
  mc_l1_base_ttl :: duration
  mc_l2_base_ttl :: duration
  mc_jitter_pct :: f64
  mc_null_ttl :: duration
  mc_lock_key_prefix :: string
  mc_lock_ttl :: duration
  mc_lock_retry_wait :: duration
  mc_l1_hits :: "64 word"
  mc_l2_hits :: "64 word"
  mc_misses :: "64 word"
  mc_l1_total :: "64 word"
  mc_evictions :: nat
  mc_closed :: bool
  mc_delayed :: "(string \<times> duration) list"

definition new_cache ::
  "bool \<Rightarrow> (string \<Rightarrow> 'w \<Rightarrow> (goerr + gval) \<times> 'w) option \<Rightarrow> detector option \<Rightarrow> 'w mlc" where
  "new_cache l2 ld hot =
     \<lparr>mc_l2 = l2, mc_loader = ld, mc_hot_keys = hot,
      mc_l1_base_ttl = 30 * second, mc_l2_base_ttl = 30 * minute, mc_jitter_pct = fl (2 / 10),
      mc_null_ttl = 60 * second, mc_lock_key_prefix = ''cache:lock:'', mc_lock_ttl = 10 * second,
      mc_lock_retry_wait = 50 * millisecond,
      mc_l1_hits = 0, mc_l2_hits = 0, mc_misses = 0, mc_l1_total = 0,
      mc_evictions = 0, mc_closed = False, mc_delayed = []\<rparr>"

definition set_jitter_pct :: "f64 \<Rightarrow> 'w mlc \<Rightarrow> 'w mlc" where
  "set_jitter_pct pct mc = mc\<lparr>mc_jitter_pct := pct\<rparr>"

definition set_null_ttl :: "duration \<Rightarrow> 'w mlc \<Rightarrow> 'w mlc" where
  "set_null_ttl ttl mc = mc\<lparr>mc_null_ttl := ttl\<rparr>"

definition set_l1_base_ttl :: "duration \<Rightarrow> 'w mlc \<Rightarrow> 'w mlc" where
  "set_l1_base_ttl base mc = mc\<lparr>mc_l1_base_ttl := base\<rparr>"

definition set_l2_base_ttl :: "duration \<Rightarrow> 'w mlc \<Rightarrow> 'w mlc" where
  "set_l2_base_ttl base mc = mc\<lparr>mc_l2_base_ttl := base\<rparr>"

text \<open>\<open>l1TTL\<close> and \<open>l2TTL\<close>; without a positive percentage no random bytes are drawn.\<close>

definition jitter_now :: "'w services \<Rightarrow> duration \<Rightarrow> f64 \<Rightarrow> 'w \<Rightarrow> duration \<times> 'w" where
  "jitter_now S base pct w =
     (if pct \<le> 0 then (base, w)
      else case sv_rand S 8 w of (b, w1) \<Rightarrow> (jitter_duration b base pct, w1))"

definition l1_ttl :: "'w services \<Rightarrow> 'w mlc \<Rightarrow> 'w \<Rightarrow> duration \<times> 'w" where
  "l1_ttl S mc w = jitter_now S (mc_l1_base_ttl mc) (mc_jitter_pct mc) w"

definition l2_ttl :: "'w services \<Rightarrow> 'w mlc \<Rightarrow> 'w \<Rightarrow> duration \<times> 'w" where
  "l2_ttl S mc w = jitter_now S (mc_l2_base_ttl mc) (mc_jitter_pct mc) w"

text \<open>\<open>parseValue\<close>: a text that is no JSON stands for itself.\<close>

fun parse_value :: "wire \<Rightarrow> gval" where
  "parse_value (Raw s) = GStr s"
| "parse_value (JText j) = unmarshal_any j"

text \<open>The writes to the two levels, as the operations perform them.\<close>

definition fill_l1 :: "'w services \<Rightarrow> 'w mlc \<Rightarrow> string \<Rightarrow> gval \<Rightarrow> 'w \<Rightarrow> 'w" where
  "fill_l1 S mc key v w = (case l1_ttl S mc w of (ttl, w1) \<Rightarrow> l1_wait S (l1_set S key v ttl w1))"

definition fill_l2 :: "'w services \<Rightarrow> 'w mlc \<Rightarrow> string \<Rightarrow> gval \<Rightarrow> 'w \<Rightarrow> 'w" where
  "fill_l2 S mc key v w =
     (if mc_l2 mc then (case l2_ttl S mc w of (ttl, w1) \<Rightarrow> rd_set S key (JText (marshal v)) ttl w1) else w)"

definition null_l2 :: "'w services \<Rightarrow> 'w mlc \<Rightarrow> string \<Rightarrow> 'w \<Rightarrow> 'w" where
  "null_l2 S mc key w = (if mc_l2 mc then rd_set S key (Raw null_marker) (mc_null_ttl mc) w else w)"

definition null_l1 :: "'w services \<Rightarrow> 'w mlc \<Rightarrow> string \<Rightarrow> 'w \<Rightarrow> 'w" where
  "null_l1 S mc key w = l1_set S key (GStr null_marker) (mc_null_ttl mc) w"

definition cache_set :: "'w services \<Rightarrow> 'w mlc \<Rightarrow> string \<Rightarrow> gval \<Rightarrow> 'w \<Rightarrow> 'w" where
  "cache_set S mc key v w = fill_l2 S mc key v (fill_l1 S mc key v w)"

definition cache_set_null :: "'w services \<Rightarrow> 'w mlc \<Rightarrow> string \<Rightarrow> 'w \<Rightarrow> 'w" where
  "cache_set_null S mc key w = null_l2 S mc key (l1_wait S (null_l1 S mc key w))"

subsection \<open>Reading\<close>

type_synonym get_result = "gval \<times> bool \<times> goerr option"

text \<open>The null marker is written to L1 without waiting here.\<close>

definition load_from_db :: "'w services \<Rightarrow> 'w mlc \<Rightarrow> string \<Rightarrow> 'w \<Rightarrow> get_result \<times> 'w" where
  "load_from_db S mc key w =
     (case mc_loader mc of
        None \<Rightarrow> ((GNil, False, Some (Errorf ''no data loader configured'')), w)
      | Some ld \<Rightarrow>
          (case ld key w of
             (Inl e, w1) \<Rightarrow> ((GNil, False, Some e), w1)
           | (Inr data, w1) \<Rightarrow>
               if data = GNil then ((GNil, True, None), null_l1 S mc key (null_l2 S mc key w1))
               else ((data, True, None), fill_l1 S mc key data (fill_l2 S mc key data w1))))"

definition lock_key :: "'w mlc \<Rightarrow> string \<Rightarrow> string" where
  "lock_key mc key = mc_lock_key_prefix mc @ key"

definition load_with_lock :: "'w services \<Rightarrow> 'w mlc \<Rightarrow> string \<Rightarrow> 'w \<Rightarrow> get_result \<times> 'w" where
  "load_with_lock S mc key w =
     (if \<not> mc_l2 mc then load_from_db S mc key w
      else
        (case rd_setnx S (lock_key mc key) (Raw ''1'') (mc_lock_ttl mc) w of
           (Inl e, w1) \<Rightarrow> ((GNil, False, Some e), w1)
         | (Inr True, w1) \<Rightarrow>
             (case load_from_db S mc key w1 of (r, w2) \<Rightarrow> (r, rd_del S (lock_key mc key) w2))
         | (Inr False, w1) \<Rightarrow>
             (case rd_get S key (sv_sleep S (mc_lock_retry_wait mc) w1) of
                (Inr val, w2) \<Rightarrow>
                  (if val = Raw null_marker then (GNil, True, None) else (parse_value val, True, None), w2)
              | (Inl e, w2) \<Rightarrow> ((GNil, False, None), w2))))"

text \<open>The part of \<open>Get\<close> after both levels missed.\<close>

definition get_miss :: "'w services \<Rightarrow> 'w mlc \<Rightarrow> string \<Rightarrow> 'w \<Rightarrow> (get_result \<times> 'w mlc \<times> 'w) option" where
  "get_miss S mc key w =
     (case mc_hot_keys mc of
        None \<Rightarrow>
          (let mc1 = mc\<lparr>mc_misses := mc_misses mc + 1\<rparr>
           in case load_from_db S mc1 key w of (r, w1) \<Rightarrow> Some (r, mc1, w1))
      | Some h \<Rightarrow>
          (case sv_now S w of (now, w1) \<Rightarrow>
           case record_access key now h of
             None \<Rightarrow> None
           | Some (hot, h') \<Rightarrow>
               (let mc1 = mc\<lparr>mc_hot_keys := Some h', mc_misses := mc_misses mc + 1\<rparr>
                in case (if hot then load_with_lock S mc1 key w1 else load_from_db S mc1 key w1) of
                     (r, w2) \<Rightarrow> Some (r, mc1, w2))))"

definition cache_get :: "'w services \<Rightarrow> 'w mlc \<Rightarrow> string \<Rightarrow> 'w \<Rightarrow> (get_result \<times> 'w mlc \<times> 'w) option" where
  "cache_get S mc0 key w =
     (let mc = mc0\<lparr>mc_l1_total := mc_l1_total mc0 + 1\<rparr>
      in case l1_get S key w of
           (Some v, w1) \<Rightarrow>
             Some (if v = GStr null_marker then (GNil, True, None) else (v, True, None),
                   mc\<lparr>mc_l1_hits := mc_l1_hits mc + 1\<rparr>, w1)
         | (None, w1) \<Rightarrow>
             if mc_l2 mc then
               (case rd_get S key w1 of
                  (Inr val, w2) \<Rightarrow>
                    (let mc1 = mc\<lparr>mc_l2_hits := mc_l2_hits mc + 1\<rparr>
                     in if val = Raw null_marker
                        then Some ((GNil, True, None), mc1, l1_wait S (null_l1 S mc1 key w2))
                        else Some ((parse_value val, True, None), mc1, fill_l1 S mc1 key (parse_value val) w2))
                | (Inl e, w2) \<Rightarrow> get_miss S mc key w2)
             else get_miss S mc key w1)"

subsection \<open>Invalidation\<close>

definition invalidate :: "'w services \<Rightarrow> 'w mlc \<Rightarrow> string \<Rightarrow> 'w \<Rightarrow> 'w" where
  "invalidate S mc key w =
     (let w1 = l1_del S key w in if mc_l2 mc then rd_del S key w1 else w1)"

text \<open>The deletion \<open>InvalidateWithDelay\<close> performs at once and again in its goroutine.\<close>

definition delete_both :: "'w services \<Rightarrow> 'w mlc \<Rightarrow> string \<Rightarrow> 'w \<Rightarrow> 'w" where
  "delete_both S mc key w = l1_del S key (if mc_l2 mc then rd_del S key w else w)"

definition invalidate_with_delay :: "'w services \<Rightarrow> string \<Rightarrow> int \<Rightarrow> 'w mlc \<times> 'w \<Rightarrow> 'w mlc \<times> 'w" where
  "invalidate_with_delay S key delay_ms = (\<lambda>(mc, w).
     (mc\<lparr>mc_delayed := mc_delayed mc @ [(key, s64 (delay_ms * millisecond))]\<rparr>, delete_both S mc key w))"

text \<open>One of the pending goroutines wakes up.\<close>

definition delayed_delete :: "'w services \<Rightarrow> nat \<Rightarrow> 'w mlc \<times> 'w \<Rightarrow> 'w mlc \<times> 'w" where
  "delayed_delete S i = (\<lambda>(mc, w).
     if i < length (mc_delayed mc)
     then (mc\<lparr>mc_delayed := take i (mc_delayed mc) @ drop (Suc i) (mc_delayed mc)\<rparr>,
           delete_both S mc (fst (mc_delayed mc ! i)) w)
     else (mc, w))"

definition broadcast_eviction :: "'w services \<Rightarrow> 'w mlc \<Rightarrow> string \<Rightarrow> 'w \<Rightarrow> 'w" where
  "broadcast_eviction S mc key w =
     (let w1 = l1_del S key w in if mc_l2 mc then rd_publish S ''cache:eviction'' key w1 else w1)"

text \<open>Closing a closed channel panics, and so does a send on it, in a \<open>select\<close> with a default too.\<close>

definition cache_close :: "'w mlc \<Rightarrow> 'w mlc option" where
  "cache_close mc = (if mc_closed mc then None else Some (mc\<lparr>mc_closed := True\<rparr>))"

definition receive_eviction :: "'w services \<Rightarrow> string \<Rightarrow> 'w mlc \<times> 'w \<Rightarrow> ('w mlc \<times> 'w) option" where
  "receive_eviction S key = (\<lambda>(mc, w).
     if mc_closed mc then None
     else Some (if mc_evictions mc < 1024 then mc\<lparr>mc_evictions := mc_evictions mc + 1\<rparr> else mc,
                l1_del S key w))"

subsection \<open>Counters\<close>

definition l1_hit_rate :: "'w mlc \<Rightarrow> f64" where
  "l1_hit_rate mc =
     (if mc_l1_total mc = 0 then 0
      else fl (f_of_int (uint (mc_l1_hits mc)) / f_of_int (uint (mc_l1_total mc))))"

record cache_stats =
  st_l1_hits :: "64 word"
  st_l2_hits :: "64 word"
  st_misses :: "64 word"
  st_total :: "64 word"
  st_l1_hit_rate :: f64
  st_combo_hit_rate :: f64

definition cache_stats_of :: "'w mlc \<Rightarrow> cache_stats" where
  "cache_stats_of mc =
     \<lparr>st_l1_hits = mc_l1_hits mc, st_l2_hits = mc_l2_hits mc, st_misses = mc_misses mc,
      st_total = mc_l1_total mc, st_l1_hit_rate = l1_hit_rate mc,
      st_combo_hit_rate =
        (if mc_l1_total mc > 0
         then fl (f_of_int (uint (mc_l1_hits mc + mc_l2_hits mc)) / f_of_int (uint (mc_l1_total mc)))
         else 0)\<rparr>"

subsection \<open>Runs of a cache\<close>

text \<open>
  \<open>CEnv f\<close> is anything the rest of the world does in between. \<open>None\<close> is the state after a
  panic of the detector.
\<close>

datatype 'w cache_op =
    CGet string | CSet string gval | CSetNull string | CInvalidate string
  | CInvalidateDelay string int | CDelayed nat | CEnv "'w \<Rightarrow> 'w"

fun cache_step :: "'w services \<Rightarrow> ('w mlc \<times> 'w) option \<Rightarrow> 'w cache_op \<Rightarrow> ('w mlc \<times> 'w) option" where
  "cache_step S None c = None"
| "cache_step S (Some (mc, w)) (CGet key) = map_option snd (cache_get S mc key w)"
| "cache_step S (Some (mc, w)) (CSet key v) = Some (mc, cache_set S mc key v w)"
| "cache_step S (Some (mc, w)) (CSetNull key) = Some (mc, cache_set_null S mc key w)"
| "cache_step S (Some (mc, w)) (CInvalidate key) = Some (mc, invalidate S mc key w)"
| "cache_step S (Some (mc, w)) (CInvalidateDelay key ms) = Some (invalidate_with_delay S key ms (mc, w))"
| "cache_step S (Some (mc, w)) (CDelayed i) = Some (delayed_delete S i (mc, w))"
| "cache_step S (Some (mc, w)) (CEnv f) = Some (mc, f w)"

definition counters_ok :: "'w mlc \<Rightarrow> bool" where
  "counters_ok mc \<longleftrightarrow> mc_l1_total mc = mc_l1_hits mc + mc_l2_hits mc + mc_misses mc"

definition detector_fine :: "detector option \<Rightarrow> bool" where
  "detector_fine h = (case h of None \<Rightarrow> True | Some h \<Rightarrow> hk_inv h)"

lemma get_miss_some:
  assumes "detector_fine (mc_hot_keys mc)"
  shows "\<exists>r mc' w'. get_miss S mc key w = Some (r, mc', w') \<and> detector_fine (mc_hot_keys mc') \<and>
    mc_l1_total mc' = mc_l1_total mc \<and> mc_l1_hits mc' = mc_l1_hits mc \<and> mc_l2_hits mc' = mc_l2_hits mc \<and>
    mc_misses mc' = mc_misses mc + 1"
proof (cases "mc_hot_keys mc")
  case None
  obtain v f e u where "load_from_db S (mc\<lparr>mc_misses := mc_misses mc + 1\<rparr>) key w = ((v, f, e), u)"
    by (metis prod.collapse)
  with None show ?thesis by (simp add: get_miss_def detector_fine_def Let_def)
next
  case (Some h)
  obtain now w1 where now: "sv_now S w = (now, w1)" by force
  have "hk_inv h" using assms Some by (simp add: detector_fine_def)
  then obtain hot h' where "record_access key now h = Some (hot, h')" "hk_inv h'"
    using record_access_inv by blast
  moreover obtain v f e u where "(if hot then load_with_lock S (mc\<lparr>mc_hot_keys := Some h', mc_misses := mc_misses mc + 1\<rparr>) key w1
      else load_from_db S (mc\<lparr>mc_hot_keys := Some h', mc_misses := mc_misses mc + 1\<rparr>) key w1) = ((v, f, e), u)"
    by (metis prod.collapse)
  ultimately show ?thesis using Some now by (simp add: get_miss_def detector_fine_def Let_def)
qed

lemma cache_get_some:
  assumes "detector_fine (mc_hot_keys mc)" "counters_ok mc"
  shows "\<exists>r mc' w'. cache_get S mc key w = Some (r, mc', w') \<and> detector_fine (mc_hot_keys mc') \<and> counters_ok mc'"
proof -
  let ?mc = "mc\<lparr>mc_l1_total := mc_l1_total mc + 1\<rparr>"
  have miss: "\<exists>r mc' w'. get_miss S ?mc key u = Some (r, mc', w') \<and> detector_fine (mc_hot_keys mc') \<and> counters_ok mc'" for u
    using get_miss_some [of ?mc S key u] assms by (auto simp: counters_ok_def)
  show ?thesis using assms miss
    by (auto simp: cache_get_def counters_ok_def Let_def split: prod.splits option.splits sum.splits)
qed

lemma cache_step_counters:
  "\<exists>mc w. s = Some (mc, w) \<and> detector_fine (mc_hot_keys mc) \<and> counters_ok mc \<Longrightarrow>
     \<exists>mc w. cache_step S s c = Some (mc, w) \<and> detector_fine (mc_hot_keys mc) \<and> counters_ok mc"
proof (elim exE conjE)
  fix mc w assume "s = Some (mc, w)" "detector_fine (mc_hot_keys mc)" "counters_ok mc"
  then show ?thesis
    using cache_get_some [of mc S _ w]
    by (cases c) (fastforce simp: invalidate_with_delay_def delayed_delete_def counters_ok_def)+
qed

interpretation cachem: machine "cache_step S" "\<lambda>_ _. True"
  "\<lambda>s. \<exists>mc w. s = Some (mc, w) \<and> detector_fine (mc_hot_keys mc) \<and> counters_ok mc" for S
  by unfold_locales (rule cache_step_counters)

text \<open>
  In every run the total of the cache is the sum of L1 hits, L2 hits and misses, and no operation
  of the run panics.
\<close>

theorem cache_counters_conserved:
  assumes "hot = None \<or> (\<exists>w n thr. hot = Some (new_detector w n thr) \<and> detector_ok w n)"
  shows "\<exists>mc w'. run (cache_step S) (Some (new_cache l2 ld hot, w)) cs = Some (mc, w') \<and>
    mc_l1_total mc = mc_l1_hits mc + mc_l2_hits mc + mc_misses mc"
proof -
  have "detector_fine (mc_hot_keys (new_cache l2 ld hot))" "counters_ok (new_cache l2 ld hot)"
    using assms new_detector_inv by (auto simp: detector_fine_def new_cache_def counters_ok_def)
  then have "\<exists>mc w'. run (cache_step S) (Some (new_cache l2 ld hot, w)) cs = Some (mc, w') \<and>
      detector_fine (mc_hot_keys mc) \<and> counters_ok mc"
    by (intro cachem.run_inv) simp_all
  then show ?thesis by (auto simp: counters_ok_def)
qed

theorem cache_counters_conserved_witness:
  "\<exists>mc w'. run (cache_step ref_services) (Some (new_cache True (Some (\<lambda>k w. (Inr GNil, w))) (Some (new_detector 10 10 100)), ref_init 0))
     [CGet ''order:1'', CGet ''order:1''] = Some (mc, w') \<and> mc_l1_total mc = mc_l1_hits mc + mc_l2_hits mc + mc_misses mc"
  by (rule cache_counters_conserved, intro disjI2 exI conjI, rule refl)
    (simp add: detector_ok_def second_def s64_def quot_def)

subsection \<open>What a read can return\<close>

text \<open>
  A predicate \<open>P\<close> on keys and values, for example \<open>the value is a version of the record of
  this key\<close>. If everything loaded or set satisfies it, then so does everything \<open>Get\<close>
  returns, from either level. The lock keys share the Redis key space; keys with the lock
  prefix are left out.
\<close>

definition vals_ok ::
  "(string \<Rightarrow> gval \<Rightarrow> bool) \<Rightarrow> string \<Rightarrow> ('w \<Rightarrow> string \<Rightarrow> gval option) \<Rightarrow> ('w \<Rightarrow> string \<Rightarrow> (wire \<times> time) option) \<Rightarrow> 'w \<Rightarrow> bool" where
  "vals_ok P L l1v kv w \<longleftrightarrow>
     (\<forall>k. \<not> has_prefix k L \<longrightarrow>
        (\<forall>v. l1v w k = Some v \<longrightarrow> v = GStr null_marker \<or> P k v) \<and>
        (\<forall>v e. kv w k = Some (v, e) \<longrightarrow> v = Raw null_marker \<or> P k (parse_value v)))"

text \<open>A value survives the way through Redis.\<close>

definition json_closed :: "(string \<Rightarrow> gval \<Rightarrow> bool) \<Rightarrow> bool" where
  "json_closed P \<longleftrightarrow> (\<forall>k v. P k v \<longrightarrow> P k (unmarshal_any (marshal v)))"

definition loader_sound ::
  "(string \<Rightarrow> gval \<Rightarrow> bool) \<Rightarrow> ('w \<Rightarrow> string \<Rightarrow> gval option) \<Rightarrow> ('w \<Rightarrow> string \<Rightarrow> (wire \<times> time) option) \<Rightarrow>
     (string \<Rightarrow> 'w \<Rightarrow> (goerr + gval) \<times> 'w) \<Rightarrow> bool" where
  "loader_sound P l1v kv ld \<longleftrightarrow>
     (\<forall>k w. quiet l1v kv w (snd (ld k w)) \<and> (\<forall>v. fst (ld k w) = Inr v \<longrightarrow> v = GNil \<or> P k v))"

lemma vals_ok_quiet: "vals_ok P L l1v kv w \<Longrightarrow> quiet l1v kv w w' \<Longrightarrow> vals_ok P L l1v kv w'"
  by (simp add: vals_ok_def quiet_def)

lemma vals_ok_l1:
  "store_ok S l1v kv \<Longrightarrow> vals_ok P L l1v kv w \<Longrightarrow> v = GStr null_marker \<or> P key v \<Longrightarrow>
     vals_ok P L l1v kv (l1_set S key v d w)"
  by (auto simp: vals_ok_def store_ok_def)

lemma vals_ok_put:
  "redis_put l1v kv key v w w' \<Longrightarrow> vals_ok P L l1v kv w \<Longrightarrow>
     v = Raw null_marker \<or> P key (parse_value v) \<or> has_prefix key L \<Longrightarrow> vals_ok P L l1v kv w'"
  by (auto simp: vals_ok_def redis_put_def split: if_splits)

lemma vals_ok_del:
  assumes "store_ok S l1v kv" "vals_ok P L l1v kv w"
  shows "vals_ok P L l1v kv (l1_del S key w)" "vals_ok P L l1v kv (rd_del S key w)"
proof -
  have "l1v (l1_del S key w) = (l1v w)(key := None)" "kv (l1_del S key w) = kv w"
    using assms(1) by (simp_all add: store_ok_def)
  with assms(2) show "vals_ok P L l1v kv (l1_del S key w)" by (simp add: vals_ok_def)
  have "l1v (rd_del S key w) = l1v w" "kv (rd_del S key w) = kv w \<or> kv (rd_del S key w) = (kv w)(key := None)"
    using assms(1) by (simp_all add: store_ok_def)
  with assms(2) show "vals_ok P L l1v kv (rd_del S key w)" by (auto simp: vals_ok_def split: if_splits)
qed

lemma store_quiet:
  assumes "store_ok S l1v kv"
  shows "quiet l1v kv w (snd (l1_get S k w))" "quiet l1v kv w (l1_wait S w)" "quiet l1v kv w (snd (rd_get S k w))"
    "quiet l1v kv w (snd (sv_now S w))" "quiet l1v kv w (sv_sleep S d w)" "quiet l1v kv w (snd (sv_rand S n w))"
    "redis_put l1v kv k v w (rd_set S k v d w)" "redis_put l1v kv k v w (snd (rd_setnx S k v d w))"
  using assms by (simp_all add: store_ok_def)

lemma jitter_now_quiet: "store_ok S l1v kv \<Longrightarrow> quiet l1v kv w (snd (jitter_now S base pct w))"
  using store_quiet(6) [of S l1v kv w 8] by (simp add: jitter_now_def split_beta) (simp add: quiet_def)

lemmas vals_ok_step = vals_ok_quiet [OF _ store_quiet(1)] vals_ok_quiet [OF _ store_quiet(2)]
  vals_ok_quiet [OF _ store_quiet(3)] vals_ok_quiet [OF _ store_quiet(4)] vals_ok_quiet [OF _ store_quiet(5)]

lemma vals_ok_ttl:
  "store_ok S l1v kv \<Longrightarrow> vals_ok P L l1v kv w \<Longrightarrow> vals_ok P L l1v kv (snd (l1_ttl S mc w))"
  "store_ok S l1v kv \<Longrightarrow> vals_ok P L l1v kv w \<Longrightarrow> vals_ok P L l1v kv (snd (l2_ttl S mc w))"
  unfolding l1_ttl_def l2_ttl_def by (blast intro: vals_ok_quiet jitter_now_quiet)+

lemma vals_ok_fill:
  assumes "store_ok S l1v kv" "vals_ok P L l1v kv w"
  shows "P key v \<Longrightarrow> vals_ok P L l1v kv (fill_l1 S mc key v w)"
    "json_closed P \<Longrightarrow> P key v \<Longrightarrow> vals_ok P L l1v kv (fill_l2 S mc key v w)"
    "vals_ok P L l1v kv (null_l1 S mc key w)" "vals_ok P L l1v kv (null_l2 S mc key w)"
proof -
  show "vals_ok P L l1v kv (fill_l1 S mc key v w)" if "P key v"
    unfolding fill_l1_def split_beta using assms that by (intro vals_ok_step vals_ok_l1 vals_ok_ttl disjI2)
  show "vals_ok P L l1v kv (fill_l2 S mc key v w)" if "json_closed P" "P key v"
    unfolding fill_l2_def split_beta
    using assms that vals_ok_put [OF store_quiet(7) [OF assms(1)] vals_ok_ttl(2) [OF assms]]
    by (simp add: json_closed_def)
  show "vals_ok P L l1v kv (null_l1 S mc key w)"
    unfolding null_l1_def using assms by (intro vals_ok_l1) simp_all
  show "vals_ok P L l1v kv (null_l2 S mc key w)"
    unfolding null_l2_def using vals_ok_put [OF store_quiet(7) [OF assms(1)] assms(2)] assms(2) by simp
qed

text \<open>A result that is sound for its key.\<close>

definition result_ok :: "(string \<Rightarrow> gval \<Rightarrow> bool) \<Rightarrow> string \<Rightarrow> get_result \<Rightarrow> bool" where
  "result_ok P key r \<longleftrightarrow> (case r of (v, found, err) \<Rightarrow> v = GNil \<or> found \<and> err = None \<and> P key v)"

lemma load_from_db_sound:
  assumes "store_ok S l1v kv" "json_closed P" "vals_ok P L l1v kv w"
    and "\<forall>ld. mc_loader mc = Some ld \<longrightarrow> loader_sound P l1v kv ld"
  shows "result_ok P key (fst (load_from_db S mc key w)) \<and> vals_ok P L l1v kv (snd (load_from_db S mc key w))"
proof (cases "mc_loader mc")
  case None
  then show ?thesis using assms(3) by (simp add: load_from_db_def result_ok_def)
next
  case (Some ld)
  then have ld: "loader_sound P l1v kv ld" using assms(4) by blast
  obtain r w1 where r: "ld key w = (r, w1)" by force
  have "quiet l1v kv w w1" using ld r unfolding loader_sound_def by (metis snd_conv)
  then have w1: "vals_ok P L l1v kv w1" by (rule vals_ok_quiet [OF assms(3)])
  show ?thesis
  proof (cases r)
    case (Inl e)
    with Some r w1 show ?thesis by (simp add: load_from_db_def result_ok_def)
  next
    case (Inr v)
    then have "v = GNil \<or> P key v" using ld r unfolding loader_sound_def by (metis fst_conv)
    with Some r Inr w1 show ?thesis
      by (auto simp: load_from_db_def result_ok_def intro!: vals_ok_fill [OF assms(1)] assms(2))
  qed
qed

definition sound_setup ::
  "'w services \<Rightarrow> (string \<Rightarrow> gval \<Rightarrow> bool) \<Rightarrow> ('w \<Rightarrow> string \<Rightarrow> gval option) \<Rightarrow> ('w \<Rightarrow> string \<Rightarrow> (wire \<times> time) option) \<Rightarrow> 'w mlc \<Rightarrow> bool" where
  "sound_setup S P l1v kv mc \<longleftrightarrow> store_ok S l1v kv \<and> json_closed P \<and>
     (\<forall>ld. mc_loader mc = Some ld \<longrightarrow> loader_sound P l1v kv ld)"

lemma result_of_wire:
  assumes "store_ok S l1v kv" "vals_ok P L l1v kv w" "\<not> has_prefix key L" "rd_get S key w = (Inr val, w')"
  shows "val = Raw null_marker \<or> P key (parse_value val)"
proof -
  obtain e where "kv w key = Some (val, e)" using assms(1,4) unfolding store_ok_def by (metis fst_conv)
  with assms(2,3) show ?thesis unfolding vals_ok_def by blast
qed

lemma load_with_lock_sound:
  assumes "sound_setup S P l1v kv mc" "vals_ok P (mc_lock_key_prefix mc) l1v kv w"
    and "\<not> has_prefix key (mc_lock_key_prefix mc)"
  shows "result_ok P key (fst (load_with_lock S mc key w)) \<and>
    vals_ok P (mc_lock_key_prefix mc) l1v kv (snd (load_with_lock S mc key w))"
proof -
  have st: "store_ok S l1v kv" using assms(1) by (simp add: sound_setup_def)
  have db: "result_ok P key (fst (load_from_db S mc key u)) \<and> vals_ok P (mc_lock_key_prefix mc) l1v kv (snd (load_from_db S mc key u))"
    if "vals_ok P (mc_lock_key_prefix mc) l1v kv u" for u
    using load_from_db_sound [OF st _ that] assms(1) by (simp add: sound_setup_def)
  obtain r w1 where r: "rd_setnx S (lock_key mc key) (Raw ''1'') (mc_lock_ttl mc) w = (r, w1)" by force
  have w1: "vals_ok P (mc_lock_key_prefix mc) l1v kv w1"
    using vals_ok_put [OF store_quiet(8) [OF st] assms(2)] r by (metis has_prefix_append lock_key_def snd_conv)
  let ?w2 = "sv_sleep S (mc_lock_retry_wait mc) w1"
  obtain g w3 where g: "rd_get S key ?w2 = (g, w3)" by force
  have w2: "vals_ok P (mc_lock_key_prefix mc) l1v kv ?w2" by (rule vals_ok_step(5) [OF w1 st])
  then have w3: "vals_ok P (mc_lock_key_prefix mc) l1v kv w3" using vals_ok_step(3) [OF w2 st, of key] g by simp
  have val: "val = Raw null_marker \<or> P key (parse_value val)" if "g = Inr val" for val
    using result_of_wire [OF st w2 assms(3)] g that by blast
  show ?thesis
  proof (cases "mc_l2 mc")
    case False
    then show ?thesis using db [OF assms(2)] by (simp add: load_with_lock_def)
  next
    case True
    with r g w1 w3 val db [OF w1] vals_ok_del(2) [OF st] show ?thesis
      by (auto simp: load_with_lock_def result_ok_def split_beta split: sum.split bool.split)
  qed
qed

lemma get_miss_sound:
  assumes "sound_setup S P l1v kv mc" "vals_ok P (mc_lock_key_prefix mc) l1v kv w"
    and "\<not> has_prefix key (mc_lock_key_prefix mc)" "get_miss S mc key w = Some (r, mc', w')"
  shows "result_ok P key r \<and> vals_ok P (mc_lock_key_prefix mc) l1v kv w' \<and>
    mc_loader mc' = mc_loader mc \<and> mc_lock_key_prefix mc' = mc_lock_key_prefix mc"
proof -
  have st: "store_ok S l1v kv" using assms(1) by (simp add: sound_setup_def)
  have db: "result_ok P key (fst (load_from_db S m key u)) \<and> vals_ok P (mc_lock_key_prefix mc) l1v kv (snd (load_from_db S m key u))"
    if "vals_ok P (mc_lock_key_prefix mc) l1v kv u" "mc_loader m = mc_loader mc" for u m
    using load_from_db_sound [OF st _ that(1)] assms(1) that(2) by (simp add: sound_setup_def)
  have lk: "result_ok P key (fst (load_with_lock S m key u)) \<and> vals_ok P (mc_lock_key_prefix mc) l1v kv (snd (load_with_lock S m key u))"
    if "vals_ok P (mc_lock_key_prefix mc) l1v kv u" "mc_loader m = mc_loader mc" "mc_lock_key_prefix m = mc_lock_key_prefix mc" for u m
    using load_with_lock_sound [of S P l1v kv m u key] assms(1,3) that by (simp add: sound_setup_def)
  have now: "vals_ok P (mc_lock_key_prefix mc) l1v kv (snd (sv_now S w))" by (rule vals_ok_step(4) [OF assms(2) st])
  show ?thesis
  proof (cases "mc_hot_keys mc")
    case None
    with assms(4) db [OF assms(2), of "mc\<lparr>mc_misses := mc_misses mc + 1\<rparr>"] show ?thesis
      by (auto simp: get_miss_def Let_def split: prod.splits)
  next
    case (Some h)
    with assms(4) obtain hot h' where h: "record_access key (fst (sv_now S w)) h = Some (hot, h')"
      by (auto simp: get_miss_def split: prod.splits option.splits)
    let ?m = "mc\<lparr>mc_hot_keys := Some h', mc_misses := mc_misses mc + 1\<rparr>"
    from Some h assms(4) db [OF now, of ?m] lk [OF now, of ?m] show ?thesis
      by (auto simp: get_miss_def Let_def split: prod.splits if_splits)
  qed
qed

lemma cache_get_sound:
  assumes "sound_setup S P l1v kv mc" "vals_ok P (mc_lock_key_prefix mc) l1v kv w"
    and "\<not> has_prefix key (mc_lock_key_prefix mc)" "cache_get S mc key w = Some (r, mc', w')"
  shows "result_ok P key r \<and> vals_ok P (mc_lock_key_prefix mc) l1v kv w' \<and>
    mc_loader mc' = mc_loader mc \<and> mc_lock_key_prefix mc' = mc_lock_key_prefix mc"
proof -
  have st: "store_ok S l1v kv" using assms(1) by (simp add: sound_setup_def)
  let ?mc = "mc\<lparr>mc_l1_total := mc_l1_total mc + 1\<rparr>"
  have miss: "result_ok P key r \<and> vals_ok P (mc_lock_key_prefix mc) l1v kv w' \<and>
      mc_loader mc' = mc_loader mc \<and> mc_lock_key_prefix mc' = mc_lock_key_prefix mc"
    if "get_miss S ?mc key u = Some (r, mc', w')" "vals_ok P (mc_lock_key_prefix mc) l1v kv u" for u
    using get_miss_sound [of S P l1v kv ?mc u key r mc' w'] assms(1,3) that by (simp add: sound_setup_def)
  obtain g w1 where g: "l1_get S key w = (g, w1)" by force
  have w1: "vals_ok P (mc_lock_key_prefix mc) l1v kv w1" using vals_ok_step(1) [OF assms(2) st, of key] g by simp
  show ?thesis
  proof (cases g)
    case (Some v)
    have "fst (l1_get S key w) = None \<or> fst (l1_get S key w) = l1v w key" using st by (simp add: store_ok_def)
    then have "v = GStr null_marker \<or> P key v"
      using g Some assms(2,3) unfolding vals_ok_def by auto
    with Some g w1 assms(4) show ?thesis by (auto simp: cache_get_def Let_def result_ok_def split: if_splits)
  next
    case None
    show ?thesis
    proof (cases "mc_l2 mc")
      case False
      with None g assms(4) miss w1 show ?thesis by (simp add: cache_get_def Let_def)
    next
      case True
      obtain x w2 where x: "rd_get S key w1 = (x, w2)" by force
      have w2: "vals_ok P (mc_lock_key_prefix mc) l1v kv w2" using vals_ok_step(3) [OF w1 st, of key] x by simp
      show ?thesis
      proof (cases x)
        case (Inl e)
        with True None g x assms(4) miss w2 show ?thesis by (simp add: cache_get_def Let_def)
      next
        case (Inr val)
        then have "val = Raw null_marker \<or> P key (parse_value val)"
          using result_of_wire [OF st w1 assms(3)] x by simp
        moreover have "vals_ok P (mc_lock_key_prefix mc) l1v kv (l1_wait S (null_l1 S m key w2))" for m
          by (intro vals_ok_step(2) vals_ok_fill(3) st w2)
        ultimately show ?thesis using True None g x Inr assms(4) vals_ok_fill(1) [OF st w2]
          by (auto simp: cache_get_def Let_def result_ok_def split: if_splits)
      qed
    qed
  qed
qed

fun op_sound ::
  "(string \<Rightarrow> gval \<Rightarrow> bool) \<Rightarrow> string \<Rightarrow> ('w \<Rightarrow> string \<Rightarrow> gval option) \<Rightarrow> ('w \<Rightarrow> string \<Rightarrow> (wire \<times> time) option) \<Rightarrow> 'w cache_op \<Rightarrow> bool" where
  "op_sound P L l1v kv (CGet key) = (\<not> has_prefix key L)"
| "op_sound P L l1v kv (CSet key v) = P key v"
| "op_sound P L l1v kv (CEnv f) = (\<forall>w. vals_ok P L l1v kv w \<longrightarrow> vals_ok P L l1v kv (f w))"
| "op_sound P L l1v kv _ = True"

lemma delete_both_sound:
  "store_ok S l1v kv \<Longrightarrow> vals_ok P L l1v kv w \<Longrightarrow> vals_ok P L l1v kv (delete_both S mc key w)"
  by (simp add: delete_both_def vals_ok_del)

lemma cache_step_sound:
  assumes "sound_setup S P l1v kv mc" "vals_ok P L l1v kv w" "L = mc_lock_key_prefix mc" "op_sound P L l1v kv c"
    and "cache_step S (Some (mc, w)) c = Some (mc', w')"
  shows "sound_setup S P l1v kv mc' \<and> vals_ok P L l1v kv w' \<and> L = mc_lock_key_prefix mc'"
proof -
  have st: "store_ok S l1v kv" "json_closed P" using assms(1) by (simp_all add: sound_setup_def)
  show ?thesis
  proof (cases c)
    case (CGet key)
    then obtain r where "cache_get S mc key w = Some (r, mc', w')" using assms(5) by auto
    with cache_get_sound [OF assms(1) _ _ this] assms(1-4) CGet show ?thesis by (simp add: sound_setup_def)
  next
    case (CSet key v)
    then have "vals_ok P L l1v kv w'" using assms(2,4,5) st
      by (auto simp: cache_set_def intro!: vals_ok_fill(1,2) [OF st(1)])
    with CSet assms show ?thesis by simp
  next
    case (CSetNull key)
    have "vals_ok P L l1v kv (null_l2 S mc key (l1_wait S (null_l1 S mc key w)))"
      by (intro vals_ok_fill(3,4) vals_ok_step(2) st(1) assms(2))
    with CSetNull assms show ?thesis by (auto simp: cache_set_null_def)
  next
    case (CInvalidate key)
    with assms st show ?thesis by (auto simp: invalidate_def Let_def vals_ok_del)
  next
    case (CInvalidateDelay key ms)
    with assms st show ?thesis by (auto simp: invalidate_with_delay_def delete_both_sound sound_setup_def)
  next
    case (CDelayed i)
    with assms st show ?thesis
      by (auto simp: delayed_delete_def delete_both_sound sound_setup_def split: if_splits)
  next
    case (CEnv f)
    with assms show ?thesis by auto
  qed
qed

lemma cache_run_none: "run (cache_step S) None cs = None"
  by (induction cs) simp_all

lemma cache_run_sound:
  assumes "sound_setup S P l1v kv mc" "vals_ok P L l1v kv w" "L = mc_lock_key_prefix mc"
    and "\<forall>c \<in> set cs. op_sound P L l1v kv c" "run (cache_step S) (Some (mc, w)) cs = Some (mc', w')"
  shows "sound_setup S P l1v kv mc' \<and> vals_ok P L l1v kv w' \<and> L = mc_lock_key_prefix mc'"
  using assms
proof (induction cs arbitrary: mc w)
  case (Cons c cs)
  then obtain mc1 w1 where 1: "cache_step S (Some (mc, w)) c = Some (mc1, w1)"
    by (cases "cache_step S (Some (mc, w)) c") (auto simp: cache_run_none)
  have "op_sound P L l1v kv c" using Cons.prems(4) by simp
  from cache_step_sound [OF Cons.prems(1-3) this 1]
  have "sound_setup S P l1v kv mc1" "vals_ok P L l1v kv w1" "L = mc_lock_key_prefix mc1" by blast+
  moreover have "\<forall>c \<in> set cs. op_sound P L l1v kv c" "run (cache_step S) (Some (mc1, w1)) cs = Some (mc', w')"
    using Cons.prems(4,5) 1 by (simp_all del: cache_step.simps)
  ultimately show ?case by (rule Cons.IH)
qed simp

text \<open>
  C15: Let P be a predicate on key and value that survives a JSON round trip, that the initial contents
  of the cache satisfy and that everything loaded or set satisfies. Then in any run of reads,
  writes, invalidations and delayed deletions of keys outside the lock prefix, with other parties
  that keep P acting in between, everything Get returns from L1, L2 or the loader satisfies P, or
  is the known absence.
\<close>

theorem cache_reads_are_sound:
  assumes "store_ok S l1v kv" "json_closed P" "\<forall>ld. mc_loader mc0 = Some ld \<longrightarrow> loader_sound P l1v kv ld"
    and "vals_ok P (mc_lock_key_prefix mc0) l1v kv w0"
    and "\<forall>c \<in> set cs. op_sound P (mc_lock_key_prefix mc0) l1v kv c"
    and "run (cache_step S) (Some (mc0, w0)) cs = Some (mc, w)"
    and "\<not> has_prefix key (mc_lock_key_prefix mc0)" "cache_get S mc key w = Some ((v, found, err), mc', w')"
  shows "v = GNil \<or> found \<and> err = None \<and> P key v"
proof -
  have "sound_setup S P l1v kv mc0" using assms(1-3) by (simp add: sound_setup_def)
  from cache_run_sound [OF this assms(4) refl assms(5,6)]
  have 1: "sound_setup S P l1v kv mc" "vals_ok P (mc_lock_key_prefix mc) l1v kv w"
    "mc_lock_key_prefix mc = mc_lock_key_prefix mc0" by auto
  from cache_get_sound [OF 1(1,2) _ assms(8)] assms(7) 1(3) have "result_ok P key (v, found, err)" by simp
  then show ?thesis by (simp add: result_ok_def)
qed

definition record_of_order :: "order \<Rightarrow> gval \<Rightarrow> bool" where
  "record_of_order od v \<longleftrightarrow> v = GOrder od \<or> v = unmarshal_any (order_json od)"

theorem cache_reads_are_sound_witness:
  "\<exists>mc w v found err mc' w'. run (cache_step ref_services)
       (Some (new_cache True (Some (\<lambda>k w. (Inr (GOrder sample_order), w))) None, ref_init 0))
       [CGet ''order:1'', CInvalidate ''order:1''] = Some (mc, w) \<and>
     cache_get ref_services mc ''order:1'' w = Some ((v, found, err), mc', w') \<and>
     (v = GNil \<or> found \<and> err = None \<and> record_of_order sample_order v)"
proof -
  let ?mc = "new_cache True (Some (\<lambda>k w. (Inr (GOrder sample_order), w))) None :: ref_world mlc"
  let ?cs = "[CGet ''order:1'', CInvalidate ''order:1''] :: ref_world cache_op list"
  let ?P = "\<lambda>(k :: string) v. record_of_order sample_order v"
  have closed: "json_closed ?P"
    using via_interface_sample by (auto simp: json_closed_def record_of_order_def via_interface_def)
  obtain mc w where 1: "run (cache_step ref_services) (Some (?mc, ref_init 0)) ?cs = Some (mc, w)"
    "detector_fine (mc_hot_keys mc)" "counters_ok mc"
    using cachem.run_inv [of "Some (?mc, ref_init 0)" ref_services ?cs]
    by (auto simp: detector_fine_def new_cache_def counters_ok_def)
  obtain r mc' w' where 2: "cache_get ref_services mc ''order:1'' w = Some (r, mc', w')"
    using cache_get_some [OF 1(2,3)] by blast
  obtain v found err where r: "r = (v, found, err)" by (cases r)
  have "v = GNil \<or> found \<and> err = None \<and> ?P ''order:1'' v"
    by (rule cache_reads_are_sound [OF ref_store_ok closed _ _ _ 1(1) _ 2 [unfolded r]])
      (auto simp: new_cache_def loader_sound_def quiet_def record_of_order_def vals_ok_def ref_init_def ref_l1v_def)
  with 1 2 r show ?thesis by blast
qed

subsection \<open>Reads after writes\<close>

definition wire_result :: "wire \<Rightarrow> get_result" where
  "wire_result val = (if val = Raw null_marker then (GNil, True, None) else (parse_value val, True, None))"

definition l1_result :: "gval \<Rightarrow> get_result" where
  "l1_result v = (if v = GStr null_marker then (GNil, True, None) else (v, True, None))"

text \<open>A key held by both levels is answered from one of them, and no miss is counted.\<close>

lemma get_from_levels:
  assumes "store_ok S l1v kv" "redis_up S clk kv" "mc_l2 mc"
    and "l1v w key = Some v" "kv w key = Some (val, e)" "clk (snd (l1_get S key w)) < e"
  shows "\<exists>r mc' w'. cache_get S mc key w = Some (r, mc', w') \<and> (r = l1_result v \<or> r = wire_result val) \<and>
    mc_misses mc' = mc_misses mc"
proof -
  obtain g w1 where g: "l1_get S key w = (g, w1)" by force
  have "fst (l1_get S key w) = None \<or> fst (l1_get S key w) = l1v w key" "quiet l1v kv w (snd (l1_get S key w))"
    using assms(1) by (simp_all add: store_ok_def)
  then have g': "g = None \<or> g = Some v" "kv w1 = kv w" using g assms(4) by (auto simp: quiet_def)
  have "live (clk w1) (kv w1 key) = Some val" using assms(5,6) g g'(2) by (simp add: live_def)
  then have "fst (rd_get S key w1) = Inr val" using assms(2) by (simp add: redis_up_def)
  then obtain w2 where "rd_get S key w1 = (Inr val, w2)" by (metis prod.collapse)
  with g g' assms(3) show ?thesis
    by (auto simp: cache_get_def Let_def l1_result_def wire_result_def)
qed

lemma jitter_now_clock: "clock_fwd S clk \<Longrightarrow> clk w \<le> clk (snd (jitter_now S base pct w))"
  by (simp add: jitter_now_def clock_fwd_def split_beta)

lemma fill_l1_effect:
  assumes "store_ok S l1v kv" "clock_fwd S clk"
  shows "l1v (fill_l1 S mc key v w) = (l1v w)(key \<mapsto> v)" "kv (fill_l1 S mc key v w) = kv w"
    "clk w \<le> clk (fill_l1 S mc key v w)"
proof -
  obtain ttl w1 where t: "l1_ttl S mc w = (ttl, w1)" by force
  have q: "quiet l1v kv w w1" "clk w \<le> clk w1"
    using jitter_now_quiet [OF assms(1), of w] jitter_now_clock [OF assms(2), of w] t by (metis l1_ttl_def snd_conv)+
  have "quiet l1v kv (l1_set S key v ttl w1) (l1_wait S (l1_set S key v ttl w1))"
    "l1v (l1_set S key v ttl w1) = (l1v w1)(key \<mapsto> v)" "kv (l1_set S key v ttl w1) = kv w1"
    using assms(1) by (simp_all add: store_ok_def)
  moreover have "clk w1 \<le> clk (l1_wait S (l1_set S key v ttl w1))"
    using assms(2) unfolding clock_fwd_def by (meson order_trans)
  ultimately show "l1v (fill_l1 S mc key v w) = (l1v w)(key \<mapsto> v)" "kv (fill_l1 S mc key v w) = kv w"
    "clk w \<le> clk (fill_l1 S mc key v w)" using q t by (simp_all add: fill_l1_def quiet_def)
qed

text \<open>\<open>d\<close> is below every expiry the jitter can draw.\<close>

definition ttl_at_least :: "duration \<Rightarrow> f64 \<Rightarrow> duration \<Rightarrow> bool" where
  "ttl_at_least base pct d \<longleftrightarrow> (if pct \<le> 0 then d \<le> base else \<forall>b. d \<le> jitter_duration b base pct)"

lemma fill_l2_effect:
  assumes "store_ok S l1v kv" "clock_fwd S clk" "redis_up S clk kv" "mc_l2 mc"
    and "0 < d" "ttl_at_least (mc_l2_base_ttl mc) (mc_jitter_pct mc) d"
  shows "l1v (fill_l2 S mc key v w) = l1v w"
    "\<exists>e. clk w + d \<le> e \<and> kv (fill_l2 S mc key v w) = (kv w)(key \<mapsto> (JText (marshal v), e))"
proof -
  obtain ttl w1 where t: "l2_ttl S mc w = (ttl, w1)" by force
  have q: "quiet l1v kv w w1" "clk w \<le> clk w1"
    using jitter_now_quiet [OF assms(1), of w] jitter_now_clock [OF assms(2), of w] t by (metis l2_ttl_def snd_conv)+
  have "d \<le> ttl" using t assms(6)
    by (auto simp: l2_ttl_def jitter_now_def ttl_at_least_def split: prod.splits if_splits)
  moreover from this obtain e where "clk w1 + ttl \<le> e"
    "kv (rd_set S key (JText (marshal v)) ttl w1) = (kv w1)(key \<mapsto> (JText (marshal v), e))"
    using assms(3,5) unfolding redis_up_def by (metis order_less_le_trans)
  moreover have "l1v (rd_set S key (JText (marshal v)) ttl w1) = l1v w1"
    using store_quiet(7) [OF assms(1)] by (simp add: redis_put_def)
  ultimately show "l1v (fill_l2 S mc key v w) = l1v w"
    "\<exists>e. clk w + d \<le> e \<and> kv (fill_l2 S mc key v w) = (kv w)(key \<mapsto> (JText (marshal v), e))"
    using q t assms(4) by (auto simp: fill_l2_def quiet_def intro!: exI [of _ e])
qed


text \<open>
  C30: With Redis configured and up, a positive null expiry and a clock that does not go back, after a
  load that found nothing a Get of the key within the null expiry returns the known absence
  without consulting the loader.
\<close>

theorem cache_blocks_penetration:
  assumes "store_ok S l1v kv" "clock_fwd S clk" "redis_up S clk kv" "mc_l2 mc" "0 < mc_null_ttl mc"
    and "mc_loader mc = Some ld" "ld key w = (Inr GNil, w0)"
    and "w1 = snd (load_from_db S mc key w)" "clk (snd (l1_get S key w1)) < clk w0 + mc_null_ttl mc"
  shows "fst (load_from_db S mc key w) = (GNil, True, None) \<and>
    (\<exists>mc' w'. cache_get S mc key w1 = Some ((GNil, True, None), mc', w') \<and> mc_misses mc' = mc_misses mc)"
proof -
  have w1: "w1 = null_l1 S mc key (null_l2 S mc key w0)" using assms(6-8) by (simp add: load_from_db_def)
  obtain e where e: "clk w0 + mc_null_ttl mc \<le> e"
    "kv (rd_set S key (Raw null_marker) (mc_null_ttl mc) w0) = (kv w0)(key \<mapsto> (Raw null_marker, e))"
    using assms(3,5) unfolding redis_up_def by blast
  have "l1v w1 key = Some (GStr null_marker)" "kv w1 key = Some (Raw null_marker, e)"
    using assms(1,4) e(2) by (simp_all add: w1 null_l1_def null_l2_def store_ok_def)
  from get_from_levels [OF assms(1,3,4) this] e(1) assms(9)
  have "\<exists>mc' w'. cache_get S mc key w1 = Some ((GNil, True, None), mc', w') \<and> mc_misses mc' = mc_misses mc"
    by (auto simp: l1_result_def wire_result_def)
  then show ?thesis using assms(6,7) by (simp add: load_from_db_def)
qed

lemma ref_ttl: "ttl_at_least 5 0 5"
  by (simp add: ttl_at_least_def)


theorem cache_blocks_penetration_witness:
  "\<exists>mc' w'. cache_get ref_services (new_cache True (Some (\<lambda>k w. (Inr GNil, w))) None) ''order:9''
     (snd (load_from_db ref_services (new_cache True (Some (\<lambda>k w. (Inr GNil, w))) None) ''order:9'' (ref_init 0)))
     = Some ((GNil, True, None), mc', w') \<and> mc_misses mc' = 0"
proof -
  let ?mc = "new_cache True (Some (\<lambda>k w. (Inr GNil, w))) None :: ref_world mlc"
  let ?w1 = "snd (load_from_db ref_services ?mc ''order:9'' (ref_init 0))"
  have "rf_clock (snd (l1_get ref_services ''order:9'' ?w1)) = 0"
    by (simp add: ref_services_def ref_l1_get_def load_from_db_def null_l1_def null_l2_def new_cache_def ref_init_def
        split: option.split)
  then show ?thesis
    using cache_blocks_penetration [OF ref_store_ok ref_clock_fwd ref_redis_up, of ?mc "\<lambda>k w. (Inr GNil, w)" "''order:9''"
        "ref_init 0" "ref_init 0" ?w1]
    by (simp add: new_cache_def ref_init_def duration_defs)
qed

subsection \<open>The hot-key lock\<close>

text \<open>
  The loser of the \<open>SETNX\<close> never consults the loader: with any other loader its result and
  its effect are the same.
\<close>

text \<open>
  A caller that does not win the hot-key lock behaves the same with any other loader: it never
  consults the database.
\<close>

theorem lock_loser_never_loads:
  assumes "mc_l2 mc" "fst (rd_setnx S (lock_key mc key) (Raw ''1'') (mc_lock_ttl mc) w) \<noteq> Inr True"
  shows "load_with_lock S (mc\<lparr>mc_loader := ld\<rparr>) key w = load_with_lock S mc key w"
  using assms by (auto simp: load_with_lock_def lock_key_def split: prod.splits sum.splits bool.splits)

text \<open>
  The lock is given back with a plain \<open>DEL\<close>. A holder that takes longer than the lock's
  expiry deletes the lock of the next one, and a third caller enters while the second one is
  still loading: the \<open>load\<close>s of the second and the third overlap.
\<close>

definition enter_lock :: "'w services \<Rightarrow> 'w mlc \<Rightarrow> string \<Rightarrow> 'w \<Rightarrow> (goerr + bool) \<times> 'w" where
  "enter_lock S mc key w = rd_setnx S (lock_key mc key) (Raw ''1'') (mc_lock_ttl mc) w"

definition leave_lock :: "'w services \<Rightarrow> 'w mlc \<Rightarrow> string \<Rightarrow> 'w \<Rightarrow> 'w" where
  "leave_lock S mc key w = rd_del S (lock_key mc key) w"

lemma load_with_lock_phases:
  "mc_l2 mc \<Longrightarrow> fst (enter_lock S mc key w) = Inr True \<Longrightarrow>
     load_with_lock S mc key w =
       (let (r, w2) = load_from_db S mc key (snd (enter_lock S mc key w)) in (r, leave_lock S mc key w2))"
  by (auto simp: load_with_lock_def enter_lock_def leave_lock_def split: prod.splits)

text \<open>
  The hot-key lock is deleted without looking at its owner: when a load outlives the lock's
  expiry, its release lets a third caller in while the second still loads.
\<close>

theorem hot_lock_overlap:
  assumes "live (rf_clock w) (rf_kv w (lock_key mc key)) = None" "0 < mc_lock_ttl mc"
    and "w1 = snd (enter_lock ref_services mc key w)"
    and "w2 = snd (enter_lock ref_services mc key (sv_sleep ref_services (mc_lock_ttl mc) w1))"
  shows "fst (enter_lock ref_services mc key w) = Inr True \<and>
    fst (enter_lock ref_services mc key (sv_sleep ref_services (mc_lock_ttl mc) w1)) = Inr True \<and>
    fst (enter_lock ref_services mc key w2) = Inr False \<and>
    fst (enter_lock ref_services mc key (leave_lock ref_services mc key w2)) = Inr True"
  using assms by (simp add: enter_lock_def leave_lock_def ref_services_def ref_setnx_def ref_expiry_def live_def)

theorem hot_lock_overlap_witness:
  "fst (enter_lock ref_services (new_cache True None None) ''order:1''
     (leave_lock ref_services (new_cache True None None) ''order:1''
       (snd (enter_lock ref_services (new_cache True None None) ''order:1''
         (sv_sleep ref_services (10 * second)
           (snd (enter_lock ref_services (new_cache True None None) ''order:1'' (ref_init 0)))))))) = Inr True"
  using hot_lock_overlap [of "ref_init 0" "new_cache True None None" "''order:1''", OF _ _ refl refl]
  by (simp add: new_cache_def ref_init_def live_def second_def)

theorem lock_loser_never_loads_witness:
  "load_with_lock ref_services (new_cache True (Some (\<lambda>k w. (Inr GNil, w))) None) ''order:1''
     (snd (enter_lock ref_services (new_cache True None None) ''order:1'' (ref_init 0))) =
   load_with_lock ref_services (new_cache True None None) ''order:1''
     (snd (enter_lock ref_services (new_cache True None None) ''order:1'' (ref_init 0)))"
  using lock_loser_never_loads [of "new_cache True None None :: ref_world mlc" ref_services "''order:1''"
      "snd (enter_lock ref_services (new_cache True None None) ''order:1'' (ref_init 0))" "Some (\<lambda>k w. (Inr GNil, w))"]
  by (simp add: new_cache_def enter_lock_def lock_key_def ref_services_def ref_setnx_def ref_init_def live_def
      ref_expiry_def second_def)

end
