(* ===== verification/Messaging.thy ===== *)
theory Messaging
  imports Services Config "HOL-Library.Sublist"
begin

section \<open>Kafka producer and consumer (internal/mq)\<close>

text \<open>
  The producer (\<open>producer.go\<close>), the consumer with its retries and dead letters
  (\<open>consumer.go\<close>) and the in-memory producer of the tests (\<open>mock_producer.go\<close>). The client
  library is reached through the services and, for the reader and the admin connection,
  through two records of operations. A goroutine that \<open>SendAsync\<close> starts is a pending send,
  performed by \<open>run_async\<close>.
\<close>

subsection \<open>Topics\<close>

record 'w kafka_admin =
  ka_dial :: "string \<Rightarrow> 'w \<Rightarrow> goerr option \<times> 'w"
  ka_controller :: "'w \<Rightarrow> (goerr + string \<times> nat) \<times> 'w"
  ka_partitions :: "string \<Rightarrow> 'w \<Rightarrow> (goerr + nat) \<times> 'w"
  ka_create :: "string \<Rightarrow> nat \<Rightarrow> nat \<Rightarrow> 'w \<Rightarrow> goerr option \<times> 'w"

text \<open>\<open>net.JoinHostPort\<close>: a host with a colon is put in brackets.\<close>

definition join_host_port :: "string \<Rightarrow> string \<Rightarrow> string" where
  "join_host_port host port =
     (if CHR '':'' \<in> set host then ''['' @ host @ '']:'' @ port else host @ '':'' @ port)"

definition create_topic_if_not_exist :: "'w kafka_admin \<Rightarrow> string list \<Rightarrow> string \<Rightarrow> 'w \<Rightarrow> goerr option \<times> 'w" where
  "create_topic_if_not_exist A brokers topic w =
     (case brokers of
        [] \<Rightarrow> (Some (Errorf ''no brokers configured''), w)
      | b # _ \<Rightarrow>
          (case ka_dial A b w of
             (Some e, w1) \<Rightarrow> (Some (Wrap ''dial broker'' e), w1)
           | (None, w1) \<Rightarrow>
               (case ka_controller A w1 of
                  (Inl e, w2) \<Rightarrow> (Some (Wrap ''get controller'' e), w2)
                | (Inr (host, port), w2) \<Rightarrow>
                    (case ka_dial A (join_host_port host (dec port)) w2 of
                       (Some e, w3) \<Rightarrow> (Some (Wrap ''dial controller'' e), w3)
                     | (None, w3) \<Rightarrow>
                         (case ka_partitions A topic w3 of
                            (r, w4) \<Rightarrow>
                              if (case r of Inl e \<Rightarrow> False | Inr n \<Rightarrow> 0 < n) then (None, w4)
                              else (case ka_create A topic 3 1 w4 of
                                      (Some e, w5) \<Rightarrow> (Some (Wrap ''create topic'' e), w5)
                                    | (None, w5) \<Rightarrow> (None, w5)))))))"

subsection \<open>Producer\<close>

record producer =
  ep_brokers :: "string list"
  ep_topic :: string
  ep_dlq_topic :: string
  ep_max_retries :: int

definition new_producer :: "'w kafka_admin \<Rightarrow> string list \<Rightarrow> string \<Rightarrow> int \<Rightarrow> 'w \<Rightarrow> producer \<times> 'w" where
  "new_producer A brokers topic max_retries w =
     (\<lparr>ep_brokers = brokers, ep_topic = topic, ep_dlq_topic = topic @ ''.dlq'', ep_max_retries = max_retries\<rparr>,
      snd (create_topic_if_not_exist A brokers topic w))"

text \<open>\<open>Send\<close>; the trace id is what the context carries, the empty string when it carries none.\<close>

definition producer_send :: "'w services \<Rightarrow> producer \<Rightarrow> string \<Rightarrow> string \<Rightarrow> gval \<Rightarrow> 'w \<Rightarrow> goerr option \<times> 'w" where
  "producer_send S ep trace_id key value w =
     (let data = JText (marshal value)
      in case sv_now S w of (sent_at, w1) \<Rightarrow>
         (let headers = [(''sent_at'', HTime sent_at)] @ (if trace_id = [] then [] else [(''trace_id'', HText trace_id)])
          in case sv_now S w1 of (now, w2) \<Rightarrow>
             (case kafka_write S (ep_topic ep)
                \<lparr>km_key = key, km_value = data, km_time = Some now, km_headers = headers\<rparr> w2 of
                (Some e, w3) \<Rightarrow> (Some (Wrap ''kafka send'' e), log_compensation S (ep_topic ep) key data w3)
              | (None, w3) \<Rightarrow> (None, w3))))"

definition send_to_dlq :: "'w services \<Rightarrow> producer \<Rightarrow> string \<Rightarrow> gval \<Rightarrow> 'w \<Rightarrow> goerr option \<times> 'w" where
  "send_to_dlq S ep key value w =
     (case sv_now S w of (now, w1) \<Rightarrow>
        kafka_write S (ep_dlq_topic ep)
          \<lparr>km_key = key, km_value = JText (marshal value), km_time = None,
           km_headers = [(''original_topic'', HText (ep_topic ep)), (''dead_letter_at'', HTime now)]\<rparr> w1)"

text \<open>\<open>SendAsync\<close> keeps the trace id and the arguments; its goroutine sends later.\<close>

type_synonym async_send = "string \<times> string \<times> gval"

definition send_async :: "string \<Rightarrow> string \<Rightarrow> gval \<Rightarrow> async_send list \<Rightarrow> async_send list" where
  "send_async trace_id key value pending = pending @ [(trace_id, key, value)]"

fun run_async :: "'w services \<Rightarrow> producer \<Rightarrow> async_send \<Rightarrow> 'w \<Rightarrow> goerr option \<times> 'w" where
  "run_async S ep (trace_id, key, value) w = producer_send S ep trace_id key value w"

definition producer_ping :: "'w services \<Rightarrow> producer \<Rightarrow> 'w \<Rightarrow> goerr option \<times> 'w" where
  "producer_ping S ep w =
     (case ep_brokers ep of
        [] \<Rightarrow> (Some (Errorf ''no brokers configured''), w)
      | b # _ \<Rightarrow> kafka_dial S b w)"

subsection \<open>Mock producer\<close>

record mock_message =
  mm_key :: string
  mm_value :: wire
  mm_topic :: string

record mock_producer =
  mp_messages :: "mock_message list"
  mp_send_err :: "goerr option"
  mp_closed :: bool

definition new_mock_producer :: mock_producer where
  "new_mock_producer = \<lparr>mp_messages = [], mp_send_err = None, mp_closed = False\<rparr>"

definition mock_send :: "string \<Rightarrow> gval \<Rightarrow> mock_producer \<Rightarrow> goerr option \<times> mock_producer" where
  "mock_send key value mp =
     (if mp_closed mp then (None, mp)
      else case mp_send_err mp of
             Some e \<Rightarrow> (Some e, mp)
           | None \<Rightarrow> (None, mp\<lparr>mp_messages := mp_messages mp @
               [\<lparr>mm_key = key, mm_value = JText (marshal value), mm_topic = []\<rparr>]\<rparr>))"

definition mock_send_to_dlq :: "string \<Rightarrow> gval \<Rightarrow> mock_producer \<Rightarrow> goerr option \<times> mock_producer" where
  "mock_send_to_dlq key value mp =
     (if mp_closed mp then (None, mp)
      else (None, mp\<lparr>mp_messages := mp_messages mp @
              [\<lparr>mm_key = key, mm_value = JText (marshal value), mm_topic = ''dlq''\<rparr>]\<rparr>))"

definition mock_messages :: "mock_producer \<Rightarrow> mock_message list" where
  "mock_messages mp = mp_messages mp"

definition mock_message_count :: "mock_producer \<Rightarrow> nat" where
  "mock_message_count mp = length (mp_messages mp)"

definition mock_set_send_error :: "goerr option \<Rightarrow> mock_producer \<Rightarrow> mock_producer" where
  "mock_set_send_error e mp = mp\<lparr>mp_send_err := e\<rparr>"

definition mock_clear :: "mock_producer \<Rightarrow> mock_producer" where
  "mock_clear mp = mp\<lparr>mp_messages := [], mp_send_err := None\<rparr>"

definition mock_close :: "mock_producer \<Rightarrow> mock_producer" where
  "mock_close mp = mp\<lparr>mp_closed := True\<rparr>"

subsection \<open>Consumer\<close>

record kafka_in =
  mi_key :: string
  mi_value :: wire
  mi_headers :: "(string \<times> string) list"

text \<open>
  What the loop calls on its context, limiter and reader. \<open>ce_wait\<close> is the \<open>select\<close> of the
  backoff: the context's error if it is done first.
\<close>

record 'w consumer_env =
  ce_ctx_err :: "'w \<Rightarrow> goerr option"
  ce_limit :: "'w \<Rightarrow> goerr option \<times> 'w"
  ce_fetch :: "'w \<Rightarrow> (goerr + kafka_in) \<times> 'w"
  ce_wait :: "duration \<Rightarrow> 'w \<Rightarrow> goerr option \<times> 'w"
  ce_commit :: "kafka_in \<Rightarrow> 'w \<Rightarrow> goerr option \<times> 'w"

text \<open>A handler has the state \<open>'s\<close> of its service; trace id, key and value are its arguments.\<close>

type_synonym ('s, 'w) handler = "string \<Rightarrow> string \<Rightarrow> wire \<Rightarrow> 's \<times> 'w \<Rightarrow> goerr option \<times> 's \<times> 'w"

definition aside :: "('a \<Rightarrow> 'w \<Rightarrow> 'r \<times> 'w) \<Rightarrow> 'a \<Rightarrow> 's \<times> 'w \<Rightarrow> 'r \<times> 's \<times> 'w" where
  "aside f a = (\<lambda>(s, w). case f a w of (r, w') \<Rightarrow> (r, s, w'))"

record consumer =
  ec_topic :: string
  ec_max_retries :: int
  ec_dlq :: "producer option"
  ec_rate_limit :: int
  ec_concurrency :: int
  ec_from_latest :: bool
  ec_stopped :: bool

definition new_consumer :: "string \<Rightarrow> int \<Rightarrow> int \<Rightarrow> int \<Rightarrow> producer option \<Rightarrow> bool \<Rightarrow> consumer" where
  "new_consumer topic concurrency rate_limit max_retries dlq start_from_latest =
     \<lparr>ec_topic = topic, ec_max_retries = max_retries, ec_dlq = dlq, ec_rate_limit = rate_limit,
      ec_concurrency = concurrency, ec_from_latest = start_from_latest, ec_stopped = False\<rparr>"

fun extract_trace_id :: "(string \<times> string) list \<Rightarrow> string" where
  "extract_trace_id [] = []"
| "extract_trace_id ((k, v) # hs) = (if k = ''trace_id'' then v else extract_trace_id hs)"

text \<open>The attempts from number \<open>attempt\<close> on, \<open>n\<close> of them left.\<close>

primrec retry_from ::
  "nat \<Rightarrow> ('w \<Rightarrow> goerr option \<times> 'w) \<Rightarrow> (duration \<Rightarrow> 'w \<Rightarrow> goerr option \<times> 'w) \<Rightarrow> nat \<Rightarrow> duration \<Rightarrow> goerr option \<Rightarrow> 'w \<Rightarrow>
     goerr option \<times> 'w" where
  "retry_from 0 h wait attempt backoff last_err w = (last_err, w)"
| "retry_from (Suc n) h wait attempt backoff last_err w =
     (case (if attempt > 0 then wait backoff w else (None, w)) of
        (Some e, w1) \<Rightarrow> (Some e, w1)
      | (None, w1) \<Rightarrow>
          (let backoff' = (if attempt > 0 then s64 (backoff * 2) else backoff)
           in case h w1 of
                (None, w2) \<Rightarrow> (None, w2)
              | (Some e, w2) \<Rightarrow> retry_from n h wait (attempt + 1) backoff' (Some e) w2))"

definition process_with_retry ::
  "'w consumer_env \<Rightarrow> consumer \<Rightarrow> ('s, 'w) handler \<Rightarrow> string \<Rightarrow> string \<Rightarrow> wire \<Rightarrow> 's \<times> 'w \<Rightarrow> goerr option \<times> 's \<times> 'w" where
  "process_with_retry E ec handler trace_id key val sw =
     retry_from (nat (ec_max_retries ec + 1)) (handler trace_id key val) (aside (ce_wait E)) 0 (100 * millisecond) None sw"

text \<open>One pass of \<open>consumeLoop\<close>: whether the loop goes on.\<close>

definition consume_iter ::
  "'w services \<Rightarrow> 'w consumer_env \<Rightarrow> consumer \<Rightarrow> ('s, 'w) handler \<Rightarrow> 's \<times> 'w \<Rightarrow> bool \<times> 's \<times> 'w" where
  "consume_iter S E ec handler = (\<lambda>(s, w).
     if ce_ctx_err E w \<noteq> None then (False, s, w)
     else
       (case ce_limit E w of
          (Some e, w1) \<Rightarrow> (False, s, w1)
        | (None, w1) \<Rightarrow>
            (case ce_fetch E w1 of
               (Inl e, w2) \<Rightarrow>
                 if ce_ctx_err E w2 \<noteq> None then (False, s, w2) else (True, s, sv_sleep S (100 * millisecond) w2)
             | (Inr msg, w2) \<Rightarrow>
                 (case process_with_retry E ec handler (extract_trace_id (mi_headers msg)) (mi_key msg) (mi_value msg) (s, w2) of
                    (err, s1, w3) \<Rightarrow>
                      (let w4 = (case (err, ec_dlq ec) of
                           (Some e, Some ep) \<Rightarrow> snd (send_to_dlq S ep (mi_key msg) (GBytes (mi_value msg)) w3)
                         | _ \<Rightarrow> w3)
                       in (True, s1, snd (ce_commit E msg w4)))))))"

text \<open>\<open>Start\<close>: the topic is created if it can be, then the workers are spawned, by their numbers.\<close>

definition consumer_start :: "'w kafka_admin \<Rightarrow> string list \<Rightarrow> string \<Rightarrow> int \<Rightarrow> 'w \<Rightarrow> int list \<times> 'w" where
  "consumer_start A brokers topic concurrency w =
     (map int [0..<nat concurrency], snd (create_topic_if_not_exist A brokers topic w))"

text \<open>
  \<open>Stop\<close> closes the stop channel (closing twice panics) and counts the workers that report
  within 30 seconds; \<open>delays\<close> are the instants, from the call on, at which they report.
\<close>

definition consumer_stop :: "consumer \<Rightarrow> duration list \<Rightarrow> (consumer \<times> nat) option" where
  "consumer_stop ec delays =
     (if ec_stopped ec then None
      else Some (ec\<lparr>ec_stopped := True\<rparr>,
                 min (nat (ec_concurrency ec)) (length (filter (\<lambda>d. d < 30 * second) delays))))"

definition is_stopped :: "consumer \<Rightarrow> bool" where
  "is_stopped ec = ec_stopped ec"

subsection \<open>The retry schedule\<close>

text \<open>
  A handler and a wait that also write down what happened, and the plan: one attempt, then a
  backoff and an attempt in turn, the backoff doubling from 100 ms.
\<close>

datatype retry_event = Attempt | Backoff duration

definition traced_handler ::
  "('s \<times> 'w \<Rightarrow> goerr option \<times> 's \<times> 'w) \<Rightarrow> 's \<times> 'w \<times> retry_event list \<Rightarrow> goerr option \<times> 's \<times> 'w \<times> retry_event list" where
  "traced_handler h = (\<lambda>(s, w, l). case h (s, w) of (r, s', w') \<Rightarrow> (r, s', w', l @ [Attempt]))"

definition traced_wait ::
  "(duration \<Rightarrow> 'w \<Rightarrow> goerr option \<times> 'w) \<Rightarrow> duration \<Rightarrow> 'w \<times> retry_event list \<Rightarrow> goerr option \<times> 'w \<times> retry_event list" where
  "traced_wait wt d = (\<lambda>(w, l). case wt d w of (r, w') \<Rightarrow> (r, w', l @ [Backoff d]))"

primrec retry_plan :: "nat \<Rightarrow> nat \<Rightarrow> duration \<Rightarrow> retry_event list" where
  "retry_plan 0 attempt backoff = []"
| "retry_plan (Suc n) attempt backoff =
     (if attempt > 0 then [Backoff backoff] else []) @ [Attempt] @
     retry_plan n (attempt + 1) (if attempt > 0 then s64 (backoff * 2) else backoff)"

lemma retry_plan_attempts: "length (filter (\<lambda>e. e = Attempt) (retry_plan n a b)) = n"
  by (induction n arbitrary: a b) simp_all

lemma retry_from_traced:
  assumes "retry_from n (traced_handler h) (aside (traced_wait wt)) a b le (s, w, l) = (r, s', w', l')"
  shows "\<exists>part. l' = l @ part \<and> prefix part (retry_plan n a b) \<and>
    (r = None \<longrightarrow> n = 0 \<and> le = None \<or> (\<exists>u v. h u = (None, v))) \<and>
    ((\<forall>u. fst (h u) \<noteq> None) \<longrightarrow> (\<forall>d u. fst (wt d u) = None) \<longrightarrow> part = retry_plan n a b)"
  using assms
proof (induction n arbitrary: a b le s w l)
  case 0
  then show ?case by simp
next
  case (Suc n)
  let ?b = "if a > 0 then s64 (b * 2) else b"
  let ?pre = "if a > 0 then [Backoff b] else []"
  have "\<exists>c w1. (if a > 0 then aside (traced_wait wt) b (s, w, l) else (None, s, w, l)) = (c, s, w1, l @ ?pre)"
    by (cases "wt b w"; cases "a > 0") (simp_all add: traced_wait_def aside_def)
  then obtain c w1 where c: "(if a > 0 then aside (traced_wait wt) b (s, w, l) else (None, s, w, l)) = (c, s, w1, l @ ?pre)"
    by blast
  show ?case
  proof (cases c)
    case (Some e)
    then have a: "a > 0" using c by (auto split: if_splits)
    then have "fst (wt b w) \<noteq> None" using c Some by (auto simp: traced_wait_def aside_def split: prod.splits)
    moreover have "r = Some e" "l' = l @ ?pre" using Suc.prems c Some by auto
    ultimately show ?thesis using a by (intro exI [of _ "[Backoff b]"]) auto
  next
    case None
    obtain r1 s2 w2 where h: "h (s, w1) = (r1, s2, w2)" by (metis prod.collapse)
    show ?thesis
    proof (cases r1)
      case None
      have "r = None" "l' = l @ ?pre @ [Attempt]"
        using Suc.prems c \<open>c = None\<close> h None by (auto simp: traced_handler_def Let_def)
      moreover have "\<exists>u v. h u = (None, v)" "\<not> (\<forall>u. fst (h u) \<noteq> None)" using h None by (blast, metis fst_conv)
      ultimately show ?thesis by (intro exI [of _ "?pre @ [Attempt]"] conjI impI) (auto simp: prefix_def)
    next
      case (Some e)
      have "retry_from n (traced_handler h) (aside (traced_wait wt)) (a + 1) ?b (Some e) (s2, w2, l @ ?pre @ [Attempt]) = (r, s', w', l')"
        using Suc.prems c \<open>c = None\<close> h Some by (simp add: traced_handler_def Let_def)
      from Suc.IH [OF this] obtain q where q: "l' = (l @ ?pre @ [Attempt]) @ q" "prefix q (retry_plan n (a + 1) ?b)"
        "r = None \<longrightarrow> n = 0 \<and> Some e = None \<or> (\<exists>u v. h u = (None, v))"
        "(\<forall>u. fst (h u) \<noteq> None) \<longrightarrow> (\<forall>d u. fst (wt d u) = None) \<longrightarrow> q = retry_plan n (a + 1) ?b"
        by (elim exE conjE)
      then show ?thesis by (intro exI [of _ "?pre @ [Attempt] @ q"] conjI impI) (auto simp: prefix_def)
    qed
  qed
qed

definition traced_env :: "'w consumer_env \<Rightarrow> ('w \<times> retry_event list) consumer_env" where
  "traced_env E =
     \<lparr>ce_ctx_err = (\<lambda>w. ce_ctx_err E (fst w)),
      ce_limit = (\<lambda>(w, l). case ce_limit E w of (r, w') \<Rightarrow> (r, (w', l))),
      ce_fetch = (\<lambda>(w, l). case ce_fetch E w of (r, w') \<Rightarrow> (r, (w', l))),
      ce_wait = traced_wait (ce_wait E),
      ce_commit = (\<lambda>m (w, l). case ce_commit E m w of (r, w') \<Rightarrow> (r, (w', l)))\<rparr>"

text \<open>
  C28: With no negative number of retries, the attempts and pauses of processWithRetry are a prefix of
  the plan of maxRetries + 1 attempts with pauses doubling from 100 ms, the whole plan when the
  handler always fails and no pause is interrupted, and it succeeds only if the handler did.
\<close>

theorem retry_follows_plan:
  assumes "0 \<le> ec_max_retries ec"
    and "process_with_retry (traced_env E) ec (\<lambda>t k v. traced_handler (h t k v)) tid key val (s, w, []) = (r, s', w', l)"
  shows "prefix l (retry_plan (nat (ec_max_retries ec + 1)) 0 (100 * millisecond)) \<and>
    int (length (filter (\<lambda>e. e = Attempt) l)) \<le> ec_max_retries ec + 1 \<and>
    (r = None \<longrightarrow> (\<exists>u v. h tid key val u = (None, v))) \<and>
    ((\<forall>u. fst (h tid key val u) \<noteq> None) \<longrightarrow> (\<forall>d u. fst (ce_wait E d u) = None) \<longrightarrow>
       l = retry_plan (nat (ec_max_retries ec + 1)) 0 (100 * millisecond))"
proof -
  let ?n = "nat (ec_max_retries ec + 1)"
  have "retry_from ?n (traced_handler (h tid key val)) (aside (traced_wait (ce_wait E))) 0 (100 * millisecond) None (s, w, []) = (r, s', w', l)"
    using assms(2) by (simp add: process_with_retry_def traced_env_def)
  from retry_from_traced [OF this] assms(1)
  have 1: "prefix l (retry_plan ?n 0 (100 * millisecond))" "r = None \<longrightarrow> (\<exists>u v. h tid key val u = (None, v))"
    "(\<forall>u. fst (h tid key val u) \<noteq> None) \<longrightarrow> (\<forall>d u. fst (ce_wait E d u) = None) \<longrightarrow>
       l = retry_plan ?n 0 (100 * millisecond)" by auto
  have "length (filter (\<lambda>e. e = Attempt) l) \<le> ?n"
    using 1(1) retry_plan_attempts [of ?n 0 "100 * millisecond"] unfolding prefix_def
    by (metis filter_append le_add1 length_append)
  with assms(1) 1 show ?thesis by simp
qed

lemma default_retry_plan:
  "retry_plan 4 0 (100 * millisecond) =
     [Attempt, Backoff 100000000, Attempt, Backoff 200000000, Attempt, Backoff 400000000, Attempt]"
  by (simp add: eval_nat_numeral millisecond_def s64_def)

definition idle_env :: "unit consumer_env" where
  "idle_env = \<lparr>ce_ctx_err = (\<lambda>w. None), ce_limit = (\<lambda>w. (None, w)), ce_fetch = (\<lambda>w. (Inl redis_nil, w)),
     ce_wait = (\<lambda>d w. (None, w)), ce_commit = (\<lambda>m w. (None, w))\<rparr>"

theorem retry_follows_plan_witness:
  "snd (snd (snd (process_with_retry (traced_env idle_env)
     (new_consumer ''order-create'' 8 2000 3 None False) (\<lambda>t k v. traced_handler (\<lambda>w. (Some type_error, w)))
     [] ''1'' (JText JNull) ((), (), [])))) =
   [Attempt, Backoff 100000000, Attempt, Backoff 200000000, Attempt, Backoff 400000000, Attempt]"
proof -
  let ?ec = "new_consumer ''order-create'' 8 2000 3 None False"
  obtain r s' w' l where p: "process_with_retry (traced_env idle_env) ?ec (\<lambda>t k v. traced_handler (\<lambda>w. (Some type_error, w)))
      [] ''1'' (JText JNull) ((), (), []) = (r, s', w', l)" by (metis prod.collapse)
  have "0 \<le> ec_max_retries ?ec" by (simp add: new_consumer_def)
  from retry_follows_plan [OF this p] have "l = retry_plan 4 0 (100 * millisecond)"
    by (simp add: new_consumer_def idle_env_def)
  with p show ?thesis by (simp add: default_retry_plan)
qed

text \<open>A handler that keeps an invariant of its state: a success is its last attempt's.\<close>

lemma retry_from_success:
  assumes "\<And>s w. I s \<Longrightarrow> I (fst (snd (h (s, w))))" "I s" "retry_from n h (aside wt) a b le (s, w) = (r, s', w')"
  shows "I s' \<and> (r = None \<longrightarrow> n = 0 \<and> le = None \<or> (\<exists>s0 u. I s0 \<and> h (s0, u) = (None, s', w')))"
  using assms(2,3)
proof (induction n arbitrary: a b le s w)
  case (Suc n)
  obtain c w1 where c: "(if a > 0 then aside wt b (s, w) else (None, s, w)) = (c, s, w1)"
    by (cases "wt b w"; cases "a > 0") (auto simp: aside_def)
  show ?case
  proof (cases c)
    case None
    obtain r1 s2 w2 where h: "h (s, w1) = (r1, s2, w2)" by (metis prod.collapse)
    then have i: "I s2" using assms(1) [OF Suc.prems(1), of w1] by simp
    show ?thesis
    proof (cases r1)
      case None
      then show ?thesis using Suc.prems c \<open>c = None\<close> h i by (auto simp: Let_def)
    next
      case (Some e)
      then have "retry_from n h (aside wt) (a + 1) (if a > 0 then s64 (b * 2) else b) (Some e) (s2, w2) = (r, s', w')"
        using Suc.prems(2) c \<open>c = None\<close> h by (simp add: Let_def)
      from Suc.IH [OF i this] show ?thesis by simp
    qed
  qed (use Suc.prems c in auto)
qed simp

subsection \<open>Commits and dead letters\<close>

lemma retry_fails:
  assumes "\<forall>u. fst (h u) \<noteq> None"
  shows "n > 0 \<or> le \<noteq> None \<Longrightarrow> fst (retry_from n h wait a b le u) \<noteq> None"
proof (induction n arbitrary: a b le u)
  case (Suc n)
  obtain c w1 where c: "(if a > 0 then wait b u else (None, u)) = (c, w1)" by force
  obtain r w2 where h: "h w1 = (r, w2)" by force
  with assms have "r \<noteq> None" by (metis fst_conv)
  with c h Suc.IH show ?case by (cases c; cases r) (simp_all add: Let_def)
qed simp

text \<open>
  Every fetched message is committed and the loop goes on, also when the handler fails on every
  attempt and the dead-letter write fails; in that case the write is attempted first.
\<close>

theorem fetched_message_is_committed:
  assumes "ce_ctx_err E w = None" "ce_limit E w = (None, w1)" "ce_fetch E w1 = (Inr msg, w2)"
  shows "\<exists>s' w4. consume_iter S E ec handler (s, w) = (True, s', snd (ce_commit E msg w4)) \<and>
    ((\<forall>t k v u. fst (handler t k v u) \<noteq> None) \<longrightarrow> 0 \<le> ec_max_retries ec \<longrightarrow> ec_dlq ec = Some ep \<longrightarrow>
      (\<exists>w3. w4 = snd (send_to_dlq S ep (mi_key msg) (GBytes (mi_value msg)) w3)))"
proof -
  obtain err s' w3 where p: "process_with_retry E ec handler (extract_trace_id (mi_headers msg)) (mi_key msg) (mi_value msg) (s, w2) = (err, s', w3)"
    by (metis prod.collapse)
  have err: "\<exists>e. err = Some e" if "\<forall>t k v u. fst (handler t k v u) \<noteq> None" "0 \<le> ec_max_retries ec"
  proof -
    have "0 < nat (ec_max_retries ec + 1)" using that(2) by simp
    then have "fst (process_with_retry E ec handler (extract_trace_id (mi_headers msg)) (mi_key msg) (mi_value msg) (s, w2)) \<noteq> None"
      unfolding process_with_retry_def using that(1) by (intro retry_fails) blast+
    with p show ?thesis by simp
  qed
  define w4 where "w4 = (case (err, ec_dlq ec) of
      (Some e, Some ep) \<Rightarrow> snd (send_to_dlq S ep (mi_key msg) (GBytes (mi_value msg)) w3) | _ \<Rightarrow> w3)"
  have "consume_iter S E ec handler (s, w) = (True, s', snd (ce_commit E msg w4))"
    using assms p by (simp add: consume_iter_def w4_def Let_def)
  moreover have "\<exists>w3. w4 = snd (send_to_dlq S ep (mi_key msg) (GBytes (mi_value msg)) w3)"
    if "\<forall>t k v u. fst (handler t k v u) \<noteq> None" "0 \<le> ec_max_retries ec" "ec_dlq ec = Some ep"
    using err [OF that(1,2)] that(3) by (auto simp: w4_def)
  ultimately show ?thesis by blast
qed

theorem fetched_message_is_committed_witness:
  "fst (consume_iter ref_services \<lparr>ce_ctx_err = (\<lambda>w. None), ce_limit = (\<lambda>w. (None, w)),
       ce_fetch = (\<lambda>w. (Inr \<lparr>mi_key = ''1'', mi_value = JText JNull, mi_headers = []\<rparr>, w)),
       ce_wait = (\<lambda>d w. (None, w)), ce_commit = (\<lambda>m w. (Some redis_nil, w))\<rparr>
     (new_consumer ''order-create'' 8 2000 3 None False) (\<lambda>t k v w. (Some type_error, w)) ((), ref_init 0))"
proof -
  let ?msg = "\<lparr>mi_key = ''1'', mi_value = JText JNull, mi_headers = []\<rparr>"
  let ?E = "\<lparr>ce_ctx_err = (\<lambda>w. None), ce_limit = (\<lambda>w. (None, w)), ce_fetch = (\<lambda>w. (Inr ?msg, w)),
       ce_wait = (\<lambda>d w. (None, w)), ce_commit = (\<lambda>m w. (Some redis_nil, w))\<rparr> :: ref_world consumer_env"
  show ?thesis
    using fetched_message_is_committed [of ?E "ref_init 0" "ref_init 0" ?msg "ref_init 0" ref_services
        "new_consumer ''order-create'' 8 2000 3 None False" "\<lambda>t k v w. (Some type_error, w)" "()"]
    by (metis consumer_env.select_convs(1-3) fst_conv)
qed

text \<open>
  Where dead letters go with the default configuration: the DLQ producer is built on the DLQ
  topic and appends its own suffix to it.
\<close>

definition dlq_producer :: "'w kafka_admin \<Rightarrow> app_config \<Rightarrow> 'w \<Rightarrow> producer \<times> 'w" where
  "dlq_producer A cfg w =
     new_producer A (kc_brokers (cfg_kafka cfg)) (csc_dlq_topic (kc_consumer (cfg_kafka cfg)))
       (pc_max_retries (kc_producer (cfg_kafka cfg))) w"

text \<open>
  With the default configuration dead letters go to order-create.dlq.dlq, not to the configured
  dead-letter topic.
\<close>

theorem dead_letters_miss_the_topic:
  "ep_dlq_topic (fst (dlq_producer A default_config w)) = ''order-create.dlq.dlq'' \<and>
   csc_dlq_topic (kc_consumer (cfg_kafka default_config)) = ''order-create.dlq''"
  by (simp add: dlq_producer_def new_producer_def default_config_def default_kafka_def)

subsection \<open>Sinks for events\<close>

text \<open>What the services expect of a producer, and what follows for a batch of events.\<close>

locale event_sink =
  fixes send :: "string \<Rightarrow> gval \<Rightarrow> 's \<Rightarrow> goerr option \<times> 's"
    and sent :: "'s \<Rightarrow> (string \<times> wire) list" and up :: "'s \<Rightarrow> bool"
  assumes send_ok: "up s \<Longrightarrow> fst (send k v s) = None \<and> up (snd (send k v s)) \<and>
    sent (snd (send k v s)) = sent s @ [(k, JText (marshal v))]"
begin

lemma publish_all:
  "up s \<Longrightarrow> up (fold (\<lambda>(k, v) s. snd (send k v s)) kvs s) \<and>
     sent (fold (\<lambda>(k, v) s. snd (send k v s)) kvs s) = sent s @ map (\<lambda>(k, v). (k, JText (marshal v))) kvs"
  by (induction kvs arbitrary: s) (auto simp: send_ok)

end

definition mock_sent :: "mock_producer \<Rightarrow> (string \<times> wire) list" where
  "mock_sent mp = map (\<lambda>m. (mm_key m, mm_value m)) (filter (\<lambda>m. mm_topic m = []) (mp_messages mp))"

interpretation mock: event_sink mock_send mock_sent "\<lambda>mp. \<not> mp_closed mp \<and> mp_send_err mp = None"
  by unfold_locales (simp add: mock_send_def mock_sent_def)

interpretation mock_dlq: event_sink mock_send_to_dlq
  "\<lambda>mp. map (\<lambda>m. (mm_key m, mm_value m)) (filter (\<lambda>m. mm_topic m = ''dlq'') (mp_messages mp))" "\<lambda>mp. \<not> mp_closed mp"
  by unfold_locales (simp add: mock_send_to_dlq_def)

definition topic_log :: "string \<Rightarrow> ref_world \<Rightarrow> (string \<times> wire) list" where
  "topic_log topic w = map (\<lambda>(t, m). (km_key m, km_value m)) (filter (\<lambda>(t, m). t = topic) (rf_sent w))"

interpretation kafka: event_sink "producer_send ref_services ep trace_id" "topic_log (ep_topic ep)" "\<lambda>_. True" for ep trace_id
  by unfold_locales (simp add: producer_send_def ref_services_def topic_log_def Let_def)

text \<open>
  The mock producer keeps every message of a batch, in order, as the real one would send them.
\<close>

theorem mock_producer_is_fifo:
  assumes "\<not> mp_closed mp" "mp_send_err mp = None"
  shows "mock_sent (fold (\<lambda>(k, v) s. snd (mock_send k v s)) kvs mp) =
      mock_sent mp @ map (\<lambda>(k, v). (k, JText (marshal v))) kvs \<and>
    mock_message_count (fold (\<lambda>(k, v) s. snd (mock_send k v s)) kvs mp) = mock_message_count mp + length kvs"
proof -
  have "mock_message_count (fold (\<lambda>(k, v) s. snd (mock_send k v s)) kvs mp) = mock_message_count mp + length kvs"
    using assms
  proof (induction kvs arbitrary: mp)
    case (Cons kv kvs)
    then show ?case by (cases kv) (simp add: mock_send_def mock_message_count_def)
  qed (simp add: mock_message_count_def)
  with mock.publish_all [of mp kvs] assms show ?thesis by simp
qed

theorem mock_producer_is_fifo_witness:
  "mock_sent (fold (\<lambda>(k, v) s. snd (mock_send k v s)) [(''1'', GStr ''a''), (''2'', GStr ''b'')] new_mock_producer) =
     [(''1'', JText (JStr ''a'')), (''2'', JText (JStr ''b''))]"
  using mock_producer_is_fifo [of new_mock_producer "[(''1'', GStr ''a''), (''2'', GStr ''b'')]"]
  by (simp add: new_mock_producer_def mock_sent_def)

text \<open>The trace id of the sender is the one the consumer extracts, however times are printed.\<close>

definition read_headers :: "(time \<Rightarrow> string) \<Rightarrow> (string \<times> header_value) list \<Rightarrow> (string \<times> string) list" where
  "read_headers rfc3339 = map (\<lambda>(k, h). (k, case h of HText s \<Rightarrow> s | HTime t \<Rightarrow> rfc3339 t))"

text \<open>
  The trace id a producer attaches to a message is the one the consumer extracts from its headers.
\<close>

theorem trace_id_survives_kafka:
  "\<exists>m. rf_sent (snd (producer_send ref_services ep trace_id key v w)) = rf_sent w @ [(ep_topic ep, m)] \<and>
     km_key m = key \<and> km_value m = JText (marshal v) \<and>
     extract_trace_id (read_headers rfc3339 (km_headers m)) = trace_id"
  by (simp add: producer_send_def ref_services_def Let_def read_headers_def)

end
