(* ===== verification/Rwdb.thy ===== *)
theory Rwdb
  imports Services "HOL-Library.Multiset"
begin

section \<open>Read/write splitting (internal/database/rwdb.go)\<close>

text \<open>
  \<open>RWDB\<close> sends writes to the master and spreads reads over the replicas with an atomic
  \<open>uint32\<close> counter. A \<open>*sql.DB\<close> is a handle (a number) that the services know. The
  theory holds the operations and the fairness of the rotation, up to the counter's wrap.
\<close>

record rwdb =
  rw_master :: "nat option"
  rw_replicas :: "nat list"
  rw_next :: "32 word"

definition new_rwdb :: "nat option \<Rightarrow> nat list \<Rightarrow> rwdb" where
  "new_rwdb master replicas = \<lparr>rw_master = master, rw_replicas = replicas, rw_next = 0\<rparr>"

definition rw_replica :: "rwdb \<Rightarrow> nat option \<times> rwdb" where
  "rw_replica rw =
     (if rw_replicas rw = [] then (rw_master rw, rw)
      else
        (let idx = rw_next rw + 1
         in (Some (rw_replicas rw ! (unat idx mod length (rw_replicas rw))), rw\<lparr>rw_next := idx\<rparr>)))"

text \<open>The handle that the next query of a pool goes to.\<close>

definition asked_handle :: "rwdb option \<Rightarrow> nat option" where
  "asked_handle db = (case db of None \<Rightarrow> None | Some rw \<Rightarrow> fst (rw_replica rw))"

definition rw_exec :: "'w services \<Rightarrow> rwdb \<Rightarrow> string \<Rightarrow> gval list \<Rightarrow> 'w \<Rightarrow> goerr option \<times> 'w" where
  "rw_exec S rw query args w =
     (case rw_master rw of
        None \<Rightarrow> (Some (Errorf ''rwdb: master not available''), w)
      | Some db \<Rightarrow> sql_exec S db query args w)"

definition rw_query :: "'w services \<Rightarrow> string \<Rightarrow> gval list \<Rightarrow> rwdb \<times> 'w \<Rightarrow> (goerr + gval list list \<times> goerr option) \<times> rwdb \<times> 'w" where
  "rw_query S query args = (\<lambda>(rw, w).
     case rw_replica rw of
       (None, rw1) \<Rightarrow> (Inl (Errorf ''rwdb: no db available''), rw1, w)
     | (Some db, rw1) \<Rightarrow> (case sql_query S db query args w of (r, w1) \<Rightarrow> (r, rw1, w1)))"

text \<open>
  \<open>QueryRowContext\<close> followed by \<open>Scan\<close>. Without a database the row is a nil pointer, and
  \<open>Scan\<close> on it panics: \<open>None\<close>.
\<close>

definition rw_query_row ::
  "'w services \<Rightarrow> string \<Rightarrow> gval list \<Rightarrow> rwdb \<times> 'w \<Rightarrow> ((goerr + order) \<times> rwdb \<times> 'w) option" where
  "rw_query_row S query args = (\<lambda>(rw, w).
     case rw_replica rw of
       (None, rw1) \<Rightarrow> None
     | (Some db, rw1) \<Rightarrow> (case sql_row S db query args w of (r, w1) \<Rightarrow> Some (r, rw1, w1)))"

definition rw_ping :: "'w services \<Rightarrow> rwdb \<Rightarrow> 'w \<Rightarrow> goerr option \<times> 'w" where
  "rw_ping S rw w =
     (case rw_master rw of
        None \<Rightarrow> (Some (Errorf ''rwdb: master not available''), w)
      | Some db \<Rightarrow> sql_ping S db w)"

definition rw_is_nil :: "rwdb \<Rightarrow> bool" where
  "rw_is_nil rw = (rw_master rw = None)"

definition rw_close :: "'w services \<Rightarrow> rwdb \<Rightarrow> 'w \<Rightarrow> 'w" where
  "rw_close S rw w =
     fold (sql_close S) (rw_replicas rw)
       (case rw_master rw of None \<Rightarrow> w | Some db \<Rightarrow> sql_close S db w)"

subsection \<open>Fairness\<close>

primrec replica_picks :: "nat \<Rightarrow> rwdb \<Rightarrow> nat option list" where
  "replica_picks 0 rw = []"
| "replica_picks (Suc n) rw = (case rw_replica rw of (r, rw') \<Rightarrow> r # replica_picks n rw')"

lemma replica_picks_rotation:
  assumes "rw_replicas rw \<noteq> []" "unat (rw_next rw) + n < 2 ^ 32"
  shows "replica_picks n rw =
    map (\<lambda>i. Some (rw_replicas rw ! ((unat (rw_next rw) + 1 + i) mod length (rw_replicas rw)))) [0..<n]"
  using assms
proof (induction n arbitrary: rw)
  case (Suc n)
  have u: "unat (rw_next rw + 1) = unat (rw_next rw) + 1"
    using Suc.prems(2) by (simp add: unat_word_ariths(1))
  let ?rw = "rw\<lparr>rw_next := rw_next rw + 1\<rparr>"
  have "replica_picks n ?rw =
      map (\<lambda>i. Some (rw_replicas rw ! ((unat (rw_next rw) + 2 + i) mod length (rw_replicas rw)))) [0..<n]"
    using Suc.IH [of ?rw] Suc.prems u by simp
  then show ?case using Suc.prems(1) u
    by (simp add: rw_replica_def Let_def map_upt_Suc del: upt_Suc)
qed simp

lemma rotation_inj: "inj_on (\<lambda>i. (c + i) mod n) {0..<n :: nat}"
  unfolding inj_on_def by (metis atLeastLessThan_iff rotate_mod_inj)

text \<open>
  As many reads in a row as there are replicas go to each replica once, as long as the 32-bit
  counter does not wrap.
\<close>

theorem reads_rotate_over_replicas:
  assumes "rw_replicas rw \<noteq> []" "unat (rw_next rw) + length (rw_replicas rw) < 2 ^ 32"
  shows "mset (replica_picks (length (rw_replicas rw)) rw) = mset (map Some (rw_replicas rw))"
proof -
  let ?rs = "rw_replicas rw" and ?n = "length (rw_replicas rw)"
  let ?f = "\<lambda>i. (unat (rw_next rw) + 1 + i) mod ?n"
  have "?f ` {0..<?n} \<subseteq> {0..<?n}" using assms(1) by auto
  then have "?f ` {0..<?n} = {0..<?n}" using rotation_inj [of "unat (rw_next rw) + 1" ?n]
    by (intro endo_inj_surj) simp_all
  then have "image_mset ?f (mset_set {0..<?n}) = mset_set {0..<?n}"
    using rotation_inj [of "unat (rw_next rw) + 1" ?n] by (simp add: image_mset_mset_set)
  moreover have "mset (replica_picks ?n rw) = image_mset (\<lambda>i. Some (?rs ! i)) (image_mset ?f (mset_set {0..<?n}))"
    by (simp add: replica_picks_rotation [OF assms] image_mset.compositionality o_def)
  moreover have "image_mset (\<lambda>i. Some (?rs ! i)) (mset_set {0..<?n}) = mset (map Some ?rs)"
  proof -
    have "map (\<lambda>i. Some (?rs ! i)) [0..<?n] = map Some ?rs" by (rule nth_equalityI) simp_all
    then show ?thesis by (metis mset_map mset_upt)
  qed
  ultimately show ?thesis by simp
qed

theorem reads_rotate_over_replicas_witness:
  "mset (replica_picks 3 (new_rwdb (Some 0) [1, 2, 3])) = mset [Some 1, Some 2, Some 3]"
  using reads_rotate_over_replicas [of "new_rwdb (Some 0) [1, 2, 3]"]
  by (simp add: new_rwdb_def numeral_3_eq_3 del: replica_picks.simps One_nat_def)

text \<open>At the wrap of the counter the rotation starts over out of turn.\<close>

lemma rotation_at_wrap:
  "replica_picks (Suc (Suc 0)) \<lparr>rw_master = Some 0, rw_replicas = [1, 2, 3], rw_next = 0xFFFFFFFE\<rparr> = [Some 1, Some 1]"
  by (simp add: rw_replica_def Let_def take_bit_eq_mod)

end
