(* ===== verification/Order_Service.thy ===== *)
theory Order_Service
  imports Cache Messaging Rwdb Rate_Limiter Circuit_Breaker
begin

section \<open>The order service (internal/service/order_service.go)\<close>

text \<open>
  \<open>OrderService\<close>: creation with its two channels, the forced synchronous creation, the Kafka
  callback, the query through the cache, the database write and read, the bounded
  Elasticsearch indexing and the order numbers. The service's own state is a record; calls
  of the lock, the database, Kafka and the clock go through the services. Work that a call
  leaves to goroutines is a list of pending tasks. \<open>None\<close> is a call that does not return (the
  lock loop) or panics.
\<close>

record 'w order_service =
  os_cache :: "'w mlc"
  os_producer :: "producer option"
  os_rl :: limiter
  os_lock :: bool
  os_cb :: breaker
  os_db :: "rwdb option"
  os_search :: bool
  os_es_slots :: nat
  os_es_pending :: "order list"
  os_async :: "async_send list"
  os_seq :: "64 word"
  os_rand_id :: "nat list"

definition es_max_concurrency :: nat where "es_max_concurrency = 100"

definition new_order_service ::
  "'w mlc \<Rightarrow> producer option \<Rightarrow> limiter \<Rightarrow> bool \<Rightarrow> breaker \<Rightarrow> rwdb option \<Rightarrow> bool \<Rightarrow> 64 word \<Rightarrow> nat list \<Rightarrow> 'w order_service" where
  "new_order_service c p rl lk cb db search seq rid =
     \<lparr>os_cache = c, os_producer = p, os_rl = rl, os_lock = lk, os_cb = cb, os_db = db, os_search = search,
      os_es_slots = 0, os_es_pending = [], os_async = [], os_seq = seq, os_rand_id = rid\<rparr>"

subsection \<open>Order numbers\<close>

text \<open>\<open>binary.BigEndian.Uint64\<close> of the eight random bytes.\<close>

definition be_uint64 :: "nat list \<Rightarrow> nat" where
  "be_uint64 bs = foldl (\<lambda>a b. 256 * a + b) 0 (take 8 bs)"

text \<open>\<open>init\<close>: eight random bytes, or the clock when reading them failed; the low 16 bits of the clock.\<close>

definition be_bytes :: "nat \<Rightarrow> nat list" where
  "be_bytes n = map (\<lambda>i. n div 256 ^ (7 - i) mod 256) [0..<8]"

definition init_order_ids :: "nat list option \<Rightarrow> time \<Rightarrow> time \<Rightarrow> 64 word \<times> nat list" where
  "init_order_ids rnd t1 t2 =
     (and (word_of_int t2) 0xFFFF,
      (case rnd of Some b \<Rightarrow> b | None \<Rightarrow> be_bytes (nat (t1 mod 2 ^ 64))))"

definition format_order_no :: "nat \<Rightarrow> nat \<Rightarrow> nat \<Rightarrow> string" where
  "format_order_no user seq rand = ''ORD'' @ dec user @ dec_pad 5 seq @ dec_pad 3 rand"

definition generate_order_no :: "int \<Rightarrow> 'w order_service \<Rightarrow> string \<times> 'w order_service" where
  "generate_order_no user_id os =
     (let n = os_seq os + 1;
          seq = unat n mod 100000;
          rand_part = be_uint64 (os_rand_id os) mod 1000
      in (format_order_no (nat user_id) seq rand_part, os\<lparr>os_seq := n\<rparr>))"

subsection \<open>Database access\<close>

definition order_key :: "string \<Rightarrow> string" where
  "order_key no = ''order:'' @ no"

definition insert_order_sql :: string where
  "insert_order_sql = ''INSERT INTO orders (user_id, order_no, amount, status, created_at, updated_at) VALUES (?, ?, ?, ?, ?, ?) ON DUPLICATE KEY UPDATE amount=VALUES(amount), status=VALUES(status), updated_at=VALUES(updated_at)''"

definition select_order_sql :: string where
  "select_order_sql = ''SELECT id, user_id, order_no, amount, status, created_at, updated_at FROM orders WHERE order_no = ?''"

definition order_args :: "order \<Rightarrow> gval list" where
  "order_args od = [GInt (ord_user_id od), GStr (ord_order_no od), GNum (ord_amount od), GStr (ord_status od),
     GTimeText (ord_created_at od), GTimeText (ord_updated_at od)]"

text \<open>\<open>indexOrderToES\<close>: a slot if one is free, otherwise the order is not indexed.\<close>

definition index_order_to_es :: "order \<Rightarrow> 'w order_service \<Rightarrow> 'w order_service" where
  "index_order_to_es od os =
     (if os_es_slots os < es_max_concurrency
      then os\<lparr>os_es_slots := os_es_slots os + 1, os_es_pending := os_es_pending os @ [od]\<rparr>
      else os)"

text \<open>One indexing goroutine runs and gives its slot back.\<close>

definition run_es_task :: "'w services \<Rightarrow> nat \<Rightarrow> 'w order_service \<times> 'w \<Rightarrow> 'w order_service \<times> 'w" where
  "run_es_task S i = (\<lambda>(os, w).
     if i < length (os_es_pending os)
     then (os\<lparr>os_es_slots := os_es_slots os - 1,
              os_es_pending := take i (os_es_pending os) @ drop (Suc i) (os_es_pending os)\<rparr>,
           snd (es_index_order S (os_es_pending os ! i) w))
     else (os, w))"

definition db_missing :: "'w order_service \<Rightarrow> bool" where
  "db_missing os = (case os_db os of None \<Rightarrow> True | Some rw \<Rightarrow> rw_is_nil rw)"

definition db_write :: "'w services \<Rightarrow> order \<Rightarrow> 'w order_service \<times> 'w \<Rightarrow> goerr option \<times> 'w order_service \<times> 'w" where
  "db_write S od = (\<lambda>(os, w).
     case (if db_missing os then None else os_db os) of
       None \<Rightarrow> (None, os, cache_set S (os_cache os) (order_key (ord_order_no od)) (GOrder od) w)
     | Some rw \<Rightarrow>
         (case rw_exec S rw insert_order_sql (order_args od) w of
            (Some e, w1) \<Rightarrow> (Some (Wrap ''db insert'' e), os, w1)
          | (None, w1) \<Rightarrow>
              (let w2 = cache_set S (os_cache os) (order_key (ord_order_no od)) (GOrder od) w1
               in (None, if os_search os then index_order_to_es od os else os, w2))))"

definition not_found_error :: "string \<Rightarrow> goerr" where
  "not_found_error no = Errorf (''order not found: '' @ no)"

definition db_query :: "'w services \<Rightarrow> string \<Rightarrow> 'w order_service \<times> 'w \<Rightarrow> ((goerr + order) \<times> 'w order_service \<times> 'w) option" where
  "db_query S no = (\<lambda>(os, w).
     case (if db_missing os then None else os_db os) of
       None \<Rightarrow> Some (Inl (Errorf ''database not available''), os, w)
     | Some rw \<Rightarrow>
         (case rw_query_row S select_order_sql [GStr no] (rw, w) of
            None \<Rightarrow> None
          | Some (r, rw1, w1) \<Rightarrow>
              (let os1 = os\<lparr>os_db := Some rw1\<rparr>
               in case r of
                    Inl e \<Rightarrow>
                      if e = sql_no_rows
                      then Some (Inl (not_found_error no), os1, cache_set_null S (os_cache os) (order_key no) w1)
                      else Some (Inl (Wrap ''db query'' e), os1, w1)
                  | Inr od \<Rightarrow> Some (Inr od, os1, cache_set S (os_cache os) (order_key no) (GOrder od) w1))))"

subsection \<open>Events\<close>

definition unix_milli :: "time \<Rightarrow> int" where
  "unix_milli t = s64 (t div 1000000)"

definition order_event :: "string \<Rightarrow> time \<Rightarrow> order \<Rightarrow> gval" where
  "order_event trace_id now od =
     GEvent (BusinessEvent (ord_order_no od) ''ORDER_CREATE'' (unix_milli now) trace_id (GOrder od))"

definition user_key :: "order \<Rightarrow> string" where
  "user_key od = dec (nat (ord_user_id od))"

definition publish_order_event :: "'w services \<Rightarrow> string \<Rightarrow> order \<Rightarrow> 'w order_service \<times> 'w \<Rightarrow> 'w order_service \<times> 'w" where
  "publish_order_event S trace_id od = (\<lambda>(os, w).
     case os_producer os of
       None \<Rightarrow> (os, w)
     | Some ep \<Rightarrow>
         (case sv_now S w of (now, w1) \<Rightarrow>
            (os\<lparr>os_async := send_async trace_id (user_key od) (order_event trace_id now od) (os_async os)\<rparr>, w1)))"

text \<open>A send left by \<open>SendAsync\<close> runs.\<close>

definition run_async_task :: "'w services \<Rightarrow> nat \<Rightarrow> 'w order_service \<times> 'w \<Rightarrow> 'w order_service \<times> 'w" where
  "run_async_task S i = (\<lambda>(os, w).
     case os_producer os of
       None \<Rightarrow> (os, w)
     | Some ep \<Rightarrow>
         if i < length (os_async os)
         then (os\<lparr>os_async := take i (os_async os) @ drop (Suc i) (os_async os)\<rparr>,
               snd (run_async S ep (os_async os ! i) w))
         else (os, w))"

subsection \<open>Creation\<close>

text \<open>What a creation returns: channel, order number, error.\<close>

type_synonym create_result = "string \<times> string \<times> goerr option"

definition create_async ::
  "'w services \<Rightarrow> string \<Rightarrow> order \<Rightarrow> 'w order_service \<times> 'w \<Rightarrow> create_result \<times> 'w order_service \<times> 'w" where
  "create_async S trace_id od = (\<lambda>(os, w).
     case sv_now S w of (now, w1) \<Rightarrow>
       (case os_producer os of
          None \<Rightarrow> ((''async'', ord_order_no od, None), os, w1)
        | Some ep \<Rightarrow>
            (case producer_send S ep trace_id (user_key od) (order_event trace_id now od) w1 of
               (Some e, w2) \<Rightarrow> ((''async'', ord_order_no od, Some (Wrap ''kafka send'' e)), os, w2)
             | (None, w2) \<Rightarrow> ((''async'', ord_order_no od, None), os, w2))))"

text \<open>
  The common part of the two synchronous paths: write, feed the breaker, invalidate with
  delay, publish. \<open>fail_channel\<close> is the channel named when the write fails.
\<close>

definition write_and_publish ::
  "'w services \<Rightarrow> string \<Rightarrow> string \<Rightarrow> order \<Rightarrow> time \<Rightarrow> 'w order_service \<times> 'w \<Rightarrow> create_result \<times> 'w order_service \<times> 'w" where
  "write_and_publish S fail_channel trace_id od start osw =
     (case db_write S od osw of
        (err, os1, w1) \<Rightarrow>
          (case sv_now S w1 of (now, w2) \<Rightarrow>
             (let elapsed = time_sub now start
              in case err of
                   Some e \<Rightarrow>
                     (case sv_now S w2 of (t, w3) \<Rightarrow>
                        ((fail_channel, ord_order_no od, Some e),
                         os1\<lparr>os_cb := record_failure t (os_cb os1)\<rparr>, w3))
                 | None \<Rightarrow>
                     (case sv_now S w2 of (t, w3) \<Rightarrow>
                      (let os2 = os1\<lparr>os_cb := record_success elapsed t (os_cb os1)\<rparr>
                       in case invalidate_with_delay S (order_key (ord_order_no od)) 500 (os_cache os2, w3) of
                            (c, w4) \<Rightarrow>
                              (case publish_order_event S trace_id od (os2\<lparr>os_cache := c\<rparr>, w4) of
                                 (os3, w5) \<Rightarrow> ((''sync'', ord_order_no od, None), os3, w5)))))))"

definition create_lock_key :: "order \<Rightarrow> string" where
  "create_lock_key od = ''order:create:'' @ ord_order_no od"

definition unlock_if :: "'w services \<Rightarrow> order \<Rightarrow> string option \<Rightarrow> 'w \<Rightarrow> 'w" where
  "unlock_if S od token w =
     (case token of None \<Rightarrow> w | Some t \<Rightarrow> snd (lock_release S (create_lock_key od) t w))"

definition create_sync ::
  "'w services \<Rightarrow> string \<Rightarrow> order \<Rightarrow> 'w order_service \<times> 'w \<Rightarrow> (create_result \<times> 'w order_service \<times> 'w) option" where
  "create_sync S trace_id od = (\<lambda>(os, w).
     case sv_now S w of (start, w1) \<Rightarrow>
       (case (if os_lock os
              then map_option (\<lambda>(r, w2). (case r of Inl e \<Rightarrow> None | Inr t \<Rightarrow> Some (Some t), w2))
                (lock_acquire S (create_lock_key od) (5 * second) (200 * millisecond) w1)
              else Some (Some None, w1)) of
          None \<Rightarrow> None
        | Some (None, w2) \<Rightarrow> Some (create_async S trace_id od (os, w2))
        | Some (Some token, w2) \<Rightarrow>
            (case write_and_publish S ''async'' trace_id od start (os, w2) of
               (r, os3, w3) \<Rightarrow> Some (r, os3, unlock_if S od token w3))))"

text \<open>The fields a creation fills in before it chooses a channel.\<close>

definition prepare_order :: "'w services \<Rightarrow> order \<Rightarrow> 'w order_service \<times> 'w \<Rightarrow> order \<times> 'w order_service \<times> 'w" where
  "prepare_order S od = (\<lambda>(os, w).
     case generate_order_no (ord_user_id od) os of (no, os1) \<Rightarrow>
     case sv_now S w of (now, w1) \<Rightarrow>
       (od\<lparr>ord_order_no := no, ord_status := ''pending'', ord_created_at := now, ord_updated_at := now\<rparr>, os1, w1))"

definition create_order ::
  "'w services \<Rightarrow> string \<Rightarrow> order \<Rightarrow> 'w order_service \<times> 'w \<Rightarrow> (create_result \<times> 'w order_service \<times> 'w) option" where
  "create_order S trace_id od0 osw =
     (case prepare_order S od0 osw of (od, os, w) \<Rightarrow>
        (case sv_now S w of (t, w1) \<Rightarrow>
           if \<not> cb_allow t (os_cb os) then Some (create_async S trace_id od (os, w1))
           else
             (case sv_now S w1 of (t', w2) \<Rightarrow>
                (case try_acquire t' (os_rl os) of (ok, rl) \<Rightarrow>
                   (let os1 = os\<lparr>os_rl := rl\<rparr>
                    in if ok then create_sync S trace_id od (os1, w2)
                       else Some (create_async S trace_id od (os1, w2)))))))"

definition create_order_force_sync ::
  "'w services \<Rightarrow> string \<Rightarrow> order \<Rightarrow> 'w order_service \<times> 'w \<Rightarrow> (create_result \<times> 'w order_service \<times> 'w) option" where
  "create_order_force_sync S trace_id od0 osw =
     (case prepare_order S od0 osw of (od, os, w) \<Rightarrow>
        (case sv_now S w of (start, w1) \<Rightarrow>
           (case (if os_lock os
                  then map_option (\<lambda>(r, w2). (case r of Inl e \<Rightarrow> None | Inr t \<Rightarrow> Some t, w2))
                    (lock_acquire S (create_lock_key od) (5 * second) (200 * millisecond) w1)
                  else Some (None, w1)) of
              None \<Rightarrow> None
            | Some (token, w2) \<Rightarrow>
                (case write_and_publish S ''sync'' trace_id od start (os, w2) of
                   (r, os3, w3) \<Rightarrow> Some (r, os3, unlock_if S od token w3)))))"

subsection \<open>The Kafka callback and the query\<close>

definition handle_order_event ::
  "'w services \<Rightarrow> wire \<Rightarrow> 'w order_service \<times> 'w \<Rightarrow> goerr option \<times> 'w order_service \<times> 'w" where
  "handle_order_event S val osw =
     (case (case val of Raw s \<Rightarrow> (Some syntax_error, BusinessEvent [] [] 0 [] GNil) | JText j \<Rightarrow> unmarshal_event j) of
        (Some e, ev) \<Rightarrow> (Some (Wrap ''unmarshal event'' e), osw)
      | (None, ev) \<Rightarrow>
          (case unmarshal_order (marshal (ev_payload ev)) of
             (Some e, od) \<Rightarrow> (Some (Wrap ''unmarshal order'' e), osw)
           | (None, od) \<Rightarrow>
               (case db_write S od osw of
                  (Some e, osw1) \<Rightarrow> (Some (Wrap ''async db write'' e), osw1)
                | (None, os1, w1) \<Rightarrow>
                    (None, os1, invalidate S (os_cache os1) (order_key (ord_order_no od)) w1))))"

definition get_order ::
  "'w services \<Rightarrow> string \<Rightarrow> 'w order_service \<times> 'w \<Rightarrow> ((goerr + order) \<times> 'w order_service \<times> 'w) option" where
  "get_order S no = (\<lambda>(os, w).
     case cache_get S (os_cache os) (order_key no) w of
       None \<Rightarrow> None
     | Some ((v, found, err), c, w1) \<Rightarrow>
         (let os1 = os\<lparr>os_cache := c\<rparr>
          in case err of
               Some e \<Rightarrow> Some (Inl e, os1, w1)
             | None \<Rightarrow>
                 if found \<and> v = GNil then Some (Inl (not_found_error no), os1, w1)
                 else if found then
                   (case v of
                      GOrder od \<Rightarrow> Some (Inr od, os1, w1)
                    | GMap kvs \<Rightarrow> Some (Inr (snd (unmarshal_order (marshal (GMap kvs)))), os1, w1)
                    | _ \<Rightarrow> db_query S no (os1, w1))
                 else db_query S no (os1, w1)))"

definition get_cache_stats :: "'w order_service \<Rightarrow> cache_stats" where
  "get_cache_stats os = cache_stats_of (os_cache os)"

section \<open>Order numbers\<close>

text \<open>
  The number is decoded from its end: three digits for the process, five for the sequence,
  the rest is the user. So it determines its three parts, and two numbers of one process
  agree only for the same user and the same sequence value modulo 100000.
\<close>

lemma append_inj_right: "length b = length d \<Longrightarrow> a @ b = c @ d \<longleftrightarrow> a = c \<and> b = d"
  by (rule append_eq_append_conv) simp

lemma dec_pad_inj: "dec_pad w m = dec_pad w n \<longleftrightarrow> m = n"
  by (metis undec_dec_pad)

lemma format_order_no_inj:
  assumes "s < 100000" "s' < 100000" "r < 1000" "r' < 1000"
  shows "format_order_no u s r = format_order_no u' s' r' \<longleftrightarrow> u = u' \<and> s = s' \<and> r = r'"
proof -
  have "length (dec_pad 5 s) = 5" "length (dec_pad 5 s') = 5" "length (dec_pad 3 r) = 3" "length (dec_pad 3 r') = 3"
    using assms dec_pad_length [of 5] dec_pad_length [of 3] by auto
  then have "(dec u @ dec_pad 5 s) @ dec_pad 3 r = (dec u' @ dec_pad 5 s') @ dec_pad 3 r' \<longleftrightarrow>
      (dec u = dec u' \<and> dec_pad 5 s = dec_pad 5 s') \<and> dec_pad 3 r = dec_pad 3 r'"
    by (simp only: append_inj_right)
  then show ?thesis by (simp add: format_order_no_def dec_inj dec_pad_inj)
qed

text \<open>The numbers given to a list of users, one call after the other.\<close>

primrec order_numbers :: "int list \<Rightarrow> 'w order_service \<Rightarrow> string list" where
  "order_numbers [] os = []"
| "order_numbers (u # us) os = (case generate_order_no u os of (no, os') \<Rightarrow> no # order_numbers us os')"

lemma order_numbers_nth:
  assumes "unat (os_seq os) + length us < 2 ^ 64"
  shows "order_numbers us os =
    map (\<lambda>i. format_order_no (nat (us ! i)) ((unat (os_seq os) + 1 + i) mod 100000) (be_uint64 (os_rand_id os) mod 1000))
      [0..<length us]"
  using assms
proof (induction us arbitrary: os)
  case (Cons u us)
  have u: "unat (os_seq os + 1) = unat (os_seq os) + 1"
    using Cons.prems by (simp add: unat_word_ariths(1))
  let ?os = "os\<lparr>os_seq := os_seq os + 1\<rparr>"
  have "order_numbers us ?os =
    map (\<lambda>i. format_order_no (nat (us ! i)) ((unat (os_seq os) + 2 + i) mod 100000) (be_uint64 (os_rand_id os) mod 1000))
      [0..<length us]"
    using Cons.IH [of ?os] Cons.prems u by simp
  then show ?case by (simp add: generate_order_no_def Let_def u map_upt_Suc del: upt_Suc)
qed simp

text \<open>
  C26: The order numbers of up to 100000 consecutive calls in one process are pairwise distinct,
  whoever the users are, as long as the 64-bit counter does not wrap.
\<close>

theorem order_numbers_distinct:
  assumes "length us \<le> 100000" "unat (os_seq os) + length us < 2 ^ 64"
  shows "distinct (order_numbers us os)"
proof -
  let ?f = "\<lambda>i. format_order_no (nat (us ! i)) ((unat (os_seq os) + 1 + i) mod 100000) (be_uint64 (os_rand_id os) mod 1000)"
  have "inj_on ?f {0..<length us}"
  proof (rule inj_onI)
    fix i j assume ij: "i \<in> {0..<length us}" "j \<in> {0..<length us}" and "?f i = ?f j"
    then have *: "(unat (os_seq os) + 1 + i) mod 100000 = (unat (os_seq os) + 1 + j) mod 100000"
      by (simp add: format_order_no_inj)
    show "i = j" by (rule rotate_mod_inj [OF *]) (use ij assms(1) in simp_all)
  qed
  then show ?thesis by (simp add: order_numbers_nth [OF assms(2)] distinct_map)
qed

definition plain_service :: "rwdb option \<Rightarrow> 64 word \<Rightarrow> ref_world order_service" where
  "plain_service db seq =
     new_order_service (new_cache False None None) None (new_limiter 10 10 0) False
       (new_breaker ''db'' 5 60 30 (fl (1 / 2)) 500 0) db False seq [1, 2, 3, 4, 5, 6, 7, 8]"

theorem order_numbers_distinct_witness:
  "distinct (order_numbers [7, 7, 8] (plain_service None 99998))"
  by (rule order_numbers_distinct) (simp_all add: plain_service_def new_order_service_def)

text \<open>
  \<open>orders\<close> as the statements of the service see it, with its unique key on the number: an
  insert adds the row or, for a number that is there, sets amount, status and update time of
  the old one. \<open>col\<close> is what the columns keep of an order: times in whole seconds, the amount
  as \<open>DECIMAL(12,2)\<close> (\<open>sql/mysql_init.sql\<close>), that is an amount of whole cents as it is and any
  other one up to a cent; \<open>kept_as od row\<close> says so of the fields but id and times.
\<close>

definition kept_as :: "order \<Rightarrow> order \<Rightarrow> bool" where
  "kept_as od row \<longleftrightarrow> ord_order_no row = ord_order_no od \<and> ord_user_id row = ord_user_id od \<and> ord_status row = ord_status od \<and>
     (\<bar>ord_amount od\<bar> < 10 ^ 10 \<longrightarrow> \<bar>ord_amount row - ord_amount od\<bar> \<le> 1 / 100) \<and>
     (\<forall>cents. ord_amount od = fl (of_int cents / 100) \<longrightarrow> \<bar>cents\<bar> < 10 ^ 12 \<longrightarrow> ord_amount row = ord_amount od)"

definition upserted :: "(order \<Rightarrow> order) \<Rightarrow> order \<Rightarrow> (string \<Rightarrow> order option) \<Rightarrow> (string \<Rightarrow> order option) \<Rightarrow> bool" where
  "upserted col od rows rows' \<longleftrightarrow>
     (\<exists>i. rows' = rows(ord_order_no od \<mapsto>
        (case rows (ord_order_no od) of
           None \<Rightarrow> (col od)\<lparr>ord_id := i\<rparr>
         | Some old \<Rightarrow> old\<lparr>ord_amount := ord_amount (col od), ord_status := ord_status (col od),
             ord_updated_at := ord_updated_at (col od)\<rparr>)))"

definition orders_ok :: "'w services \<Rightarrow> (order \<Rightarrow> order) \<Rightarrow> ('w \<Rightarrow> string \<Rightarrow> order option) \<Rightarrow> bool" where
  "orders_ok S col rows \<longleftrightarrow> (\<forall>od. kept_as od (col od)) \<and>
     (\<forall>db od w. fst (sql_exec S db insert_order_sql (order_args od) w) = None \<longrightarrow>
        upserted col od (rows w) (rows (snd (sql_exec S db insert_order_sql (order_args od) w)))) \<and>
     (\<forall>k v d w. rows (l1_set S k v d w) = rows w) \<and> (\<forall>w. rows (l1_wait S w) = rows w) \<and>
     (\<forall>k v d w. rows (rd_set S k v d w) = rows w) \<and> (\<forall>n w. rows (snd (sv_rand S n w)) = rows w) \<and>
     (\<forall>k w. rows (l1_del S k w) = rows w) \<and> (\<forall>k w. rows (rd_del S k w) = rows w)"

lemma cache_set_rows: "orders_ok S col rows \<Longrightarrow> rows (cache_set S mc k v w) = rows w"
  by (simp add: orders_ok_def cache_set_def fill_l1_def fill_l2_def l1_ttl_def l2_ttl_def jitter_now_def split: prod.splits)
    (metis snd_conv)

lemma db_write_rows:
  assumes "orders_ok S col rows" "db_write S od (os, w) = (None, os', w')" "\<not> db_missing os"
  shows "upserted col od (rows w) (rows w')"
proof -
  obtain rw where rw: "os_db os = Some rw" "\<not> rw_is_nil rw" using assms(3) by (auto simp: db_missing_def split: option.splits)
  then obtain db where db: "rw_master rw = Some db" by (auto simp: rw_is_nil_def)
  obtain w1 where w1: "sql_exec S db insert_order_sql (order_args od) w = (None, w1)"
      "w' = cache_set S (os_cache os) (order_key (ord_order_no od)) (GOrder od) w1"
    using assms(2,3) rw db by (auto simp: db_write_def rw_exec_def Let_def split: prod.splits option.splits)
  have "fst (sql_exec S db insert_order_sql (order_args od) w) = None" using w1 by simp
  then have "upserted col od (rows w) (rows w1)" using assms(1) w1(1) unfolding orders_ok_def by (metis snd_conv)
  then show ?thesis using w1(2) cache_set_rows [OF assms(1)] by simp
qed

text \<open>
  A user's number comes back after 100000 further orders, and because the insert updates on a
  duplicate number, the second order replaces amount, status and update time of the first one
  while both writes report success.
\<close>

theorem order_number_reuse_overwrites:
  assumes "orders_ok S col rows" "\<not> db_missing os1" "\<not> db_missing os2"
    and seq: "os_seq os2 = os_seq os1 + 100000" "unat (os_seq os1) + 100001 < 2 ^ 64" "os_rand_id os2 = os_rand_id os1"
    and nos: "ord_order_no od1 = fst (generate_order_no user os1)" "ord_order_no od2 = fst (generate_order_no user os2)"
    and w1: "rows w1 (ord_order_no od1) = None" "db_write S od1 (os1, w1) = (None, os1', w1')"
    and w2: "rows w2 (ord_order_no od1) = rows w1' (ord_order_no od1)" "db_write S od2 (os2, w2) = (None, os2', w2')"
  shows "ord_order_no od2 = ord_order_no od1 \<and>
    (\<exists>i. rows w2' (ord_order_no od1) =
       Some ((col od1)\<lparr>ord_id := i, ord_amount := ord_amount (col od2), ord_status := ord_status (col od2),
         ord_updated_at := ord_updated_at (col od2)\<rparr>))"
proof -
  have "unat (os_seq os1 + 1) = unat (os_seq os1) + 1" "unat (os_seq os1 + 100000 + 1) = unat (os_seq os1) + 100001"
    using seq(2) by (simp_all add: unat_word_ariths(1))
  moreover have "(unat (os_seq os1) + 100001) mod 100000 = (unat (os_seq os1) + 1) mod 100000"
    using mod_add_self2 [of "unat (os_seq os1) + 1" 100000] by (simp add: add.commute)
  ultimately have same: "ord_order_no od2 = ord_order_no od1"
    using seq nos by (simp add: generate_order_no_def Let_def)
  obtain i where "rows w1' (ord_order_no od1) = Some ((col od1)\<lparr>ord_id := i\<rparr>)"
    using db_write_rows [OF assms(1) w1(2) assms(2)] w1(1) by (auto simp: upserted_def)
  then show ?thesis
    using db_write_rows [OF assms(1) w2(2) assms(3)] w2(1) same by (auto simp: upserted_def)
qed

lemma ref_orders_ok: "orders_ok ref_services (\<lambda>od. od) rf_rows"
proof -
  have "upserted (\<lambda>od. od) od (rf_rows w) (rf_rows (ref_exec (order_args od) w))" for od w
    by (cases "rf_rows w (ord_order_no od)"; cases od)
      (auto simp: upserted_def ref_exec_def order_args_def intro!: exI [of _ 1])
  then show ?thesis by (simp add: orders_ok_def ref_services_def kept_as_def)
qed

lemma ref_db_write:
  assumes "os_db os = Some rw" "rw_master rw = Some db"
  shows "\<exists>os'. db_write ref_services od (os, w) =
    (None, os', cache_set ref_services (os_cache os) (order_key (ord_order_no od)) (GOrder od) (ref_exec (order_args od) w))"
  using assms by (simp add: db_write_def db_missing_def rw_is_nil_def rw_exec_def ref_services_def Let_def)

definition one_db :: "rwdb option" where "one_db = Some (new_rwdb (Some 0) [])"

theorem order_number_reuse_overwrites_witness:
  "let os1 = plain_service one_db 5; os2 = plain_service one_db 100005;
       od1 = sample_order\<lparr>ord_order_no := fst (generate_order_no 7 os1), ord_amount := 100\<rparr>;
       od2 = sample_order\<lparr>ord_order_no := fst (generate_order_no 7 os2), ord_amount := 1\<rparr>;
       w1 = snd (snd (db_write ref_services od1 (os1, ref_init 0)));
       w2 = snd (snd (db_write ref_services od2 (os2, w1)))
   in ord_amount od1 = 100 \<and> (\<exists>r. rf_rows w2 (ord_order_no od1) = Some r \<and> ord_amount r = 1)"
proof -
  let ?os1 = "plain_service one_db 5" and ?os2 = "plain_service one_db 100005"
  let ?od1 = "sample_order\<lparr>ord_order_no := fst (generate_order_no 7 ?os1), ord_amount := 100\<rparr>"
  let ?od2 = "sample_order\<lparr>ord_order_no := fst (generate_order_no 7 ?os2), ord_amount := 1\<rparr>"
  have db: "os_db (plain_service one_db n) = Some (new_rwdb (Some 0) [])" for n
    by (simp add: plain_service_def new_order_service_def one_db_def)
  obtain a where a: "db_write ref_services ?od1 (?os1, ref_init 0) =
      (None, a, snd (snd (db_write ref_services ?od1 (?os1, ref_init 0))))"
    using ref_db_write [OF db [of 5], where db = 0 and od = ?od1 and w = "ref_init 0"] by (auto simp: new_rwdb_def)
  let ?w1 = "snd (snd (db_write ref_services ?od1 (?os1, ref_init 0)))"
  obtain b where b: "db_write ref_services ?od2 (?os2, ?w1) = (None, b, snd (snd (db_write ref_services ?od2 (?os2, ?w1))))"
    using ref_db_write [OF db [of 100005], where db = 0 and od = ?od2 and w = ?w1] by (auto simp: new_rwdb_def)
  have m: "\<not> db_missing (plain_service one_db n)" for n
    using db [of n] by (simp add: db_missing_def rw_is_nil_def new_rwdb_def)
  have "ord_order_no ?od2 = ord_order_no ?od1 \<and> (\<exists>i. rf_rows (snd (snd (db_write ref_services ?od2 (?os2, ?w1)))) (ord_order_no ?od1) =
      Some (?od1\<lparr>ord_id := i, ord_amount := ord_amount ?od2, ord_status := ord_status ?od2, ord_updated_at := ord_updated_at ?od2\<rparr>))"
    by (rule order_number_reuse_overwrites [OF ref_orders_ok m m _ _ _ _ _ _ a refl b])
      (simp_all add: plain_service_def new_order_service_def ref_init_def)
  then show ?thesis by (auto simp: Let_def)
qed

section \<open>An accepted order is kept\<close>

text \<open>
  \<open>rows\<close> is the table, \<open>sent\<close> the messages Kafka has accepted. Nothing the service calls takes
  a row or a message away (\<open>later\<close>), a successful insert leaves a row and a successful write a
  message.
\<close>

definition later :: "('w \<Rightarrow> string \<Rightarrow> order option) \<Rightarrow> ('w \<Rightarrow> (string \<times> kafka_message) list) \<Rightarrow> 'w \<Rightarrow> 'w \<Rightarrow> bool" where
  "later rows sent w w' \<longleftrightarrow> dom (rows w) \<subseteq> dom (rows w') \<and> set (sent w) \<subseteq> set (sent w')"

definition durable_ok :: "'w services \<Rightarrow> ('w \<Rightarrow> string \<Rightarrow> order option) \<Rightarrow> ('w \<Rightarrow> (string \<times> kafka_message) list) \<Rightarrow> bool" where
  "durable_ok S rows sent \<longleftrightarrow>
     (\<forall>k v d w. later rows sent w (l1_set S k v d w)) \<and> (\<forall>w. later rows sent w (l1_wait S w)) \<and>
     (\<forall>k w. later rows sent w (l1_del S k w)) \<and> (\<forall>k v d w. later rows sent w (rd_set S k v d w)) \<and>
     (\<forall>k w. later rows sent w (rd_del S k w)) \<and> (\<forall>w. later rows sent w (snd (sv_now S w))) \<and>
     (\<forall>n w. later rows sent w (snd (sv_rand S n w))) \<and>
     (\<forall>k w. later rows sent w (snd (srv_del S k w))) \<and>
     (\<forall>f w. (\<forall>u. later rows sent u (snd (f u))) \<longrightarrow> later rows sent w (snd (rd_eval S f w))) \<and>
     (\<forall>t k v w. later rows sent w (log_compensation S t k v w)) \<and>
     (\<forall>db od w. fst (sql_exec S db insert_order_sql (order_args od) w) = None \<longrightarrow>
        rows (snd (sql_exec S db insert_order_sql (order_args od) w)) (ord_order_no od) \<noteq> None) \<and>
     (\<forall>t m w. fst (kafka_write S t m w) = None \<longrightarrow> (t, m) \<in> set (sent (snd (kafka_write S t m w))))"

lemma later_refl [simp]: "later rows sent w w"
  by (simp add: later_def)

lemma later_trans [trans]: "later rows sent w w' \<Longrightarrow> later rows sent w' w'' \<Longrightarrow> later rows sent w w''"
  unfolding later_def by (meson subset_trans)

lemma durable_simps:
  assumes "durable_ok S rows sent"
  shows "later rows sent w (l1_set S k v d w)" "later rows sent w (l1_wait S w)" "later rows sent w (l1_del S k w)"
    "later rows sent w (rd_set S k u d w)" "later rows sent w (rd_del S k w)" "later rows sent w (snd (sv_now S w))"
    "later rows sent w (snd (sv_rand S n w))" "later rows sent w (snd (srv_del S k w))"
  using assms by (simp_all add: durable_ok_def)

lemma later_fill:
  assumes "durable_ok S rows sent"
  shows "later rows sent w (fill_l1 S mc k v w)" "later rows sent w (fill_l2 S mc k v w)"
proof -
  have j: "later rows sent w (snd (jitter_now S base pct w))" for base pct w
    using durable_simps(7) [OF assms, of w 8] by (auto simp: jitter_now_def split: prod.splits)
  show "later rows sent w (fill_l1 S mc k v w)"
    unfolding fill_l1_def l1_ttl_def split_beta
    by (rule later_trans [OF j later_trans [OF durable_simps(1,2) [OF assms]]])
  show "later rows sent w (fill_l2 S mc k v w)"
    unfolding fill_l2_def l2_ttl_def split_beta
    using later_trans [OF j durable_simps(4) [OF assms]] by simp
qed

lemma later_cache:
  assumes "durable_ok S rows sent"
  shows "later rows sent w (cache_set S mc k v w)" "later rows sent w (delete_both S mc k w)"
  using later_trans [OF later_fill [OF assms]] durable_simps(3) [OF assms] later_trans [OF durable_simps(5,3) [OF assms]]
  by (simp_all add: cache_set_def delete_both_def)

lemma later_unlock:
  assumes "durable_ok S rows sent"
  shows "later rows sent w (unlock_if S od token w)"
proof -
  have "later rows sent u (snd (unlock_script S key t u))" for key t u
    using durable_simps(8) [OF assms] by (simp add: unlock_script_def)
  then have "later rows sent w (snd (rd_eval S (unlock_script S key t) w))" for key t
    using assms by (simp add: durable_ok_def)
  then show ?thesis
    by (auto simp: unlock_if_def lock_release_def split: option.splits prod.splits sum.splits) (metis snd_conv)+
qed

lemma later_row: "later rows sent w w' \<Longrightarrow> rows w no \<noteq> None \<Longrightarrow> rows w' no \<noteq> None"
  by (auto simp: later_def)

lemma send_kept:
  assumes "durable_ok S rows sent" "producer_send S ep tid key v w = (None, w')"
  shows "\<exists>m. (ep_topic ep, m) \<in> set (sent w') \<and> km_key m = key \<and> km_value m = JText (marshal v)"
proof -
  obtain t m u where m: "kafka_write S (ep_topic ep) m u = (None, w')" "km_key m = key" "km_value m = JText (marshal v)"
    using assms(2) by (force simp: producer_send_def Let_def split: prod.splits option.splits)
  then have "(ep_topic ep, m) \<in> set (sent w')" using assms(1) unfolding durable_ok_def by (metis fst_conv snd_conv)
  with m show ?thesis by blast
qed

text \<open>The order as Kafka holds it: number, user and amount of the request in the event.\<close>

definition queued :: "(string \<times> kafka_message) list \<Rightarrow> string \<Rightarrow> string \<Rightarrow> order \<Rightarrow> bool" where
  "queued sent topic tid od \<longleftrightarrow>
     (\<exists>m now. (topic, m) \<in> set sent \<and> km_value m = JText (marshal (order_event tid now od)))"

lemma create_async_kept:
  assumes "durable_ok S rows sent" "os_producer os = Some ep"
    and "create_async S tid od (os, w) = ((ch, no, None), os', w')"
  shows "ch = ''async'' \<and> no = ord_order_no od \<and> queued (sent w') (ep_topic ep) tid od"
proof -
  obtain now w1 where now: "sv_now S w = (now, w1)" by force
  obtain e w2 where s: "producer_send S ep tid (user_key od) (order_event tid now od) w1 = (e, w2)" by force
  have "e = None" "w' = w2" "ch = ''async''" "no = ord_order_no od"
    using assms(2,3) now s by (auto simp: create_async_def split: option.splits)
  then show ?thesis using send_kept [OF assms(1)] s unfolding queued_def by blast
qed

lemma db_write_row:
  assumes "durable_ok S rows sent" "\<not> db_missing os" "db_write S od (os, w) = (None, os', w')"
  shows "rows w' (ord_order_no od) \<noteq> None"
proof -
  obtain rw where rw: "os_db os = Some rw" "\<not> rw_is_nil rw" using assms(2) by (auto simp: db_missing_def split: option.splits)
  then obtain db where db: "rw_master rw = Some db" by (auto simp: rw_is_nil_def)
  obtain w1 where w1: "sql_exec S db insert_order_sql (order_args od) w = (None, w1)"
      "w' = cache_set S (os_cache os) (order_key (ord_order_no od)) (GOrder od) w1"
    using assms(2,3) rw db by (auto simp: db_write_def rw_exec_def Let_def split: prod.splits option.splits)
  have "rows w1 (ord_order_no od) \<noteq> None" using assms(1) w1(1) unfolding durable_ok_def by (metis fst_conv snd_conv)
  then show ?thesis using later_row [OF later_cache(1) [OF assms(1)]] w1(2) by simp
qed

lemma write_and_publish_row:
  assumes "durable_ok S rows sent" "\<not> db_missing os"
    and "write_and_publish S fch tid od start (os, w) = ((ch, no, None), os', w')"
  shows "ch = ''sync'' \<and> no = ord_order_no od \<and> rows w' no \<noteq> None"
proof -
  obtain e os1 w1 where d: "db_write S od (os, w) = (e, os1, w1)" by (metis prod.collapse)
  obtain n w2 where n: "sv_now S w1 = (n, w2)" by force
  obtain t w3 where t: "sv_now S w2 = (t, w3)" by force
  have e: "e = None" using assms(3) d n t by (auto simp: write_and_publish_def Let_def split: option.splits)
  define os2 where "os2 = os1\<lparr>os_cb := record_success (time_sub n start) t (os_cb os1)\<rparr>"
  obtain c w4 where c: "invalidate_with_delay S (order_key (ord_order_no od)) 500 (os_cache os2, w3) = (c, w4)" by force
  obtain os3 w5 where p: "publish_order_event S tid od (os2\<lparr>os_cache := c\<rparr>, w4) = (os3, w5)" by force
  have r: "ch = ''sync''" "no = ord_order_no od" "w' = w5"
    using assms(3) d n t e c p by (auto simp: write_and_publish_def Let_def os2_def)
  have l12: "later rows sent w1 w2" using durable_simps(6) [OF assms(1), of w1] n by simp
  have l23: "later rows sent w2 w3" using durable_simps(6) [OF assms(1), of w2] t by simp
  have l34: "later rows sent w3 w4"
    using c later_cache(2) [OF assms(1)] by (auto simp: invalidate_with_delay_def)
  have "later rows sent w4 w5"
    using p durable_simps(6) [OF assms(1), of w4] by (auto simp: publish_order_event_def split: option.splits prod.splits)
  then have "later rows sent w1 w5" by (rule later_trans [OF l12 later_trans [OF l23 later_trans [OF l34]]])
  moreover have "rows w1 (ord_order_no od) \<noteq> None" using db_write_row [OF assms(1,2)] d e by simp
  ultimately show ?thesis using r later_row by simp
qed

lemma create_order_kept:
  assumes "durable_ok S rows sent" "\<not> db_missing os" "os_producer os = Some ep"
    and "create_order S tid od0 (os, w) = Some ((ch, no, None), os', w')"
  shows "no = fst (generate_order_no (ord_user_id od0) os) \<and>
    (ch = ''sync'' \<and> rows w' no \<noteq> None \<or>
     ch = ''async'' \<and> (\<exists>now. queued (sent w') (ep_topic ep) tid
       (od0\<lparr>ord_order_no := no, ord_status := ''pending'', ord_created_at := now, ord_updated_at := now\<rparr>)))"
proof -
  obtain od os1 w1 where p: "prepare_order S od0 (os, w) = (od, os1, w1)" by (metis prod.collapse)
  have od: "ord_order_no od = fst (generate_order_no (ord_user_id od0) os)"
      "\<exists>now. od = od0\<lparr>ord_order_no := ord_order_no od, ord_status := ''pending'', ord_created_at := now, ord_updated_at := now\<rparr>"
    and os1: "\<not> db_missing os1" "os_producer os1 = Some ep"
    using p assms(2,3) by (auto simp: prepare_order_def generate_order_no_def db_missing_def Let_def split: prod.splits)
  have by_kafka: ?thesis if "create_async S tid od (os2, u) = ((ch, no, None), os', w')" "os_producer os2 = Some ep" for os2 u
    using create_async_kept [OF assms(1) that(2,1)] od by metis
  obtain t w2 where t: "sv_now S w1 = (t, w2)" by force
  obtain t' w3 where t': "sv_now S w2 = (t', w3)" by force
  obtain ok rl where ok: "try_acquire t' (os_rl os1) = (ok, rl)" by force
  define os2 where "os2 = os1\<lparr>os_rl := rl\<rparr>"
  have os2: "\<not> db_missing os2" "os_producer os2 = Some ep" using os1 by (simp_all add: os2_def db_missing_def)
  consider "create_async S tid od (os1, w2) = ((ch, no, None), os', w')"
    | "create_async S tid od (os2, w3) = ((ch, no, None), os', w')"
    | "create_sync S tid od (os2, w3) = Some ((ch, no, None), os', w')"
    using assms(4) p t t' ok by (auto simp: create_order_def os2_def Let_def split: if_splits)
  then show ?thesis
  proof cases
    case 1 then show ?thesis using by_kafka os1 by blast
  next
    case 2 then show ?thesis using by_kafka os2 by blast
  next
    case 3
    obtain start u where s: "sv_now S w3 = (start, u)" by force
    from 3 s consider (async) u' where "create_async S tid od (os2, u') = ((ch, no, None), os', w')"
      | (sync) u' tok w4 where "write_and_publish S ''async'' tid od start (os2, u') = ((ch, no, None), os', w4)"
          "w' = unlock_if S od tok w4"
      unfolding create_sync_def by (auto split: option.splits prod.splits if_splits)
    then show ?thesis
    proof cases
      case async then show ?thesis using by_kafka os2 by blast
    next
      case sync
      from write_and_publish_row [OF assms(1) os2(1) sync(1)] later_unlock [OF assms(1), of w4 od tok] sync(2)
      show ?thesis using od later_row by metis
    qed
  qed
qed

text \<open>
  C3: With a database and a producer, whenever CreateOrder reports success, the order with the number
  it returns is a row of the table (channel sync) or an event with that order is among the
  messages Kafka accepted (channel async), whatever the breaker, the limiter and the lock decided.
\<close>

theorem accepted_order_is_kept:
  assumes "durable_ok S rows sent" "\<not> db_missing os" "os_producer os = Some ep"
    and "create_order S tid od0 (os, w) = Some ((ch, no, None), os', w')"
  shows "no = fst (generate_order_no (ord_user_id od0) os) \<and>
    (ch = ''sync'' \<and> rows w' no \<noteq> None \<or>
     ch = ''async'' \<and> (\<exists>now. queued (sent w') (ep_topic ep) tid
       (od0\<lparr>ord_order_no := no, ord_status := ''pending'', ord_created_at := now, ord_updated_at := now\<rparr>)))"
  by (rule create_order_kept [OF assms])

lemma ref_later: "later rf_rows rf_sent w (w\<lparr>rf_kv := x\<rparr>)" "later rf_rows rf_sent w (w\<lparr>rf_l1 := y\<rparr>)"
  by (simp_all add: later_def)

lemma ref_durable_ok: "durable_ok ref_services rf_rows rf_sent"
proof -
  have "\<forall>u. later rf_rows rf_sent u (snd (f u)) \<Longrightarrow> later rf_rows rf_sent w (snd (rd_eval ref_services f w))" for f w
    by (simp add: ref_services_def split_beta)
  then show ?thesis
    by (auto simp: durable_ok_def ref_services_def ref_later ref_exec_def order_args_def)
qed

lemma ref_send: "\<exists>w'. producer_send ref_services ep tid key v w = (None, w')"
  by (simp add: producer_send_def ref_services_def Let_def)

lemma ref_create:
  assumes "\<not> os_lock os" "os_db os = Some rw" "rw_master rw = Some db" "os_producer os = Some ep"
  shows "\<exists>ch no os' w'. create_order ref_services tid od0 (os, w) = Some ((ch, no, None), os', w')"
proof -
  have now: "sv_now ref_services u = (rf_clock u, u)" for u by (simp add: ref_services_def)
  have async: "\<exists>ch no os' w'. create_async ref_services tid od (os1, u) = ((ch, no, None), os', w')"
    if "os_producer os1 = Some ep" for od os1 u
    using that ref_send [of ep tid "user_key od" "order_event tid (rf_clock u) od" u]
    by (auto simp: create_async_def now)
  have sync: "\<exists>ch no os' w'. create_sync ref_services tid od (os1, u) = Some ((ch, no, None), os', w')"
    if l: "\<not> os_lock os1" and d: "os_db os1 = Some rw" for od os1 u
  proof -
    obtain os' where "db_write ref_services od (os1, u) = (None, os',
        cache_set ref_services (os_cache os1) (order_key (ord_order_no od)) (GOrder od) (ref_exec (order_args od) u))"
      using ref_db_write [OF d assms(3)] by blast
    then show ?thesis using l
      by (auto simp: create_sync_def write_and_publish_def now Let_def split: prod.splits)
  qed
  show ?thesis using assms async sync
    by (auto simp: create_order_def prepare_order_def generate_order_no_def now Let_def split: prod.splits)
qed

definition kafka_service :: "ref_world order_service" where
  "kafka_service = (plain_service one_db 5)\<lparr>os_producer := Some \<lparr>ep_brokers = [''b''], ep_topic = ''order-create'',
     ep_dlq_topic = ''order-create.dlq'', ep_max_retries = 3\<rparr>\<rparr>"

theorem accepted_order_is_kept_witness:
  "\<exists>ch no os' w'. create_order ref_services ''t1'' sample_order (kafka_service, ref_init 0) = Some ((ch, no, None), os', w') \<and>
     no = fst (generate_order_no 10001 kafka_service) \<and>
     (rf_rows w' no \<noteq> None \<or> (\<exists>now. queued (rf_sent w') ''order-create'' ''t1''
       (sample_order\<lparr>ord_order_no := no, ord_status := ''pending'', ord_created_at := now, ord_updated_at := now\<rparr>)))"
proof -
  have k: "\<not> os_lock kafka_service" "os_db kafka_service = Some (new_rwdb (Some 0) [])" "rw_master (new_rwdb (Some 0) []) = Some 0"
    "os_producer kafka_service = Some \<lparr>ep_brokers = [''b''], ep_topic = ''order-create'',
     ep_dlq_topic = ''order-create.dlq'', ep_max_retries = 3\<rparr>"
    by (simp_all add: kafka_service_def plain_service_def new_order_service_def one_db_def new_rwdb_def)
  have m: "\<not> db_missing kafka_service" using k by (simp add: db_missing_def rw_is_nil_def)
  obtain ch no os' w' where c: "create_order ref_services ''t1'' sample_order (kafka_service, ref_init 0) = Some ((ch, no, None), os', w')"
    using ref_create [OF k] by blast
  from accepted_order_is_kept [OF ref_durable_ok m k(4) c] c show ?thesis
    by (intro exI [of _ ch] exI [of _ no] exI [of _ os'] exI [of _ w']) (auto simp: sample_order_def)
qed

section \<open>From the queue to the table\<close>

lemma order_event_decodes:
  assumes "order_ok od" "ord_id od < 2 ^ 53" "ord_user_id od < 2 ^ 53"
  shows "\<exists>ev. unmarshal_event (marshal (order_event tid now od)) = (None, ev) \<and>
    unmarshal_order (marshal (ev_payload ev)) = (None, od)"
proof -
  let ?p = "unmarshal_any (order_json od)"
  have "unmarshal_event (marshal (order_event tid now od)) =
      (None, BusinessEvent (ord_order_no od) ''ORDER_CREATE'' (unix_milli now) tid ?p)"
    by (simp add: unix_milli_def order_event_def unmarshal_event_def event_member_def)
  moreover have "unmarshal_order (marshal ?p) = (None, od)"
    using via_interface_exact [OF assms(1-3)] unmarshal_order_json [OF assms(1)] by (simp add: via_interface_def)
  ultimately show ?thesis by simp
qed

lemma handle_order_event_writes:
  assumes "order_ok od" "ord_id od < 2 ^ 53" "ord_user_id od < 2 ^ 53"
    and "handle_order_event S (JText (marshal (order_event tid now od))) (os, w) = (None, os', w')"
  shows "\<exists>w1. db_write S od (os, w) = (None, os', w1) \<and> w' = invalidate S (os_cache os') (order_key (ord_order_no od)) w1"
proof -
  obtain ev where "unmarshal_event (marshal (order_event tid now od)) = (None, ev)"
    "unmarshal_order (marshal (ev_payload ev)) = (None, od)"
    using order_event_decodes [OF assms(1-3)] by blast
  then show ?thesis using assms(4)
    by (auto simp: handle_order_event_def split: prod.splits option.splits)
qed

lemma invalidate_rows: "orders_ok S col rows \<Longrightarrow> rows (invalidate S mc k w) = rows w"
  by (simp add: orders_ok_def invalidate_def Let_def)

lemma upserted_again:
  assumes "upserted col od rows rows'" "upserted col od rows' rows''"
  shows "rows'' = rows'"
  using assms by (auto simp: upserted_def fun_eq_iff split: option.splits)

text \<open>A new row keeps the order; of an old one amount, status and update time are replaced.\<close>

definition merged :: "order \<Rightarrow> order option \<Rightarrow> order \<Rightarrow> bool" where
  "merged od old row \<longleftrightarrow>
     (case old of
        None \<Rightarrow> kept_as od row
      | Some old \<Rightarrow> (\<exists>new. kept_as od new \<and>
          row = old\<lparr>ord_amount := ord_amount new, ord_status := ord_status new, ord_updated_at := ord_updated_at new\<rparr>))"

lemma upserted_merged:
  assumes "orders_ok S col rows" "upserted col od tab tab'"
  shows "\<exists>row. tab' = tab(ord_order_no od \<mapsto> row) \<and> merged od (tab (ord_order_no od)) row"
proof -
  have k: "kept_as od (col od)" using assms(1) by (simp add: orders_ok_def)
  then have "kept_as od ((col od)\<lparr>ord_id := i\<rparr>)" for i by (simp add: kept_as_def)
  with k assms(2) show ?thesis by (cases "tab (ord_order_no od)") (auto simp: upserted_def merged_def)
qed

text \<open>
  C17: With a database at each delivery and identifiers below 2^53 (the payload passes through
  float64), handling the event of an order without error changes the row of its number and no
  other: a new row keeps number, user and status of the order, and its amount as the DECIMAL(12,2)
  column does (whole cents exactly); a row that already has the number gets the amount, status and
  update time and keeps the rest. Handling the event again, as an at-least-once delivery may,
  leaves the table unchanged.
\<close>

theorem queued_order_is_written_once:
  assumes "orders_ok S col rows" "order_ok od" "ord_id od < 2 ^ 53" "ord_user_id od < 2 ^ 53"
    and "\<not> db_missing os" "handle_order_event S (JText (marshal (order_event tid now od))) (os, w) = (None, os1, w1)"
    and "\<not> db_missing os2" "handle_order_event S (JText (marshal (order_event tid now od))) (os2, w2) = (None, os3, w3)"
    and "rows w2 = rows w1"
  shows "(\<exists>row. rows w1 = (rows w)(ord_order_no od \<mapsto> row) \<and> merged od (rows w (ord_order_no od)) row) \<and> rows w3 = rows w1"
proof -
  from handle_order_event_writes [OF assms(2-4,6)] obtain u where u: "db_write S od (os, w) = (None, os1, u)"
    "w1 = invalidate S (os_cache os1) (order_key (ord_order_no od)) u" by blast
  from handle_order_event_writes [OF assms(2-4,8)] obtain u' where u': "db_write S od (os2, w2) = (None, os3, u')"
    "w3 = invalidate S (os_cache os3) (order_key (ord_order_no od)) u'" by blast
  have 1: "upserted col od (rows w) (rows w1)"
    using db_write_rows [OF assms(1) u(1) assms(5)] u(2) invalidate_rows [OF assms(1)] by simp
  have "upserted col od (rows w1) (rows w3)"
    using db_write_rows [OF assms(1) u'(1) assms(7)] u'(2) invalidate_rows [OF assms(1)] assms(9) by simp
  with upserted_again [OF 1] upserted_merged [OF assms(1) 1] show ?thesis by blast
qed

lemma ref_handle:
  assumes "order_ok od" "ord_id od < 2 ^ 53" "ord_user_id od < 2 ^ 53"
    and "os_db os = Some rw" "rw_master rw = Some db"
  shows "\<exists>os' w'. handle_order_event ref_services (JText (marshal (order_event tid now od))) (os, w) = (None, os', w')"
proof -
  obtain ev where "unmarshal_event (marshal (order_event tid now od)) = (None, ev)"
    "unmarshal_order (marshal (ev_payload ev)) = (None, od)"
    using order_event_decodes [OF assms(1-3)] by blast
  then show ?thesis using ref_db_write [OF assms(4,5), of od w] by (auto simp: handle_order_event_def)
qed

theorem queued_order_is_written_once_witness:
  "\<exists>os1 w1 os3 w3.
     handle_order_event ref_services (JText (marshal (order_event ''t1'' 0 sample_order))) (kafka_service, ref_init 0) = (None, os1, w1) \<and>
     handle_order_event ref_services (JText (marshal (order_event ''t1'' 0 sample_order))) (kafka_service, w1) = (None, os3, w3) \<and>
     (\<exists>row. rf_rows w1 (ord_order_no sample_order) = Some row \<and> kept_as sample_order row) \<and> rf_rows w3 = rf_rows w1"
proof -
  let ?h = "handle_order_event ref_services (JText (marshal (order_event ''t1'' 0 sample_order)))"
  have k: "os_db kafka_service = Some (new_rwdb (Some 0) [])" "rw_master (new_rwdb (Some 0) []) = Some 0"
    by (simp_all add: kafka_service_def plain_service_def new_order_service_def one_db_def new_rwdb_def)
  have m: "\<not> db_missing kafka_service" using k by (simp add: db_missing_def rw_is_nil_def)
  have o: "ord_id sample_order < 2 ^ 53" "ord_user_id sample_order < 2 ^ 53"
    by (simp_all add: sample_order_def)
  obtain os1 w1 where h1: "?h (kafka_service, ref_init 0) = (None, os1, w1)"
    using ref_handle [OF sample_order_ok o k] by blast
  obtain os3 w3 where h2: "?h (kafka_service, w1) = (None, os3, w3)"
    using ref_handle [OF sample_order_ok o k] by blast
  from queued_order_is_written_once [OF ref_orders_ok sample_order_ok o m h1 m h2 refl] h1 h2
  show ?thesis by (auto simp: ref_init_def merged_def)
qed

subsection \<open>From the consumer to the table\<close>

text \<open>The handler \<open>main\<close> gives the consumer; trace id and key are not looked at.\<close>

definition order_callback :: "'w services \<Rightarrow> ('w order_service, 'w) handler" where
  "order_callback S trace_id key val = handle_order_event S val"

lemma db_write_db: "os_db (fst (snd (db_write S od (os, w)))) = os_db os"
  by (simp add: db_write_def index_order_to_es_def Let_def split_beta split: option.split)

lemma handle_event_db: "os_db (fst (snd (handle_order_event S val (os, w)))) = os_db os"
  using db_write_db [of S _ os w]
  by (auto simp: handle_order_event_def split_beta split: option.splits)

text \<open>
  A pass of the consumer over a message: the order is in the table after the last attempt, or the
  message has been offered to the dead-letter topic; it is committed in both cases.
\<close>

definition written_or_dead ::
  "'w services \<Rightarrow> ('w \<Rightarrow> string \<Rightarrow> order option) \<Rightarrow> 'w consumer_env \<Rightarrow> consumer \<Rightarrow> producer \<Rightarrow>
     kafka_in \<Rightarrow> order \<Rightarrow> 'w order_service \<times> 'w \<Rightarrow> bool" where
  "written_or_dead S rows E ec dlq msg od osw \<longleftrightarrow>
     (\<exists>os' w'. consume_iter S E ec (order_callback S) osw = (True, os', snd (ce_commit E msg w')) \<and>
       ((\<exists>u row. rows w' = (rows u)(ord_order_no od \<mapsto> row) \<and> merged od (rows u (ord_order_no od)) row) \<or>
        (\<exists>u. w' = snd (send_to_dlq S dlq (mi_key msg) (GBytes (mi_value msg)) u))))"

lemma event_consumed:
  assumes "orders_ok S col rows" "order_ok od" "ord_id od < 2 ^ 53" "ord_user_id od < 2 ^ 53"
    and "\<not> db_missing os" "0 \<le> ec_max_retries ec" "ec_dlq ec = Some dlq"
    and "ce_ctx_err E w = None" "ce_limit E w = (None, w1)" "ce_fetch E w1 = (Inr msg, w2)"
    and "mi_value msg = JText (marshal (order_event tid now od))"
  shows "written_or_dead S rows E ec dlq msg od (os, w)"
proof -
  obtain err os' w3 where p: "process_with_retry E ec (order_callback S) (extract_trace_id (mi_headers msg)) (mi_key msg) (mi_value msg) (os, w2) = (err, os', w3)"
    by (metis prod.collapse)
  define w4 where "w4 = (case err of Some e \<Rightarrow> snd (send_to_dlq S dlq (mi_key msg) (GBytes (mi_value msg)) w3) | None \<Rightarrow> w3)"
  have c: "consume_iter S E ec (order_callback S) (os, w) = (True, os', snd (ce_commit E msg w4))"
    using assms(7-10) p by (simp add: consume_iter_def w4_def Let_def split: option.split)
  show ?thesis
  proof (cases err)
    case None
    have r: "retry_from (nat (ec_max_retries ec + 1)) (handle_order_event S (mi_value msg)) (aside (ce_wait E)) 0 (100 * millisecond) None (os, w2) =
        (None, os', w3)"
      using p None by (simp add: process_with_retry_def order_callback_def [abs_def])
    have k: "\<not> db_missing (fst (snd (handle_order_event S (mi_value msg) (s, u))))" if "\<not> db_missing s" for s u
      using that by (simp add: db_missing_def handle_event_db)
    have "nat (ec_max_retries ec + 1) \<noteq> 0" using assms(6) by simp
    with retry_from_success [where I = "\<lambda>os. \<not> db_missing os", OF k assms(5) r] obtain s0 u where
      s0: "\<not> db_missing s0" "handle_order_event S (mi_value msg) (s0, u) = (None, os', w3)" by blast
    from handle_order_event_writes [OF assms(2-4) s0(2) [unfolded assms(11)]] obtain v where
      v: "db_write S od (s0, u) = (None, os', v)" "w3 = invalidate S (os_cache os') (order_key (ord_order_no od)) v" by blast
    then have "upserted col od (rows u) (rows w4)"
      using db_write_rows [OF assms(1) v(1) s0(1)] invalidate_rows [OF assms(1)] None by (simp add: w4_def)
    with c upserted_merged [OF assms(1) this] show ?thesis unfolding written_or_dead_def by blast
  next
    case (Some e)
    with c show ?thesis unfolding written_or_dead_def w4_def by auto
  qed
qed

text \<open>Whichever consumer fetches an event of the order, at any time and on any service with a database.\<close>

definition delivers ::
  "'w services \<Rightarrow> ('w \<Rightarrow> string \<Rightarrow> order option) \<Rightarrow> string \<Rightarrow> order \<Rightarrow> bool" where
  "delivers S rows tid od \<longleftrightarrow>
     (\<forall>E ec dlq os w w1 w2 msg now. \<not> db_missing os \<and> 0 \<le> ec_max_retries ec \<and> ec_dlq ec = Some dlq \<and>
        ce_ctx_err E w = None \<and> ce_limit E w = (None, w1) \<and> ce_fetch E w1 = (Inr msg, w2) \<and>
        mi_value msg = JText (marshal (order_event tid now od)) \<longrightarrow>
        written_or_dead S rows E ec dlq msg od (os, w))"

lemma order_delivers:
  assumes "orders_ok S col rows" "order_ok od" "ord_id od < 2 ^ 53" "ord_user_id od < 2 ^ 53"
  shows "delivers S rows tid od"
  unfolding delivers_def using event_consumed [OF assms] by blast

section \<open>Runs of the service\<close>

text \<open>
  Every request, callback and goroutine of the service, in any order; \<open>OEnv f\<close> is the rest of
  the world. Every one of them returns, and the indexing slots in use are the indexing tasks
  that have not finished, never more than 100.
\<close>

datatype 'w order_op =
    OCreate string order | OForceSync string order | OEvent wire | OGet string
  | OIndexed nat | OSent nat | ODelayed nat | OEnv "'w \<Rightarrow> 'w"

fun order_step :: "'w services \<Rightarrow> ('w order_service \<times> 'w) option \<Rightarrow> 'w order_op \<Rightarrow> ('w order_service \<times> 'w) option" where
  "order_step S None c = None"
| "order_step S (Some osw) (OCreate tid od) = map_option snd (create_order S tid od osw)"
| "order_step S (Some osw) (OForceSync tid od) = map_option snd (create_order_force_sync S tid od osw)"
| "order_step S (Some osw) (OEvent val) = Some (snd (handle_order_event S val osw))"
| "order_step S (Some osw) (OGet no) = map_option snd (get_order S no osw)"
| "order_step S (Some osw) (OIndexed i) = Some (run_es_task S i osw)"
| "order_step S (Some osw) (OSent i) = Some (run_async_task S i osw)"
| "order_step S (Some (os, w)) (ODelayed i) =
     (case delayed_delete S i (os_cache os, w) of (c, w1) \<Rightarrow> Some (os\<lparr>os_cache := c\<rparr>, w1))"
| "order_step S (Some (os, w)) (OEnv f) = Some (os, f w)"

definition os_inv :: "'w order_service \<Rightarrow> bool" where
  "os_inv os \<longleftrightarrow> os_es_slots os = length (os_es_pending os) \<and> os_es_slots os \<le> es_max_concurrency \<and>
     detector_fine (mc_hot_keys (os_cache os)) \<and> counters_ok (os_cache os)"

named_theorems os_frame

lemma os_inv_frame [os_frame]:
  "os_inv (os\<lparr>os_rl := rl\<rparr>) = os_inv os" "os_inv (os\<lparr>os_cb := cb\<rparr>) = os_inv os"
  "os_inv (os\<lparr>os_async := a\<rparr>) = os_inv os" "os_inv (os\<lparr>os_seq := n\<rparr>) = os_inv os" "os_inv (os\<lparr>os_db := db\<rparr>) = os_inv os"
  by (simp_all add: os_inv_def)

lemma os_inv_delayed [os_frame]:
  "os_inv (os\<lparr>os_cache := (os_cache os)\<lparr>mc_delayed := d\<rparr>\<rparr>) = os_inv os"
  "os_inv (os\<lparr>os_cb := cb, os_cache := (os_cache os)\<lparr>mc_delayed := d\<rparr>\<rparr>) = os_inv os"
  by (simp_all add: os_inv_def counters_ok_def)

text \<open>The service a step leaves, with the result and the world taken off.\<close>

abbreviation left_by :: "'r \<times> 'w order_service \<times> 'w \<Rightarrow> 'w order_service" where
  "left_by x \<equiv> fst (snd x)"

lemma index_inv: "os_inv os \<Longrightarrow> os_inv (index_order_to_es od os)"
  by (simp add: index_order_to_es_def os_inv_def)

lemma db_write_inv: "os_inv os \<Longrightarrow> os_inv (left_by (db_write S od (os, w)))"
  using index_inv by (auto simp: db_write_def Let_def split: option.splits prod.splits)

lemma create_async_inv: "os_inv os \<Longrightarrow> os_inv (left_by (create_async S tid od (os, w)))"
  by (auto simp: create_async_def split: option.splits prod.splits)

lemma publish_inv: "os_inv (fst (publish_order_event S tid od (os, w))) = os_inv os"
  by (auto simp: publish_order_event_def os_frame split: option.splits prod.splits)

lemma write_and_publish_inv:
  assumes "os_inv os"
  shows "os_inv (left_by (write_and_publish S fch tid od start (os, w)))"
proof -
  obtain e os1 w1 where d: "db_write S od (os, w) = (e, os1, w1)" by (metis prod.collapse)
  obtain n w2 where n: "sv_now S w1 = (n, w2)" by force
  obtain t w3 where t: "sv_now S w2 = (t, w3)" by force
  have "os_inv os1" using db_write_inv [OF assms, of S od w] d by simp
  then show ?thesis
    by (cases e) (simp_all add: write_and_publish_def d n t invalidate_with_delay_def Let_def os_frame publish_inv split_beta)
qed

lemma create_sync_inv:
  assumes "clock_ok S clk" "os_inv os"
  shows "\<exists>x. create_sync S tid od (os, w) = Some x \<and> os_inv (left_by x)"
proof -
  obtain start w1 where s: "sv_now S w = (start, w1)" by force
  obtain r w2 where l: "lock_acquire S (create_lock_key od) (5 * second) (200 * millisecond) w1 = Some (r, w2)"
    using lock_acquire_some [OF assms(1)] by blast
  show ?thesis
    by (cases r; cases "os_lock os")
      (simp_all add: create_sync_def s l split_beta create_async_inv [OF assms(2)] write_and_publish_inv [OF assms(2)])
qed

lemma prepare_inv: "os_inv os \<Longrightarrow> os_inv (left_by (prepare_order S od (os, w)))"
  by (simp add: prepare_order_def generate_order_no_def Let_def os_frame split_beta)

lemma create_order_inv:
  assumes "clock_ok S clk" "os_inv os"
  shows "\<exists>x. create_order S tid od (os, w) = Some x \<and> os_inv (left_by x)"
proof -
  obtain od1 os1 w1 where p: "prepare_order S od (os, w) = (od1, os1, w1)" by (metis prod.collapse)
  have i: "os_inv os1" using prepare_inv [OF assms(2), of S od w] p by simp
  then have i': "os_inv (os1\<lparr>os_rl := rl\<rparr>)" for rl by (simp add: os_frame)
  show ?thesis
    using create_sync_inv [OF assms(1) i'] create_async_inv [OF i] create_async_inv [OF i']
    by (simp add: create_order_def p Let_def split_beta del: split_paired_Ex)
qed

lemma force_sync_inv:
  assumes "clock_ok S clk" "os_inv os"
  shows "\<exists>x. create_order_force_sync S tid od (os, w) = Some x \<and> os_inv (left_by x)"
proof -
  obtain od1 os1 w1 where p: "prepare_order S od (os, w) = (od1, os1, w1)" by (metis prod.collapse)
  have i: "os_inv os1" using prepare_inv [OF assms(2), of S od w] p by simp
  obtain start w2 where s: "sv_now S w1 = (start, w2)" by force
  obtain r w3 where l: "lock_acquire S (create_lock_key od1) (5 * second) (200 * millisecond) w2 = Some (r, w3)"
    using lock_acquire_some [OF assms(1)] by blast
  show ?thesis
    by (cases "os_lock os1") (simp_all add: create_order_force_sync_def p s l split_beta write_and_publish_inv [OF i])
qed

lemma handle_inv: "os_inv os \<Longrightarrow> os_inv (left_by (handle_order_event S val (os, w)))"
  using db_write_inv [of os S _ w]
  by (auto simp: handle_order_event_def split_beta split: option.splits)

lemma db_query_inv:
  assumes "os_inv os"
  shows "\<exists>x. db_query S no (os, w) = Some x \<and> os_inv (left_by x)"
proof (cases "db_missing os")
  case True
  with assms show ?thesis by (simp add: db_query_def)
next
  case False
  then obtain rw where rw: "os_db os = Some rw" "\<not> rw_is_nil rw" by (auto simp: db_missing_def split: option.splits)
  then have "rw_replica rw \<noteq> (None, rw1)" for rw1
    by (auto simp: rw_is_nil_def rw_replica_def Let_def)
  then obtain db rw1 where "rw_replica rw = (Some db, rw1)" by (metis option.exhaust prod.exhaust)
  moreover obtain r w1 where "sql_row S db select_order_sql [GStr no] w = (r, w1)" by force
  ultimately have "rw_query_row S select_order_sql [GStr no] (rw, w) = Some (r, rw1, w1)"
    by (simp add: rw_query_row_def)
  with False rw assms show ?thesis
    by (cases r) (simp_all add: db_query_def Let_def os_frame del: split_paired_Ex)
qed

lemma get_order_inv:
  assumes "os_inv os"
  shows "\<exists>x. get_order S no (os, w) = Some x \<and> os_inv (left_by x)"
proof -
  obtain v found err c w1 where g: "cache_get S (os_cache os) (order_key no) w = Some ((v, found, err), c, w1)"
    "detector_fine (mc_hot_keys c)" "counters_ok c"
    using cache_get_some [of "os_cache os" S "order_key no" w] assms unfolding os_inv_def by force
  with assms have i: "os_inv (os\<lparr>os_cache := c\<rparr>)" by (simp add: os_inv_def)
  show ?thesis
    using i db_query_inv [OF i, of S no w1]
    by (cases err; cases found; cases v)
      (simp_all add: get_order_def g Let_def del: split_paired_Ex)
qed

lemma es_task_inv:
  assumes "os_inv os"
  shows "os_inv (fst (run_es_task S i (os, w)))"
  using assms by (auto simp: run_es_task_def os_inv_def)

lemma order_step_inv:
  assumes "clock_ok S clk" "\<exists>os w. s = Some (os, w) \<and> os_inv os"
  shows "\<exists>os w. order_step S s c = Some (os, w) \<and> os_inv os"
proof -
  obtain os w where s: "s = Some (os, w)" and i: "os_inv os" using assms(2) by blast
  show ?thesis
  proof (cases c)
    case (OCreate tid od)
    then show ?thesis using s create_order_inv [OF assms(1) i, of tid od w] by force
  next
    case (OForceSync tid od)
    then show ?thesis using s force_sync_inv [OF assms(1) i, of tid od w] by force
  next
    case (OEvent val)
    then show ?thesis using s handle_inv [OF i, of S val w]
      by (intro exI [of _ "left_by (handle_order_event S val (os, w))"]) (simp add: prod_eq_iff)
  next
    case (OGet no)
    then show ?thesis using s get_order_inv [OF i, of S no w] by force
  next
    case (OIndexed n)
    then show ?thesis using s es_task_inv [OF i, of S n w] by (simp add: prod_eq_iff)
  next
    case (OSent n)
    then show ?thesis using s i by (auto simp: run_async_task_def os_frame split: option.splits)
  next
    case (ODelayed n)
    then show ?thesis using s i by (auto simp: delayed_delete_def os_frame os_inv_def counters_ok_def)
  qed (use s i in auto)
qed

interpretation orderm: machine "order_step S" "\<lambda>_ _. clock_ok S clk" "\<lambda>s. \<exists>os w. s = Some (os, w) \<and> os_inv os" for S clk
  by unfold_locales (rule order_step_inv)

text \<open>
  C19: When time passes and the detector of the cache is valid, in any sequence of creations,
  callbacks, queries and background tasks every call returns, and the indexing slots in use are
  exactly the unfinished indexing tasks, never more than 100.
\<close>

theorem order_service_runs:
  assumes "clock_ok S clk" "detector_fine hot"
  shows "\<exists>os w'. run (order_step S) (Some (new_order_service (new_cache l2 ld hot) p rl lk cb db search seq rid, w)) cs = Some (os, w') \<and>
    os_es_slots os = length (os_es_pending os) \<and> os_es_slots os \<le> 100"
proof -
  let ?os = "new_order_service (new_cache l2 ld hot) p rl lk cb db search seq rid"
  have "os_inv ?os" using assms(2) by (simp add: os_inv_def new_order_service_def new_cache_def counters_ok_def)
  then have "\<exists>os w'. run (order_step S) (Some (?os, w)) cs = Some (os, w') \<and> os_inv os"
    using assms(1) by (intro orderm.run_inv [where clk = clk]) simp_all
  then show ?thesis by (auto simp: os_inv_def es_max_concurrency_def)
qed

theorem order_service_runs_witness:
  "\<exists>os w'. run (order_step ref_services)
     (Some (new_order_service (new_cache True None None) None (new_limiter 10 10 0) True (new_breaker ''db'' 5 60 30 (fl (1 / 2)) 500 0)
        one_db True 5 [1, 2, 3, 4, 5, 6, 7, 8], ref_init 0))
     [OCreate ''t1'' sample_order, OForceSync ''t2'' sample_order, OGet ''ORD1'', OIndexed 0, ODelayed 0] = Some (os, w') \<and>
     os_es_slots os = length (os_es_pending os) \<and> os_es_slots os \<le> 100"
  by (rule order_service_runs [OF ref_clock_ok]) (simp add: detector_fine_def)

section \<open>Without a database\<close>

text \<open>
  With neither database nor Redis, \<open>dbWrite\<close> keeps the order in L1 only, and the creation that
  called it deletes it from L1 before it returns.
\<close>

lemma l1_gone:
  assumes "store_ok S l1v kv" "l1v w k = None"
  shows "fst (l1_get S k w) = None"
  using assms unfolding store_ok_def by metis

lemma publish_l1:
  assumes "store_ok S l1v kv"
  shows "l1v (snd (publish_order_event S tid od (os, w))) = l1v w"
  using store_quiet(4) [OF assms]
  by (simp add: publish_order_event_def quiet_def split_beta split: option.split)

definition redis_down :: "'w services \<Rightarrow> bool" where
  "redis_down S \<longleftrightarrow> (\<forall>k w. isl (fst (rd_get S k w))) \<and> (\<forall>k v d w. isl (fst (rd_setnx S k v d w)))"

lemma lock_without_redis:
  assumes "redis_down S"
  shows "\<exists>e w'. lock_acquire S key ttl wt w = Some (Inl e, w')"
proof -
  obtain token w1 where 1: "lock_token S w = (token, w1)" by force
  obtain now w2 where 2: "sv_now S w1 = (now, w2)" by force
  obtain e w3 where "rd_setnx S key (Raw token) ttl w2 = (Inl e, w3)"
    using assms unfolding redis_down_def by (metis isl_def prod.collapse)
  then show ?thesis using 1 2 by (simp add: lock_acquire_def lock_loop.simps lock_attempt_def)
qed

lemma force_sync_without_db:
  assumes "store_ok S l1v kv" "redis_down S" "db_missing os"
    and "create_order_force_sync S tid od0 (os, w) = Some ((ch, no, err), os', w')"
  shows "ch = ''sync'' \<and> err = None \<and> l1v w' (order_key no) = None \<and>
    (\<exists>d. os_cache os' = (os_cache os)\<lparr>mc_delayed := d\<rparr>) \<and> db_missing os'"
proof -
  obtain od os1 w1 where p: "prepare_order S od0 (os, w) = (od, os1, w1)" by (metis prod.collapse)
  have os1: "os_cache os1 = os_cache os" "os_db os1 = os_db os" "os_lock os1 = os_lock os" "db_missing os1"
    using p assms(3) by (auto simp: prepare_order_def generate_order_no_def db_missing_def Let_def split_beta)
  obtain start w2 where s: "sv_now S w1 = (start, w2)" by force
  obtain e w3 where l: "lock_acquire S (create_lock_key od) (5 * second) (200 * millisecond) w2 = Some (Inl e, w3)"
    using lock_without_redis [OF assms(2)] by blast
  obtain u where u: "write_and_publish S ''sync'' tid od start (os1, u) = ((ch, no, err), os', w')"
    using assms(4) p s l by (auto simp: create_order_force_sync_def unlock_if_def split: if_splits prod.splits)
  define w4 where "w4 = cache_set S (os_cache os1) (order_key (ord_order_no od)) (GOrder od) u"
  have d: "db_write S od (os1, u) = (None, os1, w4)" using os1(4) by (simp add: db_write_def w4_def)
  obtain n w5 where n: "sv_now S w4 = (n, w5)" by force
  obtain t w6 where t: "sv_now S w5 = (t, w6)" by force
  let ?os2 = "os1\<lparr>os_cb := record_success (time_sub n start) t (os_cb os1)\<rparr>"
  obtain c w7 where c: "invalidate_with_delay S (order_key (ord_order_no od)) 500 (os_cache os1, w6) = (c, w7)" by force
  have r: "ch = ''sync''" "no = ord_order_no od" "err = None"
      "publish_order_event S tid od (?os2\<lparr>os_cache := c\<rparr>, w7) = (os', w')"
    using u d n t c by (auto simp: write_and_publish_def Let_def split: prod.splits)
  have "l1v w7 (order_key no) = None" using c assms(1) r(2)
    by (auto simp: invalidate_with_delay_def delete_both_def store_ok_def)
  moreover have "l1v w' = l1v w7" using publish_l1 [OF assms(1)] r(4) by (metis snd_conv)
  moreover have "os_cache os' = c \<and> os_db os' = os_db os1"
    using r(4) by (auto simp: publish_order_event_def split: option.splits prod.splits)
  moreover have "\<exists>d. c = (os_cache os)\<lparr>mc_delayed := d\<rparr>" using c os1(1) by (auto simp: invalidate_with_delay_def)
  ultimately show ?thesis using r os1 assms(3) by (simp add: db_missing_def)
qed

text \<open>The loader has nothing without a database (\<open>newDataLoader\<close>), or there is none.\<close>

definition loader_empty :: "'w mlc \<Rightarrow> bool" where
  "loader_empty mc \<longleftrightarrow> (case mc_loader mc of None \<Rightarrow> True | Some ld \<Rightarrow> \<forall>k w. fst (ld k w) = Inr GNil)"

lemma load_empty:
  assumes "loader_empty mc"
  shows "\<exists>f e w'. load_from_db S mc key w = ((GNil, f, e), w') \<and> (f \<or> e \<noteq> None)"
  using assms by (auto simp: loader_empty_def load_from_db_def split: option.splits prod.splits sum.splits)
    (metis Inl_Inr_False fst_conv sum.inject(2))+

lemma get_without_stores:
  assumes "redis_down S" "loader_empty mc" "detector_fine (mc_hot_keys mc)" "fst (l1_get S key w) = None"
  shows "\<exists>f e mc' w'. cache_get S mc key w = Some ((GNil, f, e), mc', w') \<and> (f \<or> e \<noteq> None)"
proof -
  obtain w1 where l1: "l1_get S key w = (None, w1)" using assms(4) by (metis prod.collapse)
  let ?mc = "mc\<lparr>mc_l1_total := mc_l1_total mc + 1\<rparr>"
  have load: "\<exists>f e w'. load_from_db S (mc\<lparr>mc_l1_total := a, mc_hot_keys := h, mc_misses := b\<rparr>) key u = ((GNil, f, e), w') \<and> (f \<or> e \<noteq> None)"
    "\<exists>f e w'. load_from_db S (mc\<lparr>mc_l1_total := a, mc_misses := b\<rparr>) key u = ((GNil, f, e), w') \<and> (f \<or> e \<noteq> None)" for a b h u
    by (rule load_empty; use assms(2) in \<open>simp add: loader_empty_def\<close>)+
  have lock: "\<exists>f e w'. load_with_lock S (mc\<lparr>mc_l1_total := a, mc_hot_keys := h, mc_misses := b\<rparr>) key u = ((GNil, f, e), w') \<and> (f \<or> e \<noteq> None)" for a b h u
  proof (cases "mc_l2 mc")
    case True
    then obtain e w' where "rd_setnx S (lock_key mc key) (Raw ''1'') (mc_lock_ttl mc) u = (Inl e, w')"
      using assms(1) unfolding redis_down_def by (metis isl_def prod.collapse)
    then show ?thesis using True by (auto simp: load_with_lock_def lock_key_def intro: exI [of _ False])
  qed (use load in \<open>simp add: load_with_lock_def\<close>)
  have miss: "\<exists>f e mc' w'. get_miss S ?mc key u = Some ((GNil, f, e), mc', w') \<and> (f \<or> e \<noteq> None)" for u
  proof (cases "mc_hot_keys mc")
    case None
    then show ?thesis using load(2) [where a = "mc_l1_total mc + 1" and b = "mc_misses mc + 1" and u = u] by (auto simp: get_miss_def Let_def)
  next
    case (Some h)
    obtain now u1 where now: "sv_now S u = (now, u1)" by force
    obtain hot h' where "record_access key now h = Some (hot, h')"
      using assms(3) Some record_access_inv unfolding detector_fine_def by fastforce
    then show ?thesis using Some now load(1) [where a = "mc_l1_total mc + 1" and h = "Some h'" and b = "mc_misses mc + 1" and u = u1]
        lock [where a = "mc_l1_total mc + 1" and h = "Some h'" and b = "mc_misses mc + 1" and u = u1]
      by (cases hot) (auto simp: get_miss_def Let_def)
  qed
  show ?thesis
  proof (cases "mc_l2 mc")
    case True
    then obtain e w2 where "rd_get S key w1 = (Inl e, w2)"
      using assms(1) unfolding redis_down_def by (metis isl_def prod.collapse)
    then show ?thesis using l1 True miss [of w2] by (simp add: cache_get_def Let_def)
  qed (use l1 miss [of w1] in \<open>simp add: cache_get_def Let_def\<close>)
qed

text \<open>
  C35: With database and Redis unavailable (the loader finds nothing then) and a valid detector,
  CreateOrderForceSync reports channel sync and no error, and a query of the number it returned
  fails at once: the write to L1 that stands in for the database is deleted by the invalidation
  that follows.
\<close>

theorem order_lost_without_db:
  assumes "store_ok S l1v kv" "redis_down S" "loader_empty (os_cache os)" "detector_fine (mc_hot_keys (os_cache os))"
    and "db_missing os" "create_order_force_sync S tid od0 (os, w) = Some ((ch, no, err), os', w')"
  shows "ch = ''sync'' \<and> err = None \<and> (\<exists>e os'' w''. get_order S no (os', w') = Some (Inl e, os'', w''))"
proof -
  from force_sync_without_db [OF assms(1,2,5,6)] obtain d where
    r: "ch = ''sync''" "err = None" "l1v w' (order_key no) = None" "os_cache os' = (os_cache os)\<lparr>mc_delayed := d\<rparr>" "db_missing os'"
    by blast
  have "loader_empty (os_cache os')" "detector_fine (mc_hot_keys (os_cache os'))"
    using r(4) assms(3,4) by (simp_all add: loader_empty_def)
  from get_without_stores [OF assms(2) this l1_gone [OF assms(1) r(3)]] obtain f e mc' w'' where
    "cache_get S (os_cache os') (order_key no) w' = Some ((GNil, f, e), mc', w'')" "f \<or> e \<noteq> None" by blast
  then have "\<exists>e os'' w''. get_order S no (os', w') = Some (Inl e, os'', w'')"
    by (cases e) (auto simp: get_order_def Let_def)
  then show ?thesis using r by blast
qed

text \<open>The reference world without Redis.\<close>

definition no_redis :: "ref_world services" where
  "no_redis = ref_services\<lparr>rd_get := (\<lambda>k w. (Inl redis_nil, w)), rd_setnx := (\<lambda>k v d w. (Inl redis_nil, w))\<rparr>"

lemma no_redis_ok: "store_ok no_redis ref_l1v rf_kv" "redis_down no_redis"
  using ref_store_ok by (simp_all add: store_ok_def no_redis_def redis_down_def quiet_def redis_put_def)

lemma no_redis_clock: "clock_ok no_redis rf_clock"
  by (simp add: clock_ok_def no_redis_def ref_services_def)

lemma plain_inv: "os_inv (plain_service db n)"
  by (simp add: os_inv_def plain_service_def new_order_service_def new_cache_def counters_ok_def detector_fine_def)

theorem order_lost_without_db_witness:
  "\<exists>no os' w' e os'' w''.
     create_order_force_sync no_redis ''t1'' sample_order (plain_service None 5, ref_init 0) = Some ((''sync'', no, None), os', w') \<and>
     get_order no_redis no (os', w') = Some (Inl e, os'', w'')"
proof -
  have p: "db_missing (plain_service None 5)" "loader_empty (os_cache (plain_service None 5))"
    "detector_fine (mc_hot_keys (os_cache (plain_service None 5)))"
    by (simp_all add: plain_service_def new_order_service_def db_missing_def new_cache_def loader_empty_def detector_fine_def)
  obtain ch no err os' w' where c: "create_order_force_sync no_redis ''t1'' sample_order (plain_service None 5, ref_init 0) =
      Some ((ch, no, err), os', w')"
    using force_sync_inv [OF no_redis_clock plain_inv [of None 5], of "''t1''" sample_order "ref_init 0"] by force
  from order_lost_without_db [OF no_redis_ok p(2,3,1) c] c show ?thesis by blast
qed

end
