(* ===== verification/Analytics.thy ===== *)
theory Analytics
  imports Rwdb
begin

section \<open>Analytics (internal/service/analytics_service.go, internal/database/postgres.go)\<close>

text \<open>
  The PostgreSQL repository with its batch insert, and the service that buffers behaviour
  entries in a channel and writes them in batches from a background goroutine. The writer is
  modelled one \<open>select\<close> at a time, so that requests come in between any two of its steps; a
  batch handed to a goroutine is written at any later time.
\<close>

subsection \<open>Repository\<close>

record behavior_entry =
  be_user_id :: int
  be_event_type :: string
  be_event_data :: string

record daily_order_stats =
  ds_stat_date :: time
  ds_total_orders :: int
  ds_total_amount :: f64
  ds_avg_amount :: f64
  ds_paid_orders :: int
  ds_cancelled :: int

definition pg_missing :: "rwdb option \<Rightarrow> bool" where
  "pg_missing db = (case db of None \<Rightarrow> True | Some rw \<Rightarrow> rw_is_nil rw)"

definition daily_stats_sql :: string where
  "daily_stats_sql = ''SELECT stat_date, total_orders, total_amount, avg_amount, paid_orders, cancelled FROM orders_daily_stats WHERE stat_date >= $1 AND stat_date <= $2 ORDER BY stat_date DESC''"

text \<open>\<open>rows.Scan\<close> into the six fields; a value of another type is an error.\<close>

definition scan_error :: goerr where
  "scan_error = Errorf ''sql: Scan error''"

fun col_int :: "gval \<Rightarrow> int option" where "col_int (GInt n) = Some n" | "col_int _ = None"
fun col_num :: "gval \<Rightarrow> f64 option" where "col_num (GNum x) = Some x" | "col_num _ = None"
fun col_time :: "gval \<Rightarrow> time option" where "col_time (GTimeText t) = Some t" | "col_time _ = None"

definition scan_daily :: "gval list \<Rightarrow> goerr + daily_order_stats" where
  "scan_daily row =
     (case row of
        [d, n, t, a, p, c] \<Rightarrow>
          (case (col_time d, col_int n, col_num t, col_num a, col_int p, col_int c) of
             (Some d', Some n', Some t', Some a', Some p', Some c') \<Rightarrow>
               Inr \<lparr>ds_stat_date = d', ds_total_orders = n', ds_total_amount = t', ds_avg_amount = a',
                 ds_paid_orders = p', ds_cancelled = c'\<rparr>
           | _ \<Rightarrow> Inl scan_error)
      | _ \<Rightarrow> Inl scan_error)"

text \<open>The loop over the rows: it stops at the first row that does not scan.\<close>

primrec scan_rows :: "('r \<Rightarrow> goerr + 'a) \<Rightarrow> 'r list \<Rightarrow> goerr + 'a list" where
  "scan_rows f [] = Inr []"
| "scan_rows f (r # rs) =
     (case f r of Inl e \<Rightarrow> Inl e | Inr a \<Rightarrow> (case scan_rows f rs of Inl e \<Rightarrow> Inl e | Inr as \<Rightarrow> Inr (a # as)))"

text \<open>\<open>date_text\<close> is \<open>Format("2006-01-02")\<close>. The result is the value and the error, as in Go.\<close>

definition get_daily_stats ::
  "'w services \<Rightarrow> (time \<Rightarrow> string) \<Rightarrow> time \<Rightarrow> time \<Rightarrow> rwdb option \<times> 'w \<Rightarrow>
     (daily_order_stats list \<times> goerr option) \<times> rwdb option \<times> 'w" where
  "get_daily_stats S date_text from until = (\<lambda>(db, w).
     case (if pg_missing db then None else db) of
       None \<Rightarrow> (([], Some (Errorf ''postgres not available'')), db, w)
     | Some rw \<Rightarrow>
         (case rw_query S daily_stats_sql [GStr (date_text from), GStr (date_text until)] (rw, w) of
            (Inl e, rw1, w1) \<Rightarrow> (([], Some (Wrap ''query daily stats'' e)), Some rw1, w1)
          | (Inr (rows, err), rw1, w1) \<Rightarrow>
              (case scan_rows scan_daily rows of
                 Inl e \<Rightarrow> (([], Some (Wrap ''scan daily stats'' e)), Some rw1, w1)
               | Inr stats \<Rightarrow> ((stats, err), Some rw1, w1))))"

definition summary_sql :: "string \<Rightarrow> string" where
  "summary_sql event_type =
     ''SELECT event_type, COUNT(*) as cnt FROM user_behavior_log WHERE created_at >= $1 AND created_at <= $2'' @
     (if event_type \<noteq> [] then '' AND event_type = $3'' else []) @ '' GROUP BY event_type ORDER BY cnt DESC''"

fun scan_count :: "gval list \<Rightarrow> goerr + string \<times> int" where
  "scan_count [GStr t, GInt n] = Inr (t, n)"
| "scan_count _ = Inl scan_error"

definition repo_behavior_summary ::
  "'w services \<Rightarrow> string \<Rightarrow> time \<Rightarrow> time \<Rightarrow> rwdb option \<times> 'w \<Rightarrow>
     ((string \<rightharpoonup> int) \<times> goerr option) \<times> rwdb option \<times> 'w" where
  "repo_behavior_summary S event_type from until = (\<lambda>(db, w).
     case (if pg_missing db then None else db) of
       None \<Rightarrow> ((Map.empty, Some (Errorf ''postgres not available'')), db, w)
     | Some rw \<Rightarrow>
         (case rw_query S (summary_sql event_type)
             ([GTimeText from, GTimeText until] @ (if event_type \<noteq> [] then [GStr event_type] else [])) (rw, w) of
            (Inl e, rw1, w1) \<Rightarrow> ((Map.empty, Some (Wrap ''query behavior summary'' e)), Some rw1, w1)
          | (Inr (rows, err), rw1, w1) \<Rightarrow>
              (case scan_rows scan_count rows of
                 Inl e \<Rightarrow> ((Map.empty, Some (Wrap ''scan behavior summary'' e)), Some rw1, w1)
               | Inr counts \<Rightarrow> ((fold (\<lambda>(t, n) m. m(t \<mapsto> n)) counts Map.empty, err), Some rw1, w1))))"

definition log_behavior_sql :: string where
  "log_behavior_sql = ''INSERT INTO user_behavior_log (user_id, event_type, event_data, created_at) VALUES ($1, $2, $3::jsonb, NOW())''"

definition entry_args :: "behavior_entry \<Rightarrow> gval list" where
  "entry_args e = [GInt (be_user_id e), GStr (be_event_type e), GStr (be_event_data e)]"

definition log_behavior :: "'w services \<Rightarrow> rwdb option \<Rightarrow> behavior_entry \<Rightarrow> 'w \<Rightarrow> goerr option \<times> 'w" where
  "log_behavior S db e w =
     (case (if pg_missing db then None else db) of
        None \<Rightarrow> (None, w)
      | Some rw \<Rightarrow> rw_exec S rw log_behavior_sql (entry_args e) w)"

definition value_row :: "nat \<Rightarrow> string" where
  "value_row i = ''($'' @ dec i @ '',$'' @ dec (i + 1) @ '',$'' @ dec (i + 2) @ ''::jsonb,NOW())''"

text \<open>The loop of \<open>LogBehaviorBatch\<close>: rows, arguments and the next placeholder.\<close>

fun batch_step :: "behavior_entry \<Rightarrow> string list \<times> gval list \<times> nat \<Rightarrow> string list \<times> gval list \<times> nat" where
  "batch_step e (values, args, idx) = (values @ [value_row idx], args @ entry_args e, idx + 3)"

fun join_strings :: "string list \<Rightarrow> string \<Rightarrow> string" where
  "join_strings [] sep = []"
| "join_strings (s # ss) sep = fold (\<lambda>x result. result @ sep @ x) ss s"

definition batch_insert_sql :: "string list \<Rightarrow> string" where
  "batch_insert_sql values =
     ''INSERT INTO user_behavior_log (user_id, event_type, event_data, created_at) VALUES '' @ join_strings values '',''"

definition log_behavior_batch :: "'w services \<Rightarrow> rwdb option \<Rightarrow> behavior_entry list \<Rightarrow> 'w \<Rightarrow> goerr option \<times> 'w" where
  "log_behavior_batch S db entries w =
     (case (if pg_missing db \<or> entries = [] then None else db) of
        None \<Rightarrow> (None, w)
      | Some rw \<Rightarrow>
          (case fold batch_step entries ([], [], 1) of
             (values, args, _) \<Rightarrow> rw_exec S rw (batch_insert_sql values) args w))"

subsection \<open>Service\<close>

datatype writer_pc = WSelect | WDrain bool | WExited

text \<open>
  The state: the buffer channel, the flush and close signals, the writer's position and
  batch, the batches it has handed to goroutines and the ones of those that have finished.
  \<open>WDrain True\<close> is the drain on close.
\<close>

record analytics =
  an_repo :: "rwdb option"
  an_buf :: "behavior_entry list"
  an_flush :: bool
  an_closed :: bool
  an_pc :: writer_pc
  an_batch :: "behavior_entry list"
  an_spawned :: "behavior_entry list list"
  an_finished :: "nat set"

definition buf_channel_size :: nat where "buf_channel_size = 10000"
definition batch_size :: nat where "batch_size = 200"

definition new_analytics :: "rwdb option \<Rightarrow> analytics" where
  "new_analytics repo =
     \<lparr>an_repo = repo, an_buf = [], an_flush = False, an_closed = False, an_pc = WSelect, an_batch = [],
      an_spawned = [], an_finished = {}\<rparr>"

text \<open>\<open>Close\<close> up to the wait for the goroutines; closing twice panics.\<close>

definition analytics_close :: "analytics \<Rightarrow> analytics option" where
  "analytics_close a = (if an_closed a then None else Some (a\<lparr>an_closed := True\<rparr>))"

definition buf_send :: "behavior_entry \<Rightarrow> analytics \<Rightarrow> bool \<times> analytics" where
  "buf_send e a =
     (if length (an_buf a) < buf_channel_size then (True, a\<lparr>an_buf := an_buf a @ [e]\<rparr>) else (False, a))"

definition signal_flush :: "analytics \<Rightarrow> analytics" where
  "signal_flush a = a\<lparr>an_flush := True\<rparr>"

text \<open>
  \<open>LogOrderCreated\<close> in its two halves: the first attempt, with the flush signal if it fails,
  and the second attempt, whose failure drops the entry. \<open>json_text\<close> prints JSON.
\<close>

definition order_created_entry :: "(json \<Rightarrow> string) \<Rightarrow> int \<Rightarrow> string \<Rightarrow> behavior_entry" where
  "order_created_entry json_text user_id order_no =
     \<lparr>be_user_id = user_id, be_event_type = ''order_create'',
      be_event_data = json_text (JObj [(''order_no'', JStr order_no)])\<rparr>"

definition log_first :: "behavior_entry \<Rightarrow> analytics \<Rightarrow> bool \<times> analytics" where
  "log_first e a = (case buf_send e a of (True, a') \<Rightarrow> (True, a') | (False, a') \<Rightarrow> (False, signal_flush a'))"

definition log_order_created :: "(json \<Rightarrow> string) \<Rightarrow> int \<Rightarrow> string \<Rightarrow> analytics \<Rightarrow> analytics" where
  "log_order_created json_text user_id order_no a =
     (let e = order_created_entry json_text user_id order_no
      in case log_first e a of (True, a') \<Rightarrow> a' | (False, a') \<Rightarrow> snd (buf_send e a'))"

definition flush_batch :: "analytics \<Rightarrow> analytics" where
  "flush_batch a =
     (if an_batch a = [] then a else a\<lparr>an_batch := [], an_spawned := an_spawned a @ [an_batch a]\<rparr>)"

definition take_entry :: "behavior_entry \<Rightarrow> behavior_entry list \<Rightarrow> analytics \<Rightarrow> analytics" where
  "take_entry e rest a =
     (let a' = a\<lparr>an_buf := rest, an_batch := an_batch a @ [e]\<rparr>
      in if batch_size \<le> length (an_batch a') then flush_batch a' else a')"

text \<open>One round of \<open>drainAndFlush\<close>: an entry, or the flush that ends it.\<close>

definition drain_step :: "bool \<Rightarrow> analytics \<Rightarrow> analytics" where
  "drain_step closing a =
     (case an_buf a of
        e # rest \<Rightarrow> take_entry e rest a
      | [] \<Rightarrow> (flush_batch a)\<lparr>an_pc := if closing then WExited else WSelect\<rparr>)"

text \<open>What the \<open>select\<close> of \<open>batchWriter\<close> chose; a case that is not ready cannot be chosen.\<close>

datatype writer_signal = SClose | SFlush | SEntry | STick

fun writer_select :: "writer_signal \<Rightarrow> analytics \<Rightarrow> analytics" where
  "writer_select SClose a = (if an_closed a then a\<lparr>an_pc := WDrain True\<rparr> else a)"
| "writer_select SFlush a = (if an_flush a then a\<lparr>an_flush := False, an_pc := WDrain False\<rparr> else a)"
| "writer_select SEntry a = (case an_buf a of [] \<Rightarrow> a | e # rest \<Rightarrow> take_entry e rest a)"
| "writer_select STick a = flush_batch a"

definition writer_step :: "writer_signal \<Rightarrow> analytics \<Rightarrow> analytics" where
  "writer_step sig a =
     (case an_pc a of WSelect \<Rightarrow> writer_select sig a | WDrain closing \<Rightarrow> drain_step closing a | WExited \<Rightarrow> a)"

text \<open>The goroutine of batch \<open>i\<close>.\<close>

definition write_batch :: "'w services \<Rightarrow> nat \<Rightarrow> analytics \<times> 'w \<Rightarrow> analytics \<times> 'w" where
  "write_batch S i = (\<lambda>(a, w).
     if i < length (an_spawned a) \<and> i \<notin> an_finished a
     then (a\<lparr>an_finished := insert i (an_finished a)\<rparr>, snd (log_behavior_batch S (an_repo a) (an_spawned a ! i) w))
     else (a, w))"

definition service_daily_stats ::
  "'w services \<Rightarrow> (time \<Rightarrow> string) \<Rightarrow> time \<Rightarrow> time \<Rightarrow> analytics \<times> 'w \<Rightarrow> (daily_order_stats list \<times> goerr option) \<times> analytics \<times> 'w" where
  "service_daily_stats S date_text from until = (\<lambda>(a, w).
     case get_daily_stats S date_text from until (an_repo a, w) of (r, db, w1) \<Rightarrow> (r, a\<lparr>an_repo := db\<rparr>, w1))"

text \<open>\<open>add_date t y m d\<close> is \<open>t.AddDate(y, m, d)\<close>.\<close>

definition service_behavior_summary ::
  "'w services \<Rightarrow> (time \<Rightarrow> int \<Rightarrow> int \<Rightarrow> int \<Rightarrow> time) \<Rightarrow> string \<Rightarrow> analytics \<times> 'w \<Rightarrow>
     ((string \<rightharpoonup> int) \<times> goerr option) \<times> analytics \<times> 'w" where
  "service_behavior_summary S add_date event_type = (\<lambda>(a, w).
     case sv_now S w of (now, w1) \<Rightarrow>
       (case repo_behavior_summary S event_type (add_date now 0 0 (- 7)) now (an_repo a, w1) of
          (r, db, w2) \<Rightarrow> (r, a\<lparr>an_repo := db\<rparr>, w2)))"

section \<open>What the batch insert binds\<close>

lemma batch_fold:
  "fold batch_step es (vs, as, idx) =
     (vs @ map (\<lambda>i. value_row (idx + 3 * i)) [0..<length es], as @ concat (map entry_args es), idx + 3 * length es)"
proof (induction es arbitrary: vs as idx)
  case (Cons e es)
  have "map (\<lambda>i. value_row (idx + 3 * i)) [0..<Suc (length es)] =
      value_row idx # map (\<lambda>i. value_row (idx + 3 + 3 * i)) [0..<length es]"
    by (simp add: map_upt_Suc algebra_simps del: upt_Suc)
  with Cons.IH [of "vs @ [value_row idx]" "as @ entry_args e" "idx + 3"] show ?case by simp
qed simp

lemma entry_args_length [simp]: "length (entry_args e) = 3"
  by (simp add: entry_args_def)

lemma nth_entry_args:
  "i < length es \<Longrightarrow> j < 3 \<Longrightarrow> concat (map entry_args es) ! (3 * i + j) = entry_args (es ! i) ! j"
proof (induction es arbitrary: i)
  case (Cons e es)
  then show ?case by (cases i) (simp_all add: nth_append)
qed simp

lemma length_entry_args: "length (concat (map entry_args es)) = 3 * length es"
  by (induction es) simp_all

lemma join_strings_snoc: "ss \<noteq> [] \<Longrightarrow> join_strings (ss @ [s]) sep = join_strings ss sep @ sep @ s"
  by (cases ss) simp_all

text \<open>
  The batch insert has one row of placeholders per entry, and the placeholders of a row are bound
  to user, type and data of that entry.
\<close>

theorem batch_insert_binds_rows:
  assumes "\<not> pg_missing (Some rw)" "es \<noteq> []"
  shows "\<exists>args. log_behavior_batch S (Some rw) es w =
      rw_exec S rw (batch_insert_sql (map (\<lambda>i. value_row (3 * i + 1)) [0..<length es])) args w \<and>
    length args = 3 * length es \<and>
    (\<forall>i j. i < length es \<longrightarrow> j < 3 \<longrightarrow> args ! (3 * i + 1 + j - 1) = entry_args (es ! i) ! j)"
proof (intro exI conjI allI impI)
  show "log_behavior_batch S (Some rw) es w =
      rw_exec S rw (batch_insert_sql (map (\<lambda>i. value_row (3 * i + 1)) [0..<length es])) (concat (map entry_args es)) w"
    using assms by (simp add: log_behavior_batch_def batch_fold algebra_simps)
qed (simp_all add: nth_entry_args length_entry_args)

theorem batch_insert_binds_rows_witness:
  "\<exists>args. log_behavior_batch ref_services (Some (new_rwdb (Some 0) []))
      [\<lparr>be_user_id = 7, be_event_type = ''a'', be_event_data = ''{}''\<rparr>, \<lparr>be_user_id = 8, be_event_type = ''b'', be_event_data = ''{}''\<rparr>] (ref_init 0) =
      rw_exec ref_services (new_rwdb (Some 0) []) (batch_insert_sql [value_row 1, value_row 4]) args (ref_init 0) \<and>
    args ! 3 = GInt 8"
proof -
  let ?es = "[\<lparr>be_user_id = 7, be_event_type = ''a'', be_event_data = ''{}''\<rparr>, \<lparr>be_user_id = 8, be_event_type = ''b'', be_event_data = ''{}''\<rparr>]"
  obtain args where "log_behavior_batch ref_services (Some (new_rwdb (Some 0) [])) ?es (ref_init 0) =
      rw_exec ref_services (new_rwdb (Some 0) []) (batch_insert_sql (map (\<lambda>i. value_row (3 * i + 1)) [0..<length ?es])) args (ref_init 0)"
    "\<forall>i j. i < length ?es \<longrightarrow> j < 3 \<longrightarrow> args ! (3 * i + 1 + j - 1) = entry_args (?es ! i) ! j"
    using batch_insert_binds_rows [of "new_rwdb (Some 0) []" ?es ref_services "ref_init 0"]
    by (auto simp: pg_missing_def rw_is_nil_def new_rwdb_def)
  then show ?thesis by (intro exI [of _ args]) (force simp: entry_args_def dest: spec [of _ 1] spec [of _ 0])
qed

section \<open>Runs of the service\<close>

text \<open>
  A run records what was accepted, what was refused and which requests are between their two
  attempts. \<open>ALog\<close> is a first attempt, \<open>ARetry\<close> a second one.
\<close>

record 'w an_sys =
  as_svc :: analytics
  as_world :: 'w
  as_accepted :: "behavior_entry list"
  as_retrying :: "behavior_entry list"
  as_refused :: "behavior_entry list"

datatype an_op = ALog behavior_entry | ARetry nat | AClose | AWriter writer_signal | AWritten nat

definition an_init :: "rwdb option \<Rightarrow> 'w \<Rightarrow> 'w an_sys" where
  "an_init repo w = \<lparr>as_svc = new_analytics repo, as_world = w, as_accepted = [], as_retrying = [], as_refused = []\<rparr>"

fun an_step :: "'w services \<Rightarrow> 'w an_sys option \<Rightarrow> an_op \<Rightarrow> 'w an_sys option" where
  "an_step S None c = None"
| "an_step S (Some s) (ALog e) =
     (case log_first e (as_svc s) of
        (True, a) \<Rightarrow> Some (s\<lparr>as_svc := a, as_accepted := as_accepted s @ [e]\<rparr>)
      | (False, a) \<Rightarrow> Some (s\<lparr>as_svc := a, as_retrying := as_retrying s @ [e]\<rparr>))"
| "an_step S (Some s) (ARetry i) =
     (if i < length (as_retrying s)
      then
        (let e = as_retrying s ! i; s' = s\<lparr>as_retrying := take i (as_retrying s) @ drop (Suc i) (as_retrying s)\<rparr>
         in case buf_send e (as_svc s) of
              (True, a) \<Rightarrow> Some (s'\<lparr>as_svc := a, as_accepted := as_accepted s @ [e]\<rparr>)
            | (False, a) \<Rightarrow> Some (s'\<lparr>as_svc := a, as_refused := as_refused s @ [e]\<rparr>))
      else Some s)"
| "an_step S (Some s) AClose = map_option (\<lambda>a. s\<lparr>as_svc := a\<rparr>) (analytics_close (as_svc s))"
| "an_step S (Some s) (AWriter sig) = Some (s\<lparr>as_svc := writer_step sig (as_svc s)\<rparr>)"
| "an_step S (Some s) (AWritten i) =
     (case write_batch S i (as_svc s, as_world s) of (a, w) \<Rightarrow> Some (s\<lparr>as_svc := a, as_world := w\<rparr>))"

text \<open>Everything the service holds, oldest first.\<close>

definition held :: "analytics \<Rightarrow> behavior_entry list" where
  "held a = concat (an_spawned a) @ an_batch a @ an_buf a"

definition an_inv :: "'w an_sys \<Rightarrow> bool" where
  "an_inv s \<longleftrightarrow> as_accepted s = held (as_svc s) \<and> length (an_buf (as_svc s)) \<le> buf_channel_size \<and>
     length (an_batch (as_svc s)) < batch_size \<and>
     (\<forall>b \<in> set (an_spawned (as_svc s)). b \<noteq> [] \<and> length b \<le> batch_size) \<and>
     (an_pc (as_svc s) = WExited \<longrightarrow> an_closed (as_svc s) \<and> an_batch (as_svc s) = []) \<and>
     (an_pc (as_svc s) = WDrain True \<longrightarrow> an_closed (as_svc s))"

text \<open>The part of the invariant that is about the service alone, with the batch bound \<open>n\<close>.\<close>

definition svc_ok :: "nat \<Rightarrow> analytics \<Rightarrow> bool" where
  "svc_ok n a \<longleftrightarrow> length (an_buf a) \<le> buf_channel_size \<and> length (an_batch a) \<le> n \<and>
     (\<forall>b \<in> set (an_spawned a). b \<noteq> [] \<and> length b \<le> batch_size)"

lemma below_batch_size: "n < batch_size \<longleftrightarrow> n \<le> batch_size - 1"
  unfolding batch_size_def by linarith

lemma an_inv_svc:
  "an_inv s \<longleftrightarrow> as_accepted s = held (as_svc s) \<and> svc_ok (batch_size - 1) (as_svc s) \<and>
     (an_pc (as_svc s) = WExited \<longrightarrow> an_closed (as_svc s) \<and> an_batch (as_svc s) = []) \<and>
     (an_pc (as_svc s) = WDrain True \<longrightarrow> an_closed (as_svc s))"
  unfolding an_inv_def svc_ok_def below_batch_size by blast

lemma flush_batch_simps [simp]:
  "an_pc (flush_batch a) = an_pc a" "an_closed (flush_batch a) = an_closed a" "an_buf (flush_batch a) = an_buf a"
  "an_batch (flush_batch a) = []" "held (flush_batch a) = held a"
  by (simp_all add: flush_batch_def held_def)

lemma flush_batch_ok: "svc_ok n a \<Longrightarrow> n \<le> batch_size \<Longrightarrow> svc_ok m (flush_batch a)"
  by (auto simp: svc_ok_def flush_batch_def)

lemma take_entry_simps:
  assumes "an_buf a = e # rest"
  shows "an_pc (take_entry e rest a) = an_pc a" "an_closed (take_entry e rest a) = an_closed a"
    "held (take_entry e rest a) = held a"
  using assms by (simp_all add: take_entry_def Let_def) (simp add: held_def)

lemma take_entry_ok:
  assumes "an_buf a = e # rest" "svc_ok (batch_size - 1) a"
  shows "svc_ok (batch_size - 1) (take_entry e rest a)"
proof -
  let ?a = "a\<lparr>an_buf := rest, an_batch := an_batch a @ [e]\<rparr>"
  have ok: "svc_ok batch_size ?a" using assms by (auto simp: svc_ok_def batch_size_def)
  show ?thesis
  proof (cases "batch_size \<le> length (an_batch ?a)")
    case True
    then show ?thesis using flush_batch_ok [OF ok] by (simp add: take_entry_def)
  next
    case False
    then show ?thesis using ok by (auto simp: take_entry_def svc_ok_def)
  qed
qed

lemma held_pc [simp]: "held (a\<lparr>an_pc := p\<rparr>) = held a" "held (a\<lparr>an_flush := f\<rparr>) = held a"
  "held (a\<lparr>an_flush := f, an_pc := p\<rparr>) = held a" "held (a\<lparr>an_closed := c\<rparr>) = held a"
  "held (a\<lparr>an_finished := d\<rparr>) = held a"
  by (simp_all add: held_def)

lemma svc_ok_pc [simp]: "svc_ok n (a\<lparr>an_pc := p\<rparr>) = svc_ok n a" "svc_ok n (a\<lparr>an_flush := f\<rparr>) = svc_ok n a"
  "svc_ok n (a\<lparr>an_flush := f, an_pc := p\<rparr>) = svc_ok n a" "svc_ok n (a\<lparr>an_closed := c\<rparr>) = svc_ok n a"
  "svc_ok n (a\<lparr>an_finished := d\<rparr>) = svc_ok n a"
  by (simp_all add: svc_ok_def)

text \<open>Every move of the writer keeps what the service holds, and its shape.\<close>

lemma writer_step_ok:
  assumes "svc_ok (batch_size - 1) a"
  shows "held (writer_step sig a) = held a \<and> svc_ok (batch_size - 1) (writer_step sig a) \<and>
    an_closed (writer_step sig a) = an_closed a \<and>
    (an_pc (writer_step sig a) = WExited \<longrightarrow> an_pc a = WExited \<and> an_batch (writer_step sig a) = an_batch a \<or>
       an_pc a = WDrain True \<and> an_batch (writer_step sig a) = []) \<and>
    (an_pc (writer_step sig a) = WDrain True \<longrightarrow> an_pc a = WDrain True \<or> an_closed a)"
proof (cases "an_pc a")
  case WSelect
  then show ?thesis
    using assms take_entry_simps take_entry_ok flush_batch_ok [OF assms]
    by (cases sig) (auto simp: writer_step_def batch_size_def split: list.split)
next
  case (WDrain c)
  then show ?thesis
    using assms take_entry_simps take_entry_ok flush_batch_ok [OF assms]
    by (auto simp: writer_step_def drain_step_def batch_size_def split: list.split)
next
  case WExited
  then show ?thesis using assms by (simp add: writer_step_def)
qed

lemma buf_send_ok:
  assumes "svc_ok n a"
  shows "svc_ok n (snd (buf_send e a))" "held (snd (buf_send e a)) = held a @ (if fst (buf_send e a) then [e] else [])"
    "an_pc (snd (buf_send e a)) = an_pc a" "an_closed (snd (buf_send e a)) = an_closed a"
    "an_batch (snd (buf_send e a)) = an_batch a" "an_spawned (snd (buf_send e a)) = an_spawned a"
  using assms by (auto simp: buf_send_def svc_ok_def held_def)

lemma log_first_ok:
  assumes "svc_ok n a"
  shows "svc_ok n (snd (log_first e a))" "held (snd (log_first e a)) = held a @ (if fst (log_first e a) then [e] else [])"
    "an_pc (snd (log_first e a)) = an_pc a" "an_closed (snd (log_first e a)) = an_closed a"
    "an_batch (snd (log_first e a)) = an_batch a" "an_spawned (snd (log_first e a)) = an_spawned a"
  using buf_send_ok [OF assms, of e]
  by (auto simp: log_first_def signal_flush_def split: prod.splits bool.splits)

definition an_some_inv :: "'w an_sys option \<Rightarrow> bool" where
  "an_some_inv x \<longleftrightarrow> (case x of None \<Rightarrow> True | Some s \<Rightarrow> an_inv s)"

lemma an_step_inv:
  assumes "an_some_inv x"
  shows "an_some_inv (an_step S x c)"
proof (cases x)
  case (Some s)
  then have i: "an_inv s" using assms by (simp add: an_some_inv_def)
  then have ok: "svc_ok (batch_size - 1) (as_svc s)" by (simp add: an_inv_svc)
  show ?thesis
  proof (cases c)
    case (ALog e)
    then show ?thesis using Some i log_first_ok [OF ok, of e]
      by (auto simp: an_some_inv_def an_inv_svc split: prod.splits bool.splits)
  next
    case (ARetry k)
    then show ?thesis using Some i buf_send_ok [OF ok, of "as_retrying s ! k"]
      by (auto simp: an_some_inv_def an_inv_svc Let_def split: prod.splits bool.splits)
  next
    case AClose
    then show ?thesis using Some i by (auto simp: an_some_inv_def analytics_close_def an_inv_svc)
  next
    case (AWriter sig)
    then show ?thesis using Some i writer_step_ok [OF ok, of sig] by (auto simp: an_some_inv_def an_inv_svc)
  next
    case (AWritten k)
    then show ?thesis using Some i by (auto simp: an_some_inv_def an_inv_svc write_batch_def split: prod.splits if_splits)
  qed
qed (simp add: an_some_inv_def)

interpretation anm: machine "an_step S" "\<lambda>_ _. True" an_some_inv for S
  by unfold_locales (rule an_step_inv)

lemma an_init_inv: "an_inv (an_init repo w)"
  by (simp add: an_inv_def an_init_def new_analytics_def held_def buf_channel_size_def batch_size_def)

text \<open>The entries of the first attempts of a run.\<close>

fun logged :: "an_op list \<Rightarrow> behavior_entry list" where
  "logged [] = []"
| "logged (ALog e # cs) = e # logged cs"
| "logged (c # cs) = logged cs"

definition an_account :: "'w an_sys \<Rightarrow> behavior_entry multiset" where
  "an_account s = mset (as_accepted s) + mset (as_retrying s) + mset (as_refused s)"

lemma mset_without_nth: "i < length xs \<Longrightarrow> add_mset (xs ! i) (mset (take i xs @ drop (Suc i) xs)) = mset xs"
  by (metis add_mset_add_single id_take_nth_drop mset.simps(2) mset_append union_mset_add_mset_right)

lemma an_step_account:
  assumes "an_step S (Some s) c = Some s'"
  shows "an_account s' = an_account s + mset (logged [c])"
proof (cases c)
  case (ARetry k)
  show ?thesis
  proof (cases "k < length (as_retrying s)")
    case True
    then show ?thesis using assms ARetry mset_without_nth [OF True, symmetric]
      by (auto simp: an_account_def Let_def split: prod.splits bool.splits)
  qed (use assms ARetry in simp)
qed (use assms in \<open>auto simp: an_account_def analytics_close_def write_batch_def split: prod.splits bool.splits if_splits\<close>)

lemma an_run_none: "run (an_step S) None cs = None"
  by (induction cs) simp_all

lemma an_run_account:
  "run (an_step S) (Some s) cs = Some s' \<Longrightarrow> an_account s' = an_account s + mset (logged cs)"
proof (induction cs arbitrary: s)
  case (Cons c cs)
  show ?case
  proof (cases "an_step S (Some s) c")
    case None
    then show ?thesis using Cons.prems by (simp add: an_run_none)
  next
    case (Some t)
    have "logged (c # cs) = logged [c] @ logged cs" by (cases c) simp_all
    then show ?thesis using Cons Some an_step_account [OF Some] by simp
  qed
qed simp

text \<open>
  C23: In every run of requests, writer steps and writes, the accepted entries are, in order, those of
  the batches handed over, of the current batch and of the buffer; every logged entry is accepted,
  between its attempts or refused; batches hold at most 200 entries and the buffer at most 10000.
\<close>

theorem analytics_accounts_for_entries:
  assumes "run (an_step S) (Some (an_init repo w)) cs = Some s"
  shows "as_accepted s = concat (an_spawned (as_svc s)) @ an_batch (as_svc s) @ an_buf (as_svc s) \<and>
    mset (as_accepted s) + mset (as_retrying s) + mset (as_refused s) = mset (logged cs) \<and>
    (\<forall>b \<in> set (an_spawned (as_svc s)). b \<noteq> [] \<and> length b \<le> 200) \<and>
    length (an_buf (as_svc s)) \<le> 10000 \<and> length (an_batch (as_svc s)) < 200"
proof -
  have "an_some_inv (run (an_step S) (Some (an_init repo w)) cs)"
    by (rule anm.run_inv) (simp_all add: an_some_inv_def an_init_inv)
  then have "an_inv s" using assms by (simp add: an_some_inv_def)
  moreover have "an_account s = mset (logged cs)"
    using an_run_account [OF assms] by (simp add: an_account_def an_init_def)
  ultimately show ?thesis by (simp add: an_inv_def held_def an_account_def buf_channel_size_def batch_size_def)
qed

definition sample_entry :: behavior_entry where
  "sample_entry = \<lparr>be_user_id = 7, be_event_type = ''order_create'', be_event_data = ''{}''\<rparr>"

theorem analytics_accounts_for_entries_witness:
  "\<exists>s. run (an_step ref_services) (Some (an_init None (ref_init 0))) [ALog sample_entry, AWriter SEntry, ALog sample_entry, AWriter STick] = Some s \<and>
     concat (an_spawned (as_svc s)) @ an_batch (as_svc s) @ an_buf (as_svc s) = [sample_entry, sample_entry]"
proof -
  let ?cs = "[ALog sample_entry, AWriter SEntry, ALog sample_entry, AWriter STick]"
  obtain s where s: "run (an_step ref_services) (Some (an_init None (ref_init 0))) ?cs = Some s"
      "as_accepted s = [sample_entry, sample_entry]"
    by (simp add: an_init_def new_analytics_def log_first_def buf_send_def writer_step_def take_entry_def flush_batch_def
        batch_size_def buf_channel_size_def Let_def)
  with analytics_accounts_for_entries [OF s(1)] show ?thesis by auto
qed

section \<open>Closing\<close>

text \<open>
  What the writer may still have to do before it exits: entries in the channel, a pending flush
  signal, the phase it is in. A move never adds to it, and a pick of the closed channel takes off.
\<close>

definition writer_work :: "analytics \<Rightarrow> nat" where
  "writer_work a = length (an_buf a) + (if an_flush a then 2 else 0) +
     (case an_pc a of WExited \<Rightarrow> 0 | WDrain closing \<Rightarrow> (if closing then 1 else 3) | WSelect \<Rightarrow> 2)"

lemma writer_work_pos: "an_pc a \<noteq> WExited \<Longrightarrow> 0 < writer_work a"
  by (cases "an_pc a") (simp_all add: writer_work_def)

lemma writer_work_bound: "writer_work a \<le> length (an_buf a) + 5"
  by (cases "an_pc a") (simp_all add: writer_work_def)

lemma work_fields:
  "an_flush (flush_batch a) = an_flush a" "an_buf (take_entry e rest a) = rest" "an_flush (take_entry e rest a) = an_flush a"
  "an_pc (take_entry e rest a) = an_pc a" "an_closed (take_entry e rest a) = an_closed a"
  by (simp_all add: flush_batch_def take_entry_def Let_def)

lemma writer_step_work:
  assumes "an_closed a" "an_pc a \<noteq> WExited" "an_pc (writer_step sig a) \<noteq> WExited"
  shows "writer_work (writer_step sig a) + (if sig = SClose then 1 else 0) \<le> writer_work a"
proof (cases "an_pc a")
  case WSelect
  then show ?thesis using assms(1)
    by (cases sig) (auto simp: writer_step_def writer_work_def work_fields split: list.split)
next
  case (WDrain closing)
  then show ?thesis using assms(3)
    by (auto simp: writer_step_def drain_step_def writer_work_def work_fields split: list.splits if_splits)
qed (use assms in simp)

lemma writer_step_closed: "an_closed (writer_step sig a) = an_closed a"
  by (cases sig; cases "an_pc a") (auto simp: writer_step_def drain_step_def work_fields split: list.split)

lemma writer_exit:
  "an_pc (writer_step sig a) = WExited \<Longrightarrow> an_pc a \<noteq> WExited \<Longrightarrow>
     an_buf (writer_step sig a) = [] \<and> an_batch (writer_step sig a) = []"
  by (cases sig; cases "an_pc a") (auto simp: writer_step_def drain_step_def work_fields split: list.splits if_splits)

text \<open>Attempts to log, first and second ones, and picks of the closed channel in a run.\<close>

fun attempts :: "an_op list \<Rightarrow> nat" where
  "attempts [] = 0"
| "attempts (c # cs) = (case c of ALog e \<Rightarrow> 1 | ARetry i \<Rightarrow> 1 | _ \<Rightarrow> 0) + attempts cs"

fun close_picks :: "an_op list \<Rightarrow> nat" where
  "close_picks [] = 0"
| "close_picks (c # cs) = (if c = AWriter SClose then 1 else 0) + close_picks cs"

lemma buf_send_work:
  "an_pc (snd (buf_send e a)) = an_pc a" "an_closed (snd (buf_send e a)) = an_closed a"
  "writer_work (snd (buf_send e a)) \<le> writer_work a + 1" "an_spawned (snd (buf_send e a)) = an_spawned a"
  by (auto simp: buf_send_def writer_work_def)

lemma log_first_work:
  "an_pc (snd (log_first e a)) = an_pc a" "an_closed (snd (log_first e a)) = an_closed a"
  "writer_work (snd (log_first e a)) \<le> writer_work a + 2" "an_spawned (snd (log_first e a)) = an_spawned a"
  using buf_send_work(1,2,4) [of e a]
  by (auto simp: log_first_def signal_flush_def buf_send_def writer_work_def split: prod.splits bool.splits)

lemma an_step_work:
  assumes "an_step S (Some s) c = Some t" "an_closed (as_svc s)" "an_pc (as_svc t) \<noteq> WExited"
  shows "an_closed (as_svc t) \<and> an_pc (as_svc s) \<noteq> WExited \<and>
    writer_work (as_svc t) + close_picks [c] \<le> writer_work (as_svc s) + 2 * attempts [c]"
proof (cases c)
  case (ALog e)
  then show ?thesis using assms log_first_work [of e "as_svc s"] by (auto split: prod.splits bool.splits)
next
  case (ARetry k)
  then show ?thesis using assms buf_send_work [of "as_retrying s ! k" "as_svc s"]
    by (auto simp: Let_def split: prod.splits bool.splits if_splits)
next
  case AClose
  then show ?thesis using assms by (simp add: analytics_close_def)
next
  case (AWriter sig)
  then have t: "as_svc t = writer_step sig (as_svc s)" using assms(1) by auto
  then have "an_pc (as_svc s) \<noteq> WExited" using assms(3) by (auto simp: writer_step_def)
  then show ?thesis using assms t writer_step_work [of "as_svc s" sig] AWriter by (auto simp: writer_step_closed)
next
  case (AWritten k)
  then show ?thesis using assms by (auto simp: write_batch_def writer_work_def split: prod.splits if_splits)
qed

lemma an_run_work:
  assumes "run (an_step S) (Some s) cs = Some t" "an_closed (as_svc s)" "an_pc (as_svc t) \<noteq> WExited"
  shows "writer_work (as_svc t) + close_picks cs \<le> writer_work (as_svc s) + 2 * attempts cs \<and> an_pc (as_svc s) \<noteq> WExited"
  using assms
proof (induction cs arbitrary: s)
  case (Cons c cs)
  obtain u where u: "an_step S (Some s) c = Some u" using Cons.prems(1) by (cases "an_step S (Some s) c") (simp_all add: an_run_none)
  have "an_closed (as_svc u)" using u Cons.prems(2)
    by (cases c) (auto simp: log_first_def signal_flush_def buf_send_def writer_step_closed analytics_close_def write_batch_def Let_def
        split: if_splits)
  with Cons.IH [of u] Cons.prems(1,3) u
  have r: "writer_work (as_svc t) + close_picks cs \<le> writer_work (as_svc u) + 2 * attempts cs" "an_pc (as_svc u) \<noteq> WExited" by simp_all
  from an_step_work [OF u Cons.prems(2) r(2)] r(1) show ?case by simp
qed simp

text \<open>What was accepted by a state before the exit is handed over when the writer has exited.\<close>

definition hands_over :: "behavior_entry list \<Rightarrow> 'w an_sys \<Rightarrow> bool" where
  "hands_over es s \<longleftrightarrow> an_inv s \<and> (\<exists>rest. as_accepted s = es @ rest) \<and>
     (an_pc (as_svc s) = WExited \<longrightarrow> (\<exists>rest. concat (an_spawned (as_svc s)) = es @ rest))"

lemma an_step_hands_over:
  assumes "hands_over es s" "an_step S (Some s) c = Some t"
  shows "hands_over es t"
proof -
  have i: "an_inv t" using an_step_inv [of "Some s" S c] assms by (simp add: an_some_inv_def hands_over_def)
  have acc: "\<exists>rest. as_accepted t = es @ rest"
    using assms by (cases c) (auto simp: hands_over_def analytics_close_def write_batch_def Let_def split: prod.splits bool.splits if_splits)
  show ?thesis
  proof (cases "\<exists>sig. c = AWriter sig")
    case True
    then obtain sig where t: "as_svc t = writer_step sig (as_svc s)" using assms(2) by auto
    show ?thesis
    proof (cases "an_pc (as_svc s) = WExited")
      case True
      then show ?thesis using t i acc assms(1) by (simp add: hands_over_def writer_step_def)
    next
      case False
      then show ?thesis using t i acc writer_exit [of sig "as_svc s"] by (auto simp: hands_over_def an_inv_def held_def)
    qed
  next
    case False
    then have "an_pc (as_svc t) = an_pc (as_svc s) \<and> an_spawned (as_svc t) = an_spawned (as_svc s)"
      using assms(2) by (cases c) (auto simp: log_first_def signal_flush_def buf_send_def analytics_close_def write_batch_def Let_def
        split: if_splits)
    then show ?thesis using i acc assms(1) by (simp add: hands_over_def)
  qed
qed

lemma an_run_hands_over: "hands_over es s \<Longrightarrow> run (an_step S) (Some s) cs = Some t \<Longrightarrow> hands_over es t"
proof (induction cs arbitrary: s)
  case (Cons c cs)
  obtain u where u: "an_step S (Some s) c = Some u" using Cons.prems(2) by (cases "an_step S (Some s) c") (simp_all add: an_run_none)
  with Cons.IH [OF an_step_hands_over [OF Cons.prems(1) u]] Cons.prems(2) show ?case by simp
qed simp

lemma an_run_some: "AClose \<notin> set cs \<Longrightarrow> \<exists>t. run (an_step S) (Some s) cs = Some t"
proof (induction cs arbitrary: s)
  case (Cons c cs)
  have "an_step S (Some s) c \<noteq> None"
    using Cons.prems by (cases c) (auto simp: Let_def split: prod.split bool.split)
  then obtain u where "an_step S (Some s) c = Some u" by blast
  with Cons show ?case by simp
qed simp

text \<open>
  C40: From any state after Close in which the writer still runs, whatever the select of the writer
  picks and whatever requests and retries still run: once the closed-channel branch has been
  picked at least as often as there are buffered entries, plus five, plus two for every attempt to
  log since, the writer has exited, and the batches handed over are the entries accepted by then,
  in order, and perhaps later ones. (The other picks of a random select are not counted.)
\<close>

theorem close_flushes_everything:
  assumes "run (an_step S) (Some (an_init repo w)) cs = Some s" "an_closed (as_svc s)" "an_pc (as_svc s) \<noteq> WExited"
    and "run (an_step S) (Some s) cs' = Some s'"
    and "length (an_buf (as_svc s)) + 5 + 2 * attempts cs' \<le> close_picks cs'"
  shows "an_pc (as_svc s') = WExited \<and> (\<exists>rest. concat (an_spawned (as_svc s')) = as_accepted s @ rest)"
proof -
  have "an_some_inv (run (an_step S) (Some (an_init repo w)) cs)"
    by (rule anm.run_inv) (simp_all add: an_some_inv_def an_init_inv)
  then have "hands_over (as_accepted s) s" using assms(1,3) by (simp add: an_some_inv_def hands_over_def)
  then have h: "hands_over (as_accepted s) s'" using assms(4) by (rule an_run_hands_over)
  have "an_pc (as_svc s') = WExited"
  proof (rule ccontr)
    assume n: "an_pc (as_svc s') \<noteq> WExited"
    from an_run_work [OF assms(4,2) n] writer_work_pos [OF n] writer_work_bound [of "as_svc s"] assms(5) show False by linarith
  qed
  with h show ?thesis by (simp add: hands_over_def)
qed

theorem close_flushes_everything_witness:
  "\<exists>s s'. run (an_step ref_services) (Some (an_init None (ref_init 0))) [ALog sample_entry, AClose] = Some s \<and>
     run (an_step ref_services) (Some s) (AWriter STick # ALog sample_entry # AWriter SEntry # replicate 8 (AWriter SClose)) = Some s' \<and>
     an_pc (as_svc s') = WExited \<and> (\<exists>rest. concat (an_spawned (as_svc s')) = sample_entry # rest)"
proof -
  let ?cs' = "AWriter STick # ALog sample_entry # AWriter SEntry # replicate 8 (AWriter SClose)"
  obtain s where s: "run (an_step ref_services) (Some (an_init None (ref_init 0))) [ALog sample_entry, AClose] = Some s"
    "as_accepted s = [sample_entry]" "an_closed (as_svc s)" "an_pc (as_svc s) \<noteq> WExited" "length (an_buf (as_svc s)) = 1"
    by (simp add: an_init_def new_analytics_def log_first_def buf_send_def analytics_close_def buf_channel_size_def)
  obtain s' where s': "run (an_step ref_services) (Some s) ?cs' = Some s'"
    using an_run_some [of ?cs' ref_services s] by auto
  have "length (an_buf (as_svc s)) + 5 + 2 * attempts ?cs' \<le> close_picks ?cs'"
    using s(5) by (simp add: numeral_eq_Suc)
  from close_flushes_everything [OF s(1,3,4) s' this] s s' show ?thesis by auto
qed

text \<open>
  What is accepted after the writer has exited stays in the channel: \<open>main\<close> closes the service
  before it stops the HTTP server.
\<close>

text \<open>
  An entry accepted after the writer has exited is never written: it stays in the channel whatever
  happens next.
\<close>

theorem entries_after_close_are_stranded:
  assumes "run (an_step S) (Some (an_init repo w)) cs = Some s" "an_pc (as_svc s) = WExited"
    and "run (an_step S) (Some s) cs' = Some s'"
  shows "an_spawned (as_svc s') = an_spawned (as_svc s) \<and>
    as_accepted s' = concat (an_spawned (as_svc s)) @ an_buf (as_svc s')"
proof -
  have keep: "an_pc (as_svc t') = WExited \<and> an_spawned (as_svc t') = an_spawned (as_svc t) \<and> an_batch (as_svc t') = an_batch (as_svc t)"
    if "an_step S (Some t) c = Some t'" "an_pc (as_svc t) = WExited" for t t' c
    using that
    by (cases c) (auto simp: log_first_def buf_send_def signal_flush_def analytics_close_def write_batch_def writer_step_def
        Let_def split: prod.splits bool.splits if_splits)
  have "an_pc (as_svc s') = WExited \<and> an_spawned (as_svc s') = an_spawned (as_svc s) \<and> an_batch (as_svc s') = an_batch (as_svc s)"
    using assms(2,3)
  proof (induction cs' arbitrary: s)
    case (Cons c cs')
    obtain t where t: "an_step S (Some s) c = Some t" using Cons.prems(2) by (cases "an_step S (Some s) c") (simp_all add: an_run_none)
    with Cons.IH [of t] Cons.prems keep [OF t] show ?case by simp
  qed simp
  moreover have "an_some_inv (run (an_step S) (Some (an_init repo w)) cs)"
    by (rule anm.run_inv) (simp_all add: an_some_inv_def an_init_inv)
  then have "an_inv s" using assms(1) by (simp add: an_some_inv_def)
  moreover from this have "an_some_inv (run (an_step S) (Some s) cs')" by (intro anm.run_inv) (simp_all add: an_some_inv_def)
  then have "an_inv s'" using assms(3) by (simp add: an_some_inv_def)
  ultimately show ?thesis using assms(2) by (simp add: an_inv_def held_def)
qed

theorem entries_after_close_are_stranded_witness:
  "\<exists>s s'. run (an_step ref_services) (Some (an_init None (ref_init 0))) [AClose, AWriter SClose, AWriter SClose] = Some s \<and>
     run (an_step ref_services) (Some s) [ALog sample_entry, AWriter STick, AWriter SFlush] = Some s' \<and>
     an_spawned (as_svc s') = [] \<and> as_accepted s' = [sample_entry]"
proof -
  obtain s where s: "run (an_step ref_services) (Some (an_init None (ref_init 0))) [AClose, AWriter SClose, AWriter SClose] = Some s"
    "an_pc (as_svc s) = WExited" "an_spawned (as_svc s) = []" "an_buf (as_svc s) = []" "as_accepted s = []"
    by (simp add: an_init_def new_analytics_def analytics_close_def writer_step_def drain_step_def flush_batch_def)
  then obtain s' where s': "run (an_step ref_services) (Some s) [ALog sample_entry, AWriter STick, AWriter SFlush] = Some s'"
    "as_accepted s' = [sample_entry]"
    by (simp add: log_first_def buf_send_def buf_channel_size_def)
  from entries_after_close_are_stranded [OF s(1,2) s'(1)] s s' show ?thesis by auto
qed

end
