(* ===== verification/User_Profiles.thy ===== *)
theory User_Profiles
  imports Cache
begin

section \<open>User profiles (internal/service/user_profile_service.go, internal/database/mongo.go)\<close>

text \<open>
  The MongoDB repository, whose collection is missing when MongoDB is, and the service that
  reads through the cache and invalidates it on a write. The collection is an argument
  (\<open>mongo_find\<close>, \<open>mongo_upsert\<close>).
\<close>

subsection \<open>Repository\<close>

type_synonym profile_repo = bool

definition new_profile_repo :: "bool \<Rightarrow> profile_repo" where
  "new_profile_repo present = present"

definition mongo_unavailable :: goerr where
  "mongo_unavailable = Errorf ''mongodb not available''"

definition find_by_user_id :: "'w services \<Rightarrow> profile_repo \<Rightarrow> int \<Rightarrow> 'w \<Rightarrow> (goerr + user_profile) \<times> 'w" where
  "find_by_user_id S repo user_id w =
     (if \<not> repo then (Inl mongo_unavailable, w)
      else
        (case mongo_find S user_id w of
           (Inl e, w1) \<Rightarrow> (Inl (if e = mongo_no_documents then e else Wrap ''mongo find user profile'' e), w1)
         | (Inr u, w1) \<Rightarrow> (Inr u, w1)))"

definition repo_upsert :: "'w services \<Rightarrow> profile_repo \<Rightarrow> user_profile \<Rightarrow> 'w \<Rightarrow> goerr option \<times> 'w" where
  "repo_upsert S repo u w =
     (if \<not> repo then (Some mongo_unavailable, w)
      else
        (case mongo_upsert S u w of
           (Some e, w1) \<Rightarrow> (Some (Wrap ''mongo upsert user profile'' e), w1)
         | (None, w1) \<Rightarrow> (None, w1)))"

subsection \<open>Service\<close>

record 'w profile_service =
  ps_cache :: "'w mlc"
  ps_repo :: "profile_repo option"
  ps_search :: bool
  ps_es_slots :: nat
  ps_es_pending :: "user_profile list"

definition profile_es_max_concurrency :: nat where "profile_es_max_concurrency = 50"

definition new_profile_service :: "'w mlc \<Rightarrow> profile_repo option \<Rightarrow> bool \<Rightarrow> 'w profile_service" where
  "new_profile_service c repo search =
     \<lparr>ps_cache = c, ps_repo = repo, ps_search = search, ps_es_slots = 0, ps_es_pending = []\<rparr>"

definition profile_key :: "int \<Rightarrow> string" where
  "profile_key user_id = ''user:profile:'' @ dec (nat user_id)"

definition user_not_found :: "int \<Rightarrow> goerr" where
  "user_not_found user_id = Errorf (''user not found: '' @ dec (nat user_id))"

definition load_from_mongo ::
  "'w services \<Rightarrow> int \<Rightarrow> string \<Rightarrow> 'w profile_service \<times> 'w \<Rightarrow> (goerr + user_profile) \<times> 'w profile_service \<times> 'w" where
  "load_from_mongo S user_id cache_key = (\<lambda>(ps, w).
     case ps_repo ps of
       None \<Rightarrow> (Inl mongo_unavailable, ps, w)
     | Some repo \<Rightarrow>
         (case find_by_user_id S repo user_id w of
            (Inl e, w1) \<Rightarrow>
              if e = mongo_no_documents
              then (Inl (user_not_found user_id), ps, cache_set_null S (ps_cache ps) cache_key w1)
              else (Inl (Wrap ''mongo query user profile'' e), ps, w1)
          | (Inr u, w1) \<Rightarrow> (Inr u, ps, cache_set S (ps_cache ps) cache_key (GProfile u) w1)))"

text \<open>\<open>None\<close> is a panic of the hot-key detector.\<close>

definition get_profile ::
  "'w services \<Rightarrow> int \<Rightarrow> 'w profile_service \<times> 'w \<Rightarrow> ((goerr + user_profile) \<times> 'w profile_service \<times> 'w) option" where
  "get_profile S user_id = (\<lambda>(ps, w).
     let cache_key = profile_key user_id
     in case cache_get S (ps_cache ps) cache_key w of
          None \<Rightarrow> None
        | Some ((v, found, err), c, w1) \<Rightarrow>
            (let ps1 = ps\<lparr>ps_cache := c\<rparr>
             in case err of
                  Some e \<Rightarrow> Some (Inl e, ps1, w1)
                | None \<Rightarrow>
                    if found \<and> v \<noteq> GNil then
                      Some ((case v of
                               GProfile u \<Rightarrow> Inr u
                             | GMap kvs \<Rightarrow> Inr (snd (unmarshal_profile (marshal (GMap kvs))))
                             | _ \<Rightarrow> Inl (Errorf ''invalid cache type for user profile'')), ps1, w1)
                    else if found then Some (Inl (user_not_found user_id), ps1, w1)
                    else Some (load_from_mongo S user_id cache_key (ps1, w1))))"

definition index_profile_to_es :: "user_profile \<Rightarrow> 'w profile_service \<Rightarrow> 'w profile_service" where
  "index_profile_to_es u ps =
     (if ps_es_slots ps < profile_es_max_concurrency
      then ps\<lparr>ps_es_slots := ps_es_slots ps + 1, ps_es_pending := ps_es_pending ps @ [u]\<rparr>
      else ps)"

definition run_profile_task :: "'w services \<Rightarrow> nat \<Rightarrow> 'w profile_service \<times> 'w \<Rightarrow> 'w profile_service \<times> 'w" where
  "run_profile_task S i = (\<lambda>(ps, w).
     if i < length (ps_es_pending ps)
     then (ps\<lparr>ps_es_slots := ps_es_slots ps - 1,
              ps_es_pending := take i (ps_es_pending ps) @ drop (Suc i) (ps_es_pending ps)\<rparr>,
           snd (es_index_profile S (ps_es_pending ps ! i) w))
     else (ps, w))"

definition upsert_profile ::
  "'w services \<Rightarrow> user_profile \<Rightarrow> 'w profile_service \<times> 'w \<Rightarrow> goerr option \<times> 'w profile_service \<times> 'w" where
  "upsert_profile S u = (\<lambda>(ps, w).
     case ps_repo ps of
       None \<Rightarrow> (Some mongo_unavailable, ps, w)
     | Some repo \<Rightarrow>
         (case repo_upsert S repo u w of
            (Some e, w1) \<Rightarrow> (Some (Wrap ''mongo upsert'' e), ps, w1)
          | (None, w1) \<Rightarrow>
              (case invalidate_with_delay S (profile_key (up_user_id u)) 500 (ps_cache ps, w1) of
                 (c, w2) \<Rightarrow>
                   (let ps1 = ps\<lparr>ps_cache := c\<rparr>
                    in (None, if ps_search ps1 then index_profile_to_es u ps1 else ps1, w2)))))"

lemma profile_key_inj: "0 \<le> i \<Longrightarrow> 0 \<le> j \<Longrightarrow> profile_key i = profile_key j \<longleftrightarrow> i = j"
  by (simp add: profile_key_def dec_inj eq_nat_nat_iff)


end
