(* ===== verification/Data_Loader.thy ===== *)
theory Data_Loader
  imports Order_Service User_Profiles
begin

section \<open>The data loader of the server (newDataLoader in cmd/server/main.go)\<close>

text \<open>
  The function \<open>main\<close> gives the cache for a key that neither level holds, and what the order and
  the profile service return with it. The loader shares the \<open>*RWDB\<close> of the order service
  through the manager, so its replica counter is part of the world: \<open>db_of\<close> reads it,
  \<open>put_db\<close> writes it back.
\<close>

text \<open>\<open>fmt.Sscanf(key, "user:profile:%d", &userID)\<close>; on an error the variable stays 0.\<close>

definition is_digit :: "char \<Rightarrow> bool" where
  "is_digit c \<longleftrightarrow> 48 \<le> (of_char c :: nat) \<and> (of_char c :: nat) \<le> 57"

definition scan_user_id :: "string \<Rightarrow> int" where
  "scan_user_id key =
     (if has_prefix key ''user:profile:'' then
        (let ds = takeWhile is_digit (drop (length ''user:profile:'') key)
         in if ds = [] \<or> 2 ^ 64 \<le> undec ds then 0 else int (undec ds))
      else 0)"

definition mock_profile :: user_profile where
  "mock_profile = zero_profile\<lparr>up_user_id := 10001, up_nickname := ''test_user''\<rparr>"

definition load_profile :: "'w services \<Rightarrow> bool \<Rightarrow> profile_repo \<Rightarrow> string \<Rightarrow> 'w \<Rightarrow> (goerr + gval) \<times> 'w" where
  "load_profile S mongo repo key w =
     (if \<not> mongo then (Inr (GProfile mock_profile), w)
      else
        (case find_by_user_id S repo (scan_user_id key) w of
           (Inl e, w1) \<Rightarrow> (Inr GNil, w1)
         | (Inr u, w1) \<Rightarrow> (Inr (GProfile u), w1)))"

text \<open>The row of a master that is there can always be scanned: the panic does not occur.\<close>

definition load_order ::
  "'w services \<Rightarrow> ('w \<Rightarrow> rwdb option) \<Rightarrow> (rwdb \<Rightarrow> 'w \<Rightarrow> 'w) \<Rightarrow> string \<Rightarrow> 'w \<Rightarrow> (goerr + gval) \<times> 'w" where
  "load_order S db_of put_db key w =
     (case db_of w of
        None \<Rightarrow> (Inr GNil, w)
      | Some rw \<Rightarrow>
          if rw_is_nil rw then (Inr GNil, w)
          else
            (case rw_query_row S select_order_sql [GStr (drop 6 key)] (rw, w) of
               None \<Rightarrow> (Inr GNil, w)
             | Some (r, rw1, w1) \<Rightarrow>
                 (case r of
                    Inl e \<Rightarrow> (Inr GNil, put_db rw1 w1)
                  | Inr od \<Rightarrow> (Inr (GOrder od), put_db rw1 w1))))"

definition new_data_loader ::
  "'w services \<Rightarrow> bool \<Rightarrow> profile_repo \<Rightarrow> ('w \<Rightarrow> rwdb option) \<Rightarrow> (rwdb \<Rightarrow> 'w \<Rightarrow> 'w) \<Rightarrow> string \<Rightarrow> 'w \<Rightarrow> (goerr + gval) \<times> 'w" where
  "new_data_loader S mongo repo db_of put_db key w =
     (if 12 < length key \<and> take 12 key = ''user:profile:'' then load_profile S mongo repo key w
      else if 6 < length key \<and> take 6 key = ''order:'' then load_order S db_of put_db key w
      else (Inr GNil, w))"

section \<open>Reads of a key that neither level has a value for\<close>

text \<open>An access of the key now would not make it hot.\<close>

definition cool :: "'w mlc \<Rightarrow> string \<Rightarrow> bool" where
  "cool mc key \<longleftrightarrow> (case mc_hot_keys mc of None \<Rightarrow> True | Some h \<Rightarrow> \<forall>now. \<exists>h'. record_access key now h = Some (False, h'))"

text \<open>The calls a read makes before it turns to the loader.\<close>

definition read_step :: "'w services \<Rightarrow> 'w \<Rightarrow> 'w \<Rightarrow> bool" where
  "read_step S u u' \<longleftrightarrow> (\<exists>k. u' = snd (l1_get S k u)) \<or> (\<exists>k. u' = snd (rd_get S k u)) \<or> u' = snd (sv_now S u)"

lemma reads_quiet:
  assumes "store_ok S l1v kv" "(read_step S)\<^sup>*\<^sup>* w u"
  shows "quiet l1v kv w u"
  using assms(2)
proof induction
  case (step u u')
  then have "quiet l1v kv u u'" using store_quiet(1,3,4) [OF assms(1)] by (auto simp: read_step_def)
  with step.IH show ?case by (simp add: quiet_def)
qed (simp add: quiet_def)

lemma miss_when_cool:
  assumes "cool mc key"
  shows "\<exists>mc' u. (read_step S)\<^sup>*\<^sup>* w u \<and> mc_loader mc' = mc_loader mc \<and>
    get_miss S mc key w = Some (fst (load_from_db S mc' key u), mc', snd (load_from_db S mc' key u))"
proof (cases "mc_hot_keys mc")
  case None
  then show ?thesis
    by (intro exI [of _ "mc\<lparr>mc_misses := mc_misses mc + 1\<rparr>"] exI [of _ w]) (simp add: get_miss_def Let_def split_beta)
next
  case (Some h)
  obtain now u where now: "sv_now S w = (now, u)" by force
  then have "read_step S w u" by (simp add: read_step_def)
  moreover obtain h' where "record_access key now h = Some (False, h')" using assms Some by (auto simp: cool_def)
  ultimately show ?thesis using Some now
    by (intro exI [of _ "mc\<lparr>mc_hot_keys := Some h', mc_misses := mc_misses mc + 1\<rparr>"] exI [of _ u])
      (simp add: get_miss_def Let_def split_beta r_into_rtranclp)
qed

text \<open>No level holds anything but the null marker under the key.\<close>

definition no_value ::
  "('w \<Rightarrow> string \<Rightarrow> gval option) \<Rightarrow> ('w \<Rightarrow> string \<Rightarrow> (wire \<times> time) option) \<Rightarrow> string \<Rightarrow> 'w \<Rightarrow> bool" where
  "no_value l1v kv key w \<longleftrightarrow>
     (\<forall>v. l1v w key = Some v \<longrightarrow> v = GStr null_marker) \<and> (\<forall>v e. kv w key = Some (v, e) \<longrightarrow> v = Raw null_marker)"

text \<open>The result of such a read is the known absence, or what the loader says.\<close>

lemma get_no_value:
  assumes "store_ok S l1v kv" "no_value l1v kv key w" "cool mc key"
  shows "(l1v w key \<noteq> None \<or> mc_l2 mc \<and> kv w key \<noteq> None) \<and> (\<exists>mc' w'. cache_get S mc key w = Some ((GNil, True, None), mc', w')) \<or>
    (\<exists>mc' u. (read_step S)\<^sup>*\<^sup>* w u \<and> mc_loader mc' = mc_loader mc \<and>
       cache_get S mc key w = Some (fst (load_from_db S mc' key u), mc', snd (load_from_db S mc' key u)))"
proof -
  let ?mc = "mc\<lparr>mc_l1_total := mc_l1_total mc + 1\<rparr>"
  have cool: "cool ?mc key" using assms(3) by (simp add: cool_def)
  obtain g w1 where g: "l1_get S key w = (g, w1)" by force
  have "read_step S w w1" using g unfolding read_step_def by (metis snd_conv)
  then have q1: "(read_step S)\<^sup>*\<^sup>* w w1" by (rule r_into_rtranclp)
  have gv: "g = None \<or> g = l1v w key"
    using assms(1) g unfolding store_ok_def by (metis fst_conv)
  have miss: ?thesis if "get_miss S ?mc key u = cache_get S mc key w" "(read_step S)\<^sup>*\<^sup>* w u" for u
    using miss_when_cool [OF cool, of S u] that rtranclp_trans [OF that(2)] by fastforce
  show ?thesis
  proof (cases g)
    case (Some v)
    then have "l1v w key = Some v" using gv by simp
    then have "v = GStr null_marker" "l1v w key \<noteq> None" using assms(2) by (simp_all add: no_value_def)
    with Some g show ?thesis by (simp add: cache_get_def Let_def)
  next
    case None
    show ?thesis
    proof (cases "mc_l2 mc")
      case False
      with None g show ?thesis by (intro miss [OF _ q1]) (simp add: cache_get_def Let_def)
    next
      case True
      obtain r w2 where r: "rd_get S key w1 = (r, w2)" by force
      then have "read_step S w1 w2" unfolding read_step_def by (metis snd_conv)
      with q1 have q2: "(read_step S)\<^sup>*\<^sup>* w w2" by simp
      show ?thesis
      proof (cases r)
        case (Inl e)
        with None g True r show ?thesis by (intro miss [OF _ q2]) (simp add: cache_get_def Let_def)
      next
        case (Inr val)
        then obtain e where "kv w1 key = Some (val, e)" using assms(1) r unfolding store_ok_def by (metis fst_conv)
        then have "kv w key = Some (val, e)" using reads_quiet [OF assms(1) q1] by (simp add: quiet_def)
        then have "val = Raw null_marker" "kv w key \<noteq> None" using assms(2) by (auto simp: no_value_def)
        with None g True r Inr show ?thesis by (simp add: cache_get_def Let_def)
      qed
    qed
  qed
qed

lemma get_cold:
  assumes "store_ok S l1v kv" "l1v w key = None" "kv w key = None" "cool mc key"
  shows "\<exists>mc' u. (read_step S)\<^sup>*\<^sup>* w u \<and> mc_loader mc' = mc_loader mc \<and>
    cache_get S mc key w = Some (fst (load_from_db S mc' key u), mc', snd (load_from_db S mc' key u))"
  using get_no_value [of S l1v kv key w mc] assms by (simp add: no_value_def)

section \<open>Profiles\<close>

text \<open>The prefix has thirteen characters, so the slice of twelve is never equal to it.\<close>

lemma profile_branch_unreachable: "take 12 key \<noteq> ''user:profile:''"
proof
  assume "take 12 key = ''user:profile:''"
  then have "length (take 12 key) = 13" by simp
  then show False by simp
qed

definition profile_services :: "'w services \<Rightarrow> ('w \<Rightarrow> string \<Rightarrow> gval option) \<Rightarrow> ('w \<Rightarrow> string \<Rightarrow> (wire \<times> time) option) \<Rightarrow> bool" where
  "profile_services S l1v kv \<longleftrightarrow> store_ok S l1v kv \<and> (\<forall>u w. quiet l1v kv w (snd (mongo_upsert S u w)))"

lemma profile_not_loaded:
  "new_data_loader S mongo repo db_of put_db (profile_key uid) w = (Inr GNil, w)"
  by (simp add: new_data_loader_def profile_branch_unreachable) (simp add: profile_key_def)

lemma delete_no_value:
  assumes "store_ok S l1v kv" "no_value l1v kv key w"
  shows "no_value l1v kv key (delete_both S mc key' w)"
proof -
  have "l1v (rd_del S key' u) = l1v u" "kv (rd_del S key' u) = kv u \<or> kv (rd_del S key' u) = (kv u)(key' := None)"
    "l1v (l1_del S key' u) = (l1v u)(key' := None)" "kv (l1_del S key' u) = kv u" for u
    using assms(1) unfolding store_ok_def by metis+
  then show ?thesis using assms(2) unfolding no_value_def delete_both_def
    by (auto split: if_splits) (metis fun_upd_apply option.distinct(1))+
qed

lemma get_profile_absent:
  assumes "store_ok S l1v kv" "no_value l1v kv (profile_key uid) w" "cool (ps_cache ps) (profile_key uid)"
    and "mc_loader (ps_cache ps) = Some (new_data_loader S mongo repo db_of put_db)"
  shows "\<exists>ps' w'. get_profile S uid (ps, w) = Some (Inl (user_not_found uid), ps', w')"
proof -
  have "fst (load_from_db S mc' (profile_key uid) u) = (GNil, True, None)"
    if "mc_loader mc' = mc_loader (ps_cache ps)" for mc' u
    using that assms(4) by (simp add: load_from_db_def profile_not_loaded)
  with get_no_value [OF assms(1-3)] obtain mc' w' where
    "cache_get S (ps_cache ps) (profile_key uid) w = Some ((GNil, True, None), mc', w')" by metis
  then show ?thesis by (simp add: get_profile_def Let_def)
qed

text \<open>
  C22: With the data loader of the server, a profile whose upsert to MongoDB succeeded is answered with
  user not found, when its key is not hot and neither cache level held a value for it: the loader
  compares twelve characters with a prefix of thirteen, so it never reaches MongoDB, and the cache
  reports the absence.
\<close>

theorem saved_profile_not_found:
  assumes "profile_services S l1v kv"
    and "mc_loader (ps_cache ps) = Some (new_data_loader S mongo repo db_of put_db)"
    and "no_value l1v kv (profile_key (up_user_id u)) w" "cool (ps_cache ps) (profile_key (up_user_id u))"
    and "upsert_profile S u (ps, w) = (None, ps', w')"
  shows "\<exists>ps'' w''. get_profile S (up_user_id u) (ps', w') = Some (Inl (user_not_found (up_user_id u)), ps'', w'')"
proof -
  let ?key = "profile_key (up_user_id u)"
  obtain r where r: "ps_repo ps = Some r" using assms(5) by (auto simp: upsert_profile_def split: option.splits)
  obtain w1 where up: "repo_upsert S r u w = (None, w1)"
    using assms(5) r by (auto simp: upsert_profile_def split: option.splits prod.splits)
  then have "quiet l1v kv w w1" using assms(1) unfolding profile_services_def repo_upsert_def
    by (auto split: if_splits option.splits prod.splits) (metis snd_conv)
  then have "no_value l1v kv ?key w1" using assms(3) by (simp add: no_value_def quiet_def)
  then have "no_value l1v kv ?key (delete_both S (ps_cache ps) ?key w1)"
    using assms(1) by (intro delete_no_value) (simp_all add: profile_services_def)
  moreover have "w' = delete_both S (ps_cache ps) ?key w1" "mc_loader (ps_cache ps') = mc_loader (ps_cache ps)"
    "mc_hot_keys (ps_cache ps') = mc_hot_keys (ps_cache ps)"
    using assms(5) r up
    by (auto simp: upsert_profile_def invalidate_with_delay_def index_profile_to_es_def Let_def split: if_splits)
  ultimately show ?thesis using get_profile_absent [of S l1v kv "up_user_id u" w' ps'] assms(1,2,4)
    by (simp add: profile_services_def cool_def)
qed

text \<open>A key the detector does not know, with a threshold of at least one.\<close>

lemma sum_of_first_access:
  assumes "n \<noteq> 0"
  shows "sr_sum \<lparr>sr_counters = (replicate n 0)[0 := 1], sr_slot_idx = 0, sr_last_tick = t\<rparr> = 1"
proof -
  have "foldl (\<lambda>tot v. s64 (tot + v)) 1 (replicate m 0) = 1" for m
    by (induction m) simp_all
  with assms show ?thesis by (cases n) (simp_all add: sr_sum_def)
qed

lemma fresh_key_cool:
  assumes "mc_hot_keys mc = Some h" "hk_counters h key = None" "hk_inv h" "1 \<le> hk_threshold h"
  shows "cool mc key"
  unfolding cool_def assms(1) option.case
proof
  fix now
  obtain hot h' where r: "record_access key now h = Some (hot, h')" using record_access_inv [OF assms(3)] by blast
  have n: "nat (hk_slots h) \<noteq> 0" "hk_slots h > 0" using assms(3) by (auto simp: hk_inv_def)
  obtain interval where i: "go_div (hk_window_size h) (hk_slots h) = Some interval" "interval \<noteq> 0"
    using r by (auto simp: record_access_def sr_advance_def go_div_def find_ring_def split: option.splits if_splits)
  let ?sr = "\<lparr>sr_counters = replicate (nat (hk_slots h)) 0, sr_slot_idx = 0, sr_last_tick = now\<rparr>"
  have "find_ring key now h = Some ?sr" using assms(2) n by (simp add: find_ring_def new_slot_ring_def)
  moreover have "sr_advance interval now ?sr = Some ?sr" using i(2) by (simp add: sr_advance_def go_div_def quot_def)
  moreover have "sr_inc ?sr = Some \<lparr>sr_counters = (replicate (nat (hk_slots h)) 0)[0 := 1], sr_slot_idx = 0, sr_last_tick = now\<rparr>"
    using n by (simp add: sr_inc_def)
  ultimately show "\<exists>h'. record_access key now h = Some (False, h')"
    using i(1) assms(4) sum_of_first_access [OF n(1)] by (simp add: record_access_def Let_def)
qed

lemma new_detector_cool: "mc_hot_keys mc = Some (new_detector 10 10 100) \<Longrightarrow> cool mc key"
proof (rule fresh_key_cool, assumption)
  show "hk_inv (new_detector 10 10 100)"
    by (rule new_detector_inv) (simp add: detector_ok_def second_def s64_def quot_def)
qed (simp_all add: new_detector_def)

lemma ref_profile_services: "profile_services ref_services ref_l1v rf_kv"
  using ref_store_ok by (simp add: profile_services_def) (simp add: ref_services_def quiet_def ref_l1v_def fun_eq_iff)

text \<open>The cache of the server over the reference world, with Redis.\<close>

definition server_cache :: "ref_world mlc" where
  "server_cache = new_cache True (Some (new_data_loader ref_services True True (\<lambda>w. one_db) (\<lambda>rw w. w))) (Some (new_detector 10 10 100))"

lemma server_cache_simps [simp]:
  "mc_loader server_cache = Some (new_data_loader ref_services True True (\<lambda>w. one_db) (\<lambda>rw w. w))"
  "mc_hot_keys server_cache = Some (new_detector 10 10 100)" "mc_l2 server_cache"
  by (simp_all add: server_cache_def new_cache_def)

theorem saved_profile_not_found_witness:
  "\<exists>ps' w' ps'' w''. upsert_profile ref_services sample_profile (new_profile_service server_cache (Some True) False, ref_init 0) = (None, ps', w') \<and>
     rf_profiles w' (up_user_id sample_profile) = Some sample_profile \<and>
     get_profile ref_services (up_user_id sample_profile) (ps', w') = Some (Inl (user_not_found (up_user_id sample_profile)), ps'', w'')"
proof -
  let ?ps = "new_profile_service server_cache (Some True) False"
  obtain ps' w' where u: "upsert_profile ref_services sample_profile (?ps, ref_init 0) = (None, ps', w')"
      "rf_profiles w' (up_user_id sample_profile) = Some sample_profile"
    by (simp add: upsert_profile_def new_profile_service_def repo_upsert_def ref_services_def ref_init_def
        invalidate_with_delay_def delete_both_def Let_def)
  moreover have "no_value ref_l1v rf_kv (profile_key (up_user_id sample_profile)) (ref_init 0)"
    by (simp add: no_value_def ref_l1v_def ref_init_def)
  moreover have "cool (ps_cache ?ps) (profile_key (up_user_id sample_profile))"
    by (rule new_detector_cool) (simp add: new_profile_service_def)
  ultimately show ?thesis
    using saved_profile_not_found [OF ref_profile_services _ _ _ u(1)] by (simp add: new_profile_service_def)
qed

section \<open>Orders\<close>

lemma order_key_dispatch:
  assumes "no \<noteq> []"
  shows "new_data_loader S mongo repo db_of put_db (order_key no) w = load_order S db_of put_db (order_key no) w"
  using assms by (simp add: new_data_loader_def order_key_def profile_branch_unreachable)

lemma load_order_cases:
  assumes "db_of w = Some rw" "rw_master rw = Some m"
  shows "\<exists>db rw1. asked_handle (db_of w) = Some db \<and> load_order S db_of put_db (order_key no) w =
    (case sql_row S db select_order_sql [GStr no] w of
       (Inl e, w1) \<Rightarrow> (Inr GNil, put_db rw1 w1) | (Inr od, w1) \<Rightarrow> (Inr (GOrder od), put_db rw1 w1))"
proof -
  have "\<exists>db rw1. rw_replica rw = (Some db, rw1)" using assms(2) by (simp add: rw_replica_def Let_def)
  then obtain db rw1 where "rw_replica rw = (Some db, rw1)" by blast
  with assms have "asked_handle (db_of w) = Some db \<and> load_order S db_of put_db (order_key no) w =
    (case sql_row S db select_order_sql [GStr no] w of
       (Inl e, w1) \<Rightarrow> (Inr GNil, put_db rw1 w1) | (Inr od, w1) \<Rightarrow> (Inr (GOrder od), put_db rw1 w1))"
    by (simp add: asked_handle_def load_order_def rw_is_nil_def rw_query_row_def order_key_def split: prod.split sum.split)
  then show ?thesis by blast
qed

text \<open>The database cannot be reached: every query of an order ends in an error of the driver.\<close>

definition db_down :: "'w services \<Rightarrow> bool" where
  "db_down S \<longleftrightarrow> (\<forall>db q args w. \<exists>e. fst (sql_row S db q args w) = Inl e \<and> e \<noteq> sql_no_rows)"

lemma db_downD: "db_down S \<Longrightarrow> \<exists>e. fst (sql_row S db q args w) = Inl e \<and> e \<noteq> sql_no_rows"
  by (simp add: db_down_def)

definition has_master :: "('w \<Rightarrow> rwdb option) \<Rightarrow> bool" where
  "has_master db_of \<longleftrightarrow> (\<forall>w. \<exists>rw m. db_of w = Some rw \<and> rw_master rw = Some m)"

text \<open>
  C36: While the database cannot be reached, GetOrder answers a key that is not hot and has no cached
  value with order not found, not with the error, and leaves the null marker in L1, so the answer
  outlives the outage.
\<close>

theorem outage_cached_as_absence:
  assumes "store_ok S l1v kv" "db_down S" "has_master db_of" "no \<noteq> []"
    and "mc_loader (os_cache os) = Some (new_data_loader S mongo repo db_of put_db)" "cool (os_cache os) (order_key no)"
    and "l1v w (order_key no) = None" "kv w (order_key no) = None"
  shows "\<exists>os' w'. get_order S no (os, w) = Some (Inl (not_found_error no), os', w') \<and>
    l1v w' (order_key no) = Some (GStr null_marker)"
proof -
  have ld: "fst (new_data_loader S mongo repo db_of put_db (order_key no) u) = Inr GNil" for u
  proof -
    obtain rw m where d: "db_of u = Some rw" "rw_master rw = Some m" using assms(3) unfolding has_master_def by blast
    obtain db rw1 where l: "load_order S db_of put_db (order_key no) u =
      (case sql_row S db select_order_sql [GStr no] u of
         (Inl e, w1) \<Rightarrow> (Inr GNil, put_db rw1 w1) | (Inr od, w1) \<Rightarrow> (Inr (GOrder od), put_db rw1 w1))"
      using load_order_cases [where db_of = db_of and w = u, OF d, of S put_db no] by blast
    obtain r u1 where r: "sql_row S db select_order_sql [GStr no] u = (r, u1)" by force
    from db_downD [OF assms(2), of db select_order_sql "[GStr no]" u] r
    obtain e where "r = Inl e" by (elim exE conjE) simp
    then have "load_order S db_of put_db (order_key no) u = (Inr GNil, put_db rw1 u1)" using l r by simp
    then show ?thesis by (simp only: order_key_dispatch [OF assms(4)] fst_conv)
  qed
  have load: "fst (load_from_db S mc' (order_key no) u) = (GNil, True, None) \<and>
      l1v (snd (load_from_db S mc' (order_key no) u)) (order_key no) = Some (GStr null_marker)"
    if "mc_loader mc' = mc_loader (os_cache os)" for mc' u
  proof -
    obtain u1 where "new_data_loader S mongo repo db_of put_db (order_key no) u = (Inr GNil, u1)"
      using ld [of u] by (metis prod.collapse)
    then show ?thesis using that assms(1,5) by (simp add: load_from_db_def null_l1_def store_ok_def)
  qed
  obtain mc' u where "cache_get S (os_cache os) (order_key no) w =
      Some (fst (load_from_db S mc' (order_key no) u), mc', snd (load_from_db S mc' (order_key no) u))"
    "mc_loader mc' = mc_loader (os_cache os)"
    using get_cold [OF assms(1,7,8,6)] by blast
  with load show ?thesis by (simp add: get_order_def Let_def)
qed

text \<open>The reference world with an unreachable database.\<close>

definition no_sql :: "ref_world services" where
  "no_sql = ref_services\<lparr>sql_row := (\<lambda>db q args w. (Inl (Errorf ''connection refused''), w))\<rparr>"

lemma no_sql_ok: "store_ok no_sql ref_l1v rf_kv" "db_down no_sql"
  using ref_store_ok by (simp_all add: store_ok_def no_sql_def db_down_def sql_no_rows_def)

definition server_service :: "ref_world services \<Rightarrow> ref_world order_service" where
  "server_service S =
     (plain_service one_db 5)\<lparr>os_cache := server_cache\<lparr>mc_loader := Some (new_data_loader S True True (\<lambda>w. one_db) (\<lambda>rw w. w))\<rparr>\<rparr>"

lemma server_service_simps [simp]:
  "mc_loader (os_cache (server_service S)) = Some (new_data_loader S True True (\<lambda>w. one_db) (\<lambda>rw w. w))"
  "mc_hot_keys (os_cache (server_service S)) = Some (new_detector 10 10 100)"
  "mc_l2 (os_cache (server_service S))"
  by (simp_all add: server_service_def)

lemma one_db_master: "has_master (\<lambda>w. one_db)"
  by (simp add: has_master_def one_db_def new_rwdb_def)

theorem outage_cached_as_absence_witness:
  "\<exists>os' w'. rf_rows ((ref_init 0)\<lparr>rf_rows := [''ORD1'' \<mapsto> sample_order]\<rparr>) ''ORD1'' = Some sample_order \<and>
     get_order no_sql ''ORD1'' (server_service no_sql, (ref_init 0)\<lparr>rf_rows := [''ORD1'' \<mapsto> sample_order]\<rparr>) = Some (Inl (not_found_error ''ORD1''), os', w') \<and>
     ref_l1v w' (order_key ''ORD1'') = Some (GStr null_marker)"
proof -
  have "cool (os_cache (server_service no_sql)) (order_key ''ORD1'')" by (rule new_detector_cool) simp
  from outage_cached_as_absence [OF no_sql_ok one_db_master _ server_service_simps(1) this, of "(ref_init 0)\<lparr>rf_rows := [''ORD1'' \<mapsto> sample_order]\<rparr>"]
  show ?thesis by (simp add: ref_l1v_def ref_init_def)
qed

section \<open>A synchronous creation is read back\<close>

text \<open>
  The table \<open>orders\<close>: a query of a number gives the row when the handle it asks is
  \<open>synced\<close>, that is, answers and has caught up (the primary, or a replica that does not lag);
  nothing is known of the answer of any other handle. Only the statements change the table.
\<close>

definition orders_read ::
  "'w services \<Rightarrow> (nat \<Rightarrow> 'w \<Rightarrow> bool) \<Rightarrow> (order \<Rightarrow> order) \<Rightarrow> ('w \<Rightarrow> string \<Rightarrow> order option) \<Rightarrow> bool" where
  "orders_read S synced col rows \<longleftrightarrow> orders_ok S col rows \<and>
     (\<forall>db no w. synced db w \<longrightarrow> fst (sql_row S db select_order_sql [GStr no] w) =
        (case rows w no of None \<Rightarrow> Inl sql_no_rows | Some od \<Rightarrow> Inr od)) \<and>
     (\<forall>w. rows (snd (sv_now S w)) = rows w) \<and> (\<forall>d w. rows (sv_sleep S d w) = rows w) \<and>
     (\<forall>k w. rows (snd (l1_get S k w)) = rows w) \<and> (\<forall>k w. rows (snd (rd_get S k w)) = rows w) \<and>
     (\<forall>k v d w. rows (snd (rd_setnx S k v d w)) = rows w) \<and> (\<forall>k w. rows (snd (srv_del S k w)) = rows w) \<and>
     (\<forall>f w. (\<forall>u. rows (snd (f u)) = rows u) \<longrightarrow> rows (snd (rd_eval S f w)) = rows w)"

lemma orders_query:
  assumes "orders_read S synced col rows" "synced db w"
  shows "fst (sql_row S db select_order_sql [GStr no] w) = (case rows w no of None \<Rightarrow> Inl sql_no_rows | Some od \<Rightarrow> Inr od)"
  using assms by (simp add: orders_read_def)

lemma orders_readD:
  assumes "orders_read S synced col rows"
  shows "orders_ok S col rows" "rows (snd (sv_now S w)) = rows w" "rows (sv_sleep S d w) = rows w"
    "rows (snd (l1_get S k w)) = rows w" "rows (snd (rd_get S k w)) = rows w" "rows (snd (rd_setnx S k v d w)) = rows w"
    "rows (snd (srv_del S k w)) = rows w" "rows (snd (sv_rand S n w)) = rows w" "rows (rd_del S k w) = rows w" "rows (l1_del S k w) = rows w"
  using assms by (simp_all add: orders_read_def orders_ok_def)

lemma rows_attempt:
  assumes "orders_read S synced col rows"
  shows "rows (snd (lock_attempt S key token ttl wt dl w)) = rows w"
proof -
  obtain r w1 where r: "rd_setnx S key (Raw token) ttl w = (r, w1)" by force
  obtain now w2 where now: "sv_now S w1 = (now, w2)" by force
  have "rows w1 = rows w" "rows w2 = rows w1"
    using orders_readD(6) [OF assms, of key "Raw token" ttl w] orders_readD(2) [OF assms, of w1] r now by simp_all
  then show ?thesis using r now by (simp add: lock_attempt_def split: sum.split bool.split)
qed

lemma rows_lock_loop:
  assumes "lock_loop S key token ttl wt dl w = Some y"
  shows "orders_read S synced col rows \<longrightarrow> rows (snd y) = rows w"
  using assms
proof (rule lock_loop.raw_induct [rotated, where P = "\<lambda>S key token ttl wt dl w y. orders_read S synced col rows \<longrightarrow> rows (snd y) = rows w"],
    intro impI)
  fix loop :: "'a services \<Rightarrow> string \<Rightarrow> string \<Rightarrow> duration \<Rightarrow> duration \<Rightarrow> time \<Rightarrow> 'a \<Rightarrow> ((goerr + string) \<times> 'a) option"
    and S :: "'a services" and key token ttl wt dl w y
  assume IH: "\<And>S key token ttl wt dl w y. loop S key token ttl wt dl w = Some y \<Longrightarrow> orders_read S synced col rows \<longrightarrow> rows (snd y) = rows w"
    and l: "(case lock_attempt S key token ttl wt dl w of (Acquired, w1) \<Rightarrow> Some (Inr token, w1)
      | (Failed e, w1) \<Rightarrow> Some (Inl e, w1)
      | (Retry, w1) \<Rightarrow> loop S key token ttl wt dl (sv_sleep S (50 * millisecond) w1)) = Some y"
    and S: "orders_read S synced col rows"
  obtain a w1 where a: "lock_attempt S key token ttl wt dl w = (a, w1)" by force
  have "rows w1 = rows w" using rows_attempt [OF S, of key token ttl wt dl w] a by simp
  moreover have "rows (sv_sleep S (50 * millisecond) w1) = rows w1" by (rule orders_readD(3) [OF S])
  ultimately show "rows (snd y) = rows w"
    using IH [of S key token ttl wt dl "sv_sleep S (50 * millisecond) w1" y] l S a by (cases a) auto
qed

lemma rows_lock:
  assumes "orders_read S synced col rows" "lock_acquire S key ttl wt w = Some (r, w')"
  shows "rows w' = rows w"
proof -
  obtain token w1 where 1: "lock_token S w = (token, w1)" by force
  obtain now w2 where 2: "sv_now S w1 = (now, w2)" by force
  obtain t u where t: "sv_now S w = (t, u)" by force
  obtain h u' where h: "sv_rand S (8 div 2 + 1) u = (h, u')" by force
  have "w1 = u'" using 1 t h by (simp add: lock_token_def random_hex_def)
  moreover have "rows u' = rows u" "rows u = rows w"
    using orders_readD(8) [OF assms(1), of "8 div 2 + 1" u] orders_readD(2) [OF assms(1), of w] t h by simp_all
  ultimately have "rows w2 = rows w" using orders_readD(2) [OF assms(1), of w1] 2 by simp
  moreover have "lock_loop S key token ttl wt (now + wt) w2 = Some (r, w')"
    using assms(2) 1 2 by (simp add: lock_acquire_def)
  ultimately show ?thesis using rows_lock_loop [THEN mp, OF _ assms(1)] by fastforce
qed

lemma rows_unlock:
  assumes "orders_read S synced col rows"
  shows "rows (unlock_if S od token w) = rows w"
proof -
  have "rows (snd (unlock_script S key t u)) = rows u" for key t u
    using orders_readD(7) [OF assms] by (simp add: unlock_script_def)
  then have "rows (snd (rd_eval S (unlock_script S key t) w)) = rows w" for key t
    using assms by (simp add: orders_read_def)
  then show ?thesis
    by (simp add: unlock_if_def lock_release_def split_beta split: option.split sum.split)
qed

lemma rows_delete_both:
  "orders_read S synced col rows \<Longrightarrow> rows (delete_both S mc k w) = rows w"
  using orders_readD(9,10) [of S synced col rows] by (simp add: delete_both_def)

text \<open>What a successful synchronous write did.\<close>

lemma write_and_publish_success:
  assumes "write_and_publish S fch tid od start (os, w) = ((ch, no, None), os', w')"
  obtains os1 w1 n w2 t w3 os2 where "db_write S od (os, w) = (None, os1, w1)" "sv_now S w1 = (n, w2)" "sv_now S w2 = (t, w3)"
    "ch = ''sync''" "no = ord_order_no od"
    "os2 = os1\<lparr>os_cb := record_success (time_sub n start) t (os_cb os1),
       os_cache := fst (invalidate_with_delay S (order_key no) 500 (os_cache os1, w3))\<rparr>"
    "publish_order_event S tid od (os2, delete_both S (os_cache os1) (order_key no) w3) = (os', w')"
proof -
  obtain e os1 w1 where d: "db_write S od (os, w) = (e, os1, w1)" by (metis prod.collapse)
  obtain n w2 where n: "sv_now S w1 = (n, w2)" by force
  obtain t w3 where t: "sv_now S w2 = (t, w3)" by force
  have e: "e = None" using assms d n t by (auto simp: write_and_publish_def Let_def split: option.splits)
  obtain c w4 where c: "invalidate_with_delay S (order_key (ord_order_no od)) 500 (os_cache os1, w3) = (c, w4)" by force
  have w4: "w4 = delete_both S (os_cache os1) (order_key (ord_order_no od)) w3" using c by (simp add: invalidate_with_delay_def)
  obtain os3 w5 where p: "publish_order_event S tid od
      (os1\<lparr>os_cb := record_success (time_sub n start) t (os_cb os1), os_cache := c\<rparr>, w4) = (os3, w5)" by force
  have "ch = ''sync''" "no = ord_order_no od" "os' = os3" "w' = w5"
    using assms d n t e c p by (auto simp: write_and_publish_def Let_def)
  with that d n t e c p w4 show ?thesis by simp
qed

text \<open>After it the row is there and neither level holds the key.\<close>

lemma write_and_publish_cold:
  assumes "orders_read S synced col rows" "store_ok S l1v kv" "\<not> db_missing os" "rows w (ord_order_no od) = None"
    and "mc_l2 (os_cache os) \<longrightarrow> (\<forall>k w. kv (rd_del S k w) = (kv w)(k := None))" "\<not> mc_l2 (os_cache os) \<longrightarrow> kv w (order_key (ord_order_no od)) = None"
    and "write_and_publish S fch tid od start (os, w) = ((ch, no, None), os', w')"
  shows "no = ord_order_no od \<and> (\<exists>i. rows w' no = Some ((col od)\<lparr>ord_id := i\<rparr>)) \<and>
    l1v w' (order_key no) = None \<and> (mc_l2 (os_cache os) \<longrightarrow> kv w' (order_key no) = None) \<and>
    (\<exists>d. os_cache os' = (os_cache os)\<lparr>mc_delayed := d\<rparr>)"
  using assms(7)
proof (rule write_and_publish_success)
  fix os1 w1 n w2 t w3 os2
  assume d: "db_write S od (os, w) = (None, os1, w1)" and n: "sv_now S w1 = (n, w2)" and t: "sv_now S w2 = (t, w3)"
    and no: "no = ord_order_no od"
    and os2: "os2 = os1\<lparr>os_cb := record_success (time_sub n start) t (os_cb os1),
       os_cache := fst (invalidate_with_delay S (order_key no) 500 (os_cache os1, w3))\<rparr>"
    and p: "publish_order_event S tid od (os2, delete_both S (os_cache os1) (order_key no) w3) = (os', w')"
  let ?w4 = "delete_both S (os_cache os1) (order_key no) w3"
  have c: "os_cache os1 = os_cache os"
    using d by (auto simp: db_write_def index_order_to_es_def Let_def split: option.splits prod.splits if_splits)
  have "upserted col od (rows w) (rows w1)" using db_write_rows [OF orders_readD(1) [OF assms(1)] d assms(3)] .
  then obtain i where "rows w1 no = Some ((col od)\<lparr>ord_id := i\<rparr>)" using assms(4) no by (auto simp: upserted_def)
  moreover have "rows w2 = rows w1" "rows w3 = rows w2" "rows ?w4 = rows w3"
    using orders_readD(2) [OF assms(1), of w1] orders_readD(2) [OF assms(1), of w2] n t rows_delete_both [OF assms(1)] by simp_all
  moreover have "w' = ?w4 \<or> w' = snd (sv_now S ?w4)" "os_cache os' = os_cache os2"
    using p by (auto simp: publish_order_event_def split: option.splits prod.splits)
  moreover have "rows (snd (sv_now S ?w4)) = rows ?w4" "quiet l1v kv ?w4 (snd (sv_now S ?w4))"
    using orders_readD(2) [OF assms(1)] store_quiet(4) [OF assms(2)] by simp_all
  moreover have "l1v ?w4 (order_key no) = None" "mc_l2 (os_cache os) \<longrightarrow> kv ?w4 (order_key no) = None"
    using assms(2,5) c by (auto simp: delete_both_def store_ok_def)
  moreover have "\<exists>d. os_cache os2 = (os_cache os)\<lparr>mc_delayed := d\<rparr>" using os2 c by (simp add: invalidate_with_delay_def) blast
  ultimately show ?thesis using no by (auto simp: quiet_def)
qed

text \<open>The unlock script: it takes away its key at most, and L1 is not in Redis.\<close>

definition fewer ::
  "('w \<Rightarrow> string \<Rightarrow> gval option) \<Rightarrow> ('w \<Rightarrow> string \<Rightarrow> (wire \<times> time) option) \<Rightarrow> 'w \<Rightarrow> 'w \<Rightarrow> bool" where
  "fewer l1v kv w w' \<longleftrightarrow> l1v w' = l1v w \<and> (\<forall>k. kv w k = None \<longrightarrow> kv w' k = None)"

definition deletes_ok :: "'w services \<Rightarrow> ('w \<Rightarrow> string \<Rightarrow> gval option) \<Rightarrow> ('w \<Rightarrow> string \<Rightarrow> (wire \<times> time) option) \<Rightarrow> bool" where
  "deletes_ok S l1v kv \<longleftrightarrow>
     (\<forall>k w. kv (rd_del S k w) = (kv w)(k := None)) \<and> (\<forall>k w. fewer l1v kv w (snd (srv_del S k w))) \<and>
     (\<forall>f w. (\<forall>u. fewer l1v kv u (snd (f u))) \<longrightarrow> fewer l1v kv w (snd (rd_eval S f w)))"

lemma fewer_unlock:
  assumes "deletes_ok S l1v kv"
  shows "fewer l1v kv w (unlock_if S od token w)"
proof -
  have "fewer l1v kv u (snd (unlock_script S key t u))" for key t u
    using assms by (simp add: unlock_script_def deletes_ok_def) (simp add: fewer_def)
  then have "fewer l1v kv w (snd (rd_eval S (unlock_script S key t) w))" for key t
    using assms by (simp add: deletes_ok_def)
  moreover have "fewer l1v kv w w" by (simp add: fewer_def)
  ultimately show ?thesis
    by (simp add: unlock_if_def lock_release_def split_beta split: option.split sum.split)
qed

lemma reads_rows:
  assumes "orders_read S synced col rows" "(read_step S)\<^sup>*\<^sup>* w u"
  shows "rows u = rows w"
  using assms(2) by induction (use orders_readD(2,4,5) [OF assms(1)] in \<open>auto simp: read_step_def\<close>)

text \<open>A cold read through the loader gives the row.\<close>

lemma get_order_cold:
  assumes "orders_read S synced col rows" "store_ok S l1v kv" "has_master db_of" "no \<noteq> []"
    and "mc_loader (os_cache os) = Some (new_data_loader S mongo repo db_of put_db)" "cool (os_cache os) (order_key no)"
    and "l1v w (order_key no) = None" "kv w (order_key no) = None" "rows w no = Some od"
    and "\<forall>u h. (read_step S)\<^sup>*\<^sup>* w u \<longrightarrow> asked_handle (db_of u) = Some h \<longrightarrow> synced h u"
  shows "\<exists>os' w'. get_order S no (os, w) = Some (Inr od, os', w')"
proof -
  obtain mc' u where u: "(read_step S)\<^sup>*\<^sup>* w u" "mc_loader mc' = mc_loader (os_cache os)"
    "cache_get S (os_cache os) (order_key no) w =
      Some (fst (load_from_db S mc' (order_key no) u), mc', snd (load_from_db S mc' (order_key no) u))"
    using get_cold [OF assms(2,7,8,6)] by blast
  obtain rw m where d: "db_of u = Some rw" "rw_master rw = Some m" using assms(3) unfolding has_master_def by blast
  obtain db rw1 where a: "asked_handle (db_of u) = Some db" and l: "load_order S db_of put_db (order_key no) u =
    (case sql_row S db select_order_sql [GStr no] u of
       (Inl e, w1) \<Rightarrow> (Inr GNil, put_db rw1 w1) | (Inr od, w1) \<Rightarrow> (Inr (GOrder od), put_db rw1 w1))"
    using load_order_cases [where db_of = db_of and w = u, OF d, of S put_db no] by blast
  obtain r u1 where r: "sql_row S db select_order_sql [GStr no] u = (r, u1)" by force
  have "r = Inr od" using orders_query [OF assms(1), of db u no] assms(10) u(1) a reads_rows [OF assms(1) u(1)] r assms(9) by simp
  then have "new_data_loader S mongo repo db_of put_db (order_key no) u = (Inr (GOrder od), put_db rw1 u1)"
    using l r by (simp add: order_key_dispatch [OF assms(4)])
  then have "fst (load_from_db S mc' (order_key no) u) = (GOrder od, True, None)"
    using u(2) assms(5) by (simp add: load_from_db_def)
  with u(3) show ?thesis by (simp add: get_order_def Let_def)
qed

lemma create_async_channel: "create_async S tid od osw = ((ch, no, e), os', w') \<Longrightarrow> ch = ''async''"
  by (cases osw) (auto simp: create_async_def split: prod.splits option.splits)

lemma create_sync_in_sync:
  assumes "create_sync S tid od (os, w) = Some ((''sync'', no, e), os', w')" "sv_now S w = (start, w1)"
  obtains token u1 u2 where "write_and_publish S ''async'' tid od start (os, u1) = ((''sync'', no, e), os', u2)"
    "w' = unlock_if S od token u2"
    "u1 = w1 \<or> (\<exists>r. lock_acquire S (create_lock_key od) (5 * second) (200 * millisecond) w1 = Some (r, u1))"
proof (cases "os_lock os")
  case False
  with assms that [of w1 _ None] show ?thesis by (auto simp: create_sync_def split: prod.splits)
next
  case True
  let ?l = "lock_acquire S (create_lock_key od) (5 * second) (200 * millisecond) w1"
  obtain r u1 where l: "?l = Some (r, u1)" using assms True by (auto simp: create_sync_def split: option.splits)
  show ?thesis
  proof (cases r)
    case (Inl x)
    then have "create_async S tid od (os, u1) = ((''sync'', no, e), os', w')" using assms True l by (simp add: create_sync_def)
    then show ?thesis using create_async_channel by fastforce
  next
    case (Inr tok)
    with assms True l that [of u1 _ "Some tok"] show ?thesis by (auto simp: create_sync_def split: prod.splits)
  qed
qed

lemma force_sync_in_sync:
  assumes "create_order_force_sync S tid od0 osw = Some ((ch, no, e), os', w')"
    and "prepare_order S od0 osw = (od, os, w)" "sv_now S w = (start, w1)"
  obtains token u1 u2 where "write_and_publish S ''sync'' tid od start (os, u1) = ((ch, no, e), os', u2)"
    "w' = unlock_if S od token u2"
    "u1 = w1 \<or> (\<exists>r. lock_acquire S (create_lock_key od) (5 * second) (200 * millisecond) w1 = Some (r, u1))"
proof (cases "os_lock os")
  case False
  with assms that [of w1 _ None] show ?thesis by (auto simp: create_order_force_sync_def split: prod.splits)
next
  case True
  let ?l = "lock_acquire S (create_lock_key od) (5 * second) (200 * millisecond) w1"
  obtain r u1 where l: "?l = Some (r, u1)" using assms True by (auto simp: create_order_force_sync_def split: option.splits)
  show ?thesis
  proof (cases r)
    case (Inl x)
    with assms True l that [of u1 _ None] show ?thesis by (auto simp: create_order_force_sync_def split: prod.splits)
  next
    case (Inr tok)
    with assms True l that [of u1 _ "Some tok"] show ?thesis by (auto simp: create_order_force_sync_def split: prod.splits)
  qed
qed

text \<open>Both creations end in the common part when they report channel sync.\<close>

lemma sync_creation:
  assumes "orders_read S synced col rows"
    and "create_order S tid od0 (os, w) = Some ((''sync'', no, None), os', w') \<or>
      create_order_force_sync S tid od0 (os, w) = Some ((''sync'', no, None), os', w')"
  obtains fch start now os1 u1 u2 token where
    "write_and_publish S fch tid (od0\<lparr>ord_order_no := fst (generate_order_no (ord_user_id od0) os), ord_status := ''pending'',
        ord_created_at := now, ord_updated_at := now\<rparr>) start (os1, u1) = ((''sync'', no, None), os', u2)"
    "os_cache os1 = os_cache os" "os_db os1 = os_db os" "rows u1 = rows w"
    "w' = unlock_if S (od0\<lparr>ord_order_no := fst (generate_order_no (ord_user_id od0) os), ord_status := ''pending'',
        ord_created_at := now, ord_updated_at := now\<rparr>) token u2"
proof -
  obtain no1 os0 where g: "generate_order_no (ord_user_id od0) os = (no1, os0)" by force
  have os0: "os_cache os0 = os_cache os" "os_db os0 = os_db os"
    using g by (auto simp: generate_order_no_def Let_def)
  obtain now w1 where now: "sv_now S w = (now, w1)" by force
  define od where "od = od0\<lparr>ord_order_no := no1, ord_status := ''pending'', ord_created_at := now, ord_updated_at := now\<rparr>"
  have prep: "prepare_order S od0 (os, w) = (od, os0, w1)" using g now by (simp add: prepare_order_def od_def)
  obtain t w2 where t: "sv_now S w1 = (t, w2)" by force
  obtain t' w3 where t': "sv_now S w2 = (t', w3)" by force
  obtain t'' w4 where t'': "sv_now S w3 = (t'', w4)" by force
  have rows: "rows w1 = rows w" "rows w2 = rows w" "rows w3 = rows w" "rows w4 = rows w"
    using orders_readD(2) [OF assms(1), of w] orders_readD(2) [OF assms(1), of w1] orders_readD(2) [OF assms(1), of w2]
      orders_readD(2) [OF assms(1), of w3] now t t' t'' by simp_all
  have not_async: False if "create_async S tid od (o', u) = ((''sync'', no, None), os', w')" for o' u
    using create_async_channel [OF that] by simp
  from assms(2) show ?thesis
  proof
    assume c: "create_order S tid od0 (os, w) = Some ((''sync'', no, None), os', w')"
    obtain ok rl where a: "try_acquire t' (os_rl os0) = (ok, rl)" by force
    let ?os = "os0\<lparr>os_rl := rl\<rparr>"
    have "create_sync S tid od (?os, w3) = Some ((''sync'', no, None), os', w')"
      using c prep t t' a not_async [of os0 w2] not_async [of ?os w3]
      by (auto simp: create_order_def Let_def split: if_splits)
    then obtain token u1 u2 where r: "write_and_publish S ''async'' tid od t'' (?os, u1) = ((''sync'', no, None), os', u2)"
        "w' = unlock_if S od token u2"
        "u1 = w4 \<or> (\<exists>r. lock_acquire S (create_lock_key od) (5 * second) (200 * millisecond) w4 = Some (r, u1))"
      by (rule create_sync_in_sync [OF _ t''])
    have "rows u1 = rows w" using r(3) rows_lock [OF assms(1)] rows by metis
    with that [of "''async''" now t'' ?os u1 u2 token] r os0 g show ?thesis by (simp add: od_def)
  next
    assume c: "create_order_force_sync S tid od0 (os, w) = Some ((''sync'', no, None), os', w')"
    then obtain token u1 u2 where r: "write_and_publish S ''sync'' tid od t (os0, u1) = ((''sync'', no, None), os', u2)"
        "w' = unlock_if S od token u2"
        "u1 = w2 \<or> (\<exists>r. lock_acquire S (create_lock_key od) (5 * second) (200 * millisecond) w2 = Some (r, u1))"
      by (rule force_sync_in_sync [OF _ prep t])
    have "rows u1 = rows w" using r(3) rows_lock [OF assms(1)] rows by metis
    with that [of "''sync''" now t os0 u1 u2 token] r os0 g show ?thesis by (simp add: od_def)
  qed
qed


lemma ref_orders_read: "orders_read ref_services (\<lambda>h w. True) (\<lambda>od. od) rf_rows"
  unfolding orders_read_def
  by (intro conjI ref_orders_ok allI impI)
    (simp_all add: ref_services_def ref_l1_get_def ref_get_def ref_setnx_def split_beta split: option.split)

lemma ref_deletes_ok: "deletes_ok ref_services ref_l1v rf_kv"
  by (simp add: deletes_ok_def fewer_def ref_services_def split_beta) (simp add: ref_l1v_def fun_eq_iff)

lemma ref_force_sync:
  assumes "os_db os = Some rw" "rw_master rw = Some db" "os_inv os"
  shows "\<exists>no os' w'. create_order_force_sync ref_services tid od0 (os, w) = Some ((''sync'', no, None), os', w')"
proof -
  obtain od os1 w1 where p: "prepare_order ref_services od0 (os, w) = (od, os1, w1)" by (metis prod.collapse)
  then have db: "os_db os1 = Some rw"
    using assms(1) by (auto simp: prepare_order_def generate_order_no_def Let_def split: prod.splits)
  have wp: "\<exists>no os' w'. write_and_publish ref_services ''sync'' tid od start (os1, u) = ((''sync'', no, None), os', w')" for start u
  proof -
    obtain os2 w2 where "db_write ref_services od (os1, u) = (None, os2, w2)" using ref_db_write [OF db assms(2)] by blast
    then show ?thesis by (simp add: write_and_publish_def split_beta Let_def)
  qed
  obtain start w2 where s: "sv_now ref_services w1 = (start, w2)" by force
  obtain r w3 where l: "lock_acquire ref_services (create_lock_key od) (5 * second) (200 * millisecond) w2 = Some (r, w3)"
    using lock_acquire_some [OF ref_clock_ok] by blast
  obtain tok u where u: "create_order_force_sync ref_services tid od0 (os, w) =
      (case write_and_publish ref_services ''sync'' tid od start (os1, u) of (r, os3, w3) \<Rightarrow> Some (r, os3, unlock_if ref_services od tok w3))"
    by (cases "os_lock os1") (simp_all add: create_order_force_sync_def p s l split_beta)
  obtain no os' w' where "write_and_publish ref_services ''sync'' tid od start (os1, u) = ((''sync'', no, None), os', w')"
    using wp by blast
  with u show ?thesis by simp
qed


end
