(* ===== verification/Http.thy ===== *)
theory Http
  imports Rate_Limiter Services
begin

section \<open>HTTP: trace context, middleware (internal/trace, internal/middleware)\<close>

text \<open>
  What the handlers see of Gin: the request, the values middleware leaves in the context, the
  response headers, what has been written, whether the chain is aborted. A handler maps the
  context and the server's state to new ones, \<open>None\<close> if it panics; a middleware takes the rest
  of the chain as \<open>next_handler\<close>. Each middleware here either calls \<open>c.Next\<close> or aborts, so Gin runs
  nothing behind its back.
\<close>

record http_request =
  rq_method :: string
  rq_host :: string
  rq_headers :: "string \<Rightarrow> string"
  rq_params :: "string \<Rightarrow> string"
  rq_query :: "string \<Rightarrow> string option"
  rq_body :: "wire option"

text \<open>\<open>model.ApiResponse\<close>, with the type of \<open>Data\<close> a parameter.\<close>

record 'd api_response =
  ar_code :: int
  ar_message :: string
  ar_data :: "'d option"
  ar_trace_id :: string

text \<open>The context values \<open>trace_id\<close>, \<open>auth_user_id\<close>, \<open>auth_username\<close>, \<open>logger\<close>; the trace id of the request's \<open>context.Context\<close>.\<close>

record 'd gin =
  gn_request :: http_request
  gn_context :: "string option"
  gn_trace_id :: "string option"
  gn_user_id :: "int option"
  gn_username :: "string option"
  gn_logger :: "string option"
  gn_headers :: "string \<rightharpoonup> string"
  gn_written :: "(nat \<times> 'd api_response option) list"
  gn_errors :: "goerr list"
  gn_aborted :: bool

type_synonym ('d, 's) http_handler = "'d gin \<times> 's \<Rightarrow> ('d gin \<times> 's) option"

definition new_gin :: "http_request \<Rightarrow> 'd gin" where
  "new_gin rq = \<lparr>gn_request = rq, gn_context = None, gn_trace_id = None, gn_user_id = None, gn_username = None,
     gn_logger = None, gn_headers = Map.empty, gn_written = [], gn_errors = [], gn_aborted = False\<rparr>"

definition c_json :: "nat \<Rightarrow> 'd api_response \<Rightarrow> 'd gin \<Rightarrow> 'd gin" where
  "c_json status r c = c\<lparr>gn_written := gn_written c @ [(status, Some r)]\<rparr>"

definition c_header :: "string \<Rightarrow> string \<Rightarrow> 'd gin \<Rightarrow> 'd gin" where
  "c_header name val c = c\<lparr>gn_headers := (gn_headers c)(name \<mapsto> val)\<rparr>"

definition c_abort :: "'d gin \<Rightarrow> 'd gin" where
  "c_abort c = c\<lparr>gn_aborted := True\<rparr>"

definition c_abort_with_status :: "nat \<Rightarrow> 'd gin \<Rightarrow> 'd gin" where
  "c_abort_with_status status c = c_abort (c\<lparr>gn_written := gn_written c @ [(status, None)]\<rparr>)"

definition get_header :: "'d gin \<Rightarrow> string \<Rightarrow> string" where
  "get_header c name = rq_headers (gn_request c) name"

definition default_query :: "'d gin \<Rightarrow> string \<Rightarrow> string \<Rightarrow> string" where
  "default_query c name def_val = (case rq_query (gn_request c) name of None \<Rightarrow> def_val | Some v \<Rightarrow> v)"

definition reply :: "int \<Rightarrow> string \<Rightarrow> 'd option \<Rightarrow> string \<Rightarrow> 'd api_response" where
  "reply code msg data tid = \<lparr>ar_code = code, ar_message = msg, ar_data = data, ar_trace_id = tid\<rparr>"

lemmas gin_defs = c_json_def c_header_def c_abort_def c_abort_with_status_def get_header_def

text \<open>
  \<open>ShouldBindJSON\<close>: the first JSON value of the body into a struct; a member's name is matched
  with its case ignored.
\<close>

definition bind_json :: "(json \<Rightarrow> goerr option \<times> 'r) \<Rightarrow> 'd gin \<Rightarrow> goerr + 'r" where
  "bind_json unm c =
     (case rq_body (gn_request c) of
        Some (JText j) \<Rightarrow> (case unm j of (None, r) \<Rightarrow> Inr r | (Some e, r) \<Rightarrow> Inl e)
      | Some (Raw s) \<Rightarrow> Inl syntax_error
      | None \<Rightarrow> Inl (Sentinel ''EOF''))"

subsection \<open>Trace context (internal/trace/trace.go, internal/middleware/traceid.go)\<close>

definition from_context :: "string option \<Rightarrow> string" where
  "from_context ctx = (case ctx of None \<Rightarrow> [] | Some tid \<Rightarrow> tid)"

definition new_context :: "string option \<Rightarrow> string \<Rightarrow> string option" where
  "new_context ctx tid = Some tid"

definition get_trace_id :: "'d gin \<Rightarrow> string" where
  "get_trace_id c = (case gn_trace_id c of None \<Rightarrow> [] | Some tid \<Rightarrow> tid)"

text \<open>\<open>uuid\<close> is \<open>uuid.New().String()\<close>.\<close>

definition trace_id :: "('s \<Rightarrow> string \<times> 's) \<Rightarrow> ('d, 's) http_handler \<Rightarrow> ('d, 's) http_handler" where
  "trace_id uuid next_handler = (\<lambda>(c, s).
     case (let h = get_header c ''X-Trace-Id'' in if h = [] then uuid s else (h, s)) of
       (tid, s1) \<Rightarrow>
         (let c1 = c\<lparr>gn_trace_id := Some tid\<rparr>;
              c2 = c1\<lparr>gn_context := new_context (gn_context c1) tid\<rparr>
          in next_handler (c_header ''X-Trace-Id'' tid c2, s1)))"

definition zap_logger :: "('d, 's) http_handler \<Rightarrow> ('d, 's) http_handler" where
  "zap_logger next_handler = (\<lambda>(c, s). next_handler (c\<lparr>gn_logger := Some (get_trace_id c)\<rparr>, s))"

definition get_logger :: "'d gin \<Rightarrow> string option" where
  "get_logger c = gn_logger c"

subsection \<open>Recovery (internal/middleware/recovery.go)\<close>

text \<open>The state after a panic is not tracked: \<open>None\<close> in its place.\<close>

definition recovery :: "('d, 's) http_handler \<Rightarrow> 'd gin \<times> 's \<Rightarrow> 'd gin \<times> 's option" where
  "recovery next_handler = (\<lambda>(c, s).
     case next_handler (c, s) of
       Some (c', s') \<Rightarrow> (c', Some s')
     | None \<Rightarrow> (c_abort (c_json 500 (reply 500 ''internal server error'' None (get_trace_id c)) c), None))"

definition error_handler :: "('d, 's) http_handler \<Rightarrow> ('d, 's) http_handler" where
  "error_handler next_handler = (\<lambda>(c, s).
     case next_handler (c, s) of
       None \<Rightarrow> None
     | Some (c', s') \<Rightarrow>
         Some (if gn_errors c' \<noteq> []
               then c_json 400 (reply 400 (err_text (last (gn_errors c'))) None (get_trace_id c')) c'
               else c', s'))"

subsection \<open>Rate limit (internal/middleware/ratelimit.go)\<close>

definition is_write_method :: "string \<Rightarrow> bool" where
  "is_write_method m \<longleftrightarrow> m \<in> {''POST'', ''PUT'', ''PATCH'', ''DELETE''}"

definition rate_limit :: "'w services \<Rightarrow> ('d, limiter \<times> 'w) http_handler \<Rightarrow> ('d, limiter \<times> 'w) http_handler" where
  "rate_limit S next_handler = (\<lambda>(c, rl, w).
     if is_write_method (rq_method (gn_request c)) then
       (case sv_now S w of (t, w1) \<Rightarrow>
        case try_acquire t rl of (ok, rl1) \<Rightarrow>
          if \<not> ok
          then Some (c_abort (c_json 429 (reply 429 ''too many requests, use async channel'' None (get_trace_id c)) c), rl1, w1)
          else next_handler (c, rl1, w1))
     else next_handler (c, rl, w))"

subsection \<open>CORS (internal/middleware/cors.go)\<close>

definition is_space :: "char \<Rightarrow> bool" where
  "is_space c \<longleftrightarrow> (of_char c :: nat) \<in> {9, 10, 11, 12, 13, 32}"

definition trim_space :: "string \<Rightarrow> string" where
  "trim_space s = rev (dropWhile is_space (rev (dropWhile is_space s)))"

fun join_with :: "string \<Rightarrow> string list \<Rightarrow> string" where
  "join_with sep [] = []"
| "join_with sep [s] = s"
| "join_with sep (s # ss) = s @ sep @ join_with sep ss"

record cors_settings =
  cx_enabled :: bool
  cx_allowed_origins :: "string list"
  cx_allowed_methods :: "string list"
  cx_allowed_headers :: "string list"
  cx_exposed_headers :: "string list"
  cx_allow_credentials :: bool
  cx_max_age :: int

definition default_cors_config :: cors_settings where
  "default_cors_config =
     \<lparr>cx_enabled = False, cx_allowed_origins = [''*''],
      cx_allowed_methods = [''GET'', ''POST'', ''PUT'', ''PATCH'', ''DELETE'', ''OPTIONS''],
      cx_allowed_headers = [''Origin'', ''Content-Type'', ''Accept'', ''Authorization'', ''X-Trace-Id'', ''X-Request-ID''],
      cx_exposed_headers = [''Content-Length'', ''X-Trace-Id''], cx_allow_credentials = True, cx_max_age = 86400\<rparr>"

text \<open>The loop over the origins: it stops at the wildcard.\<close>

fun scan_origins :: "string list \<Rightarrow> string set \<Rightarrow> string set \<times> bool" where
  "scan_origins [] allowed = (allowed, False)"
| "scan_origins (orig # rest) allowed =
     (let x = trim_space orig
      in if x = ''*'' then (allowed, True) else scan_origins rest (insert (to_lower x) allowed))"

definition same_origin :: "string \<Rightarrow> string \<Rightarrow> bool" where
  "same_origin origin host \<longleftrightarrow> origin = host \<or> ''http://'' @ host = origin \<or> ''https://'' @ host = origin"

definition cors_headers :: "cors_settings \<Rightarrow> bool \<Rightarrow> string \<Rightarrow> 'd gin \<Rightarrow> 'd gin" where
  "cors_headers cfg allow_all origin c =
     (let exposed = (if cx_exposed_headers cfg = [] then [] else join_with '', '' (cx_exposed_headers cfg));
          c1 = (if allow_all then c_header ''Access-Control-Allow-Origin'' ''*'' c
                else c_header ''Vary'' ''Origin'' (c_header ''Access-Control-Allow-Origin'' origin c));
          c2 = (if cx_allow_credentials cfg \<and> \<not> allow_all then c_header ''Access-Control-Allow-Credentials'' ''true'' c1 else c1)
      in if exposed \<noteq> [] then c_header ''Access-Control-Expose-Headers'' exposed c2 else c2)"

definition preflight_headers :: "cors_settings \<Rightarrow> 'd gin \<Rightarrow> 'd gin" where
  "preflight_headers cfg c =
     (let c1 = c_header ''Access-Control-Allow-Headers'' (join_with '', '' (cx_allowed_headers cfg))
            (c_header ''Access-Control-Allow-Methods'' (join_with '', '' (cx_allowed_methods cfg)) c)
      in if cx_max_age cfg > 0 then c_header ''Access-Control-Max-Age'' (dec_int (cx_max_age cfg)) c1 else c1)"

definition cors :: "cors_settings \<Rightarrow> ('d, 's) http_handler \<Rightarrow> ('d, 's) http_handler" where
  "cors cfg next_handler = (\<lambda>(c, s).
     if \<not> cx_enabled cfg then next_handler (c, s)
     else
       (case scan_origins (cx_allowed_origins cfg) {} of (allowed, allow_all) \<Rightarrow>
          (let origin = get_header c ''Origin''
           in if origin = [] then next_handler (c, s)
              else if \<not> allow_all \<and> to_lower origin \<notin> allowed \<and> \<not> same_origin origin (rq_host (gn_request c))
              then Some (c_abort_with_status 403 c, s)
              else
                (let c1 = cors_headers cfg allow_all origin c
                 in if rq_method (gn_request c) = ''OPTIONS''
                    then Some (c_abort_with_status 204 (preflight_headers cfg c1), s)
                    else next_handler (c1, s)))))"

text \<open>The chain \<open>main\<close> puts around every route.\<close>

definition global_chain ::
  "('s \<Rightarrow> string \<times> 's) \<Rightarrow> cors_settings \<Rightarrow> ('d, 's) http_handler \<Rightarrow> 'd gin \<times> 's \<Rightarrow> 'd gin \<times> 's option" where
  "global_chain uuid cfg h = (\<lambda>(c, s).
     case trace_id uuid (zap_logger Some) (c, s) of
       None \<Rightarrow> (c, None)
     | Some cs \<Rightarrow> recovery (error_handler (cors cfg h)) cs)"

section \<open>What CORS grants\<close>

definition wildcard :: "cors_settings \<Rightarrow> bool" where
  "wildcard cfg \<longleftrightarrow> (\<exists>x \<in> set (cx_allowed_origins cfg). trim_space x = ''*'')"

definition origin_refused :: "cors_settings \<Rightarrow> http_request \<Rightarrow> bool" where
  "origin_refused cfg rq \<longleftrightarrow> (let origin = rq_headers rq ''Origin'' in
     cx_enabled cfg \<and> origin \<noteq> [] \<and> \<not> wildcard cfg \<and>
     to_lower origin \<notin> (to_lower \<circ> trim_space) ` set (cx_allowed_origins cfg) \<and>
     \<not> same_origin origin (rq_host rq))"

lemma scan_origins_wildcard:
  "snd (scan_origins xs A) \<longleftrightarrow> (\<exists>x \<in> set xs. trim_space x = ''*'')"
  by (induction xs arbitrary: A) (auto simp: Let_def)

lemma scan_origins_allowed:
  "\<forall>x \<in> set xs. trim_space x \<noteq> ''*'' \<Longrightarrow> fst (scan_origins xs A) = A \<union> (to_lower \<circ> trim_space) ` set xs"
  by (induction xs arbitrary: A) (auto simp: Let_def)

lemma cors_cases:
  "cors cfg h (c, s) =
     (let rq = gn_request c; origin = rq_headers rq ''Origin''
      in if \<not> cx_enabled cfg \<or> origin = [] then h (c, s)
         else if origin_refused cfg rq then Some (c_abort_with_status 403 c, s)
         else if rq_method rq = ''OPTIONS''
         then Some (c_abort_with_status 204 (preflight_headers cfg (cors_headers cfg (wildcard cfg) origin c)), s)
         else h (cors_headers cfg (wildcard cfg) origin c, s))"
proof -
  obtain A w where sc: "scan_origins (cx_allowed_origins cfg) {} = (A, w)" by force
  have w: "w = wildcard cfg" using scan_origins_wildcard [of "cx_allowed_origins cfg" "{}"] sc by (simp add: wildcard_def)
  have "\<not> w \<Longrightarrow> A = (to_lower \<circ> trim_space) ` set (cx_allowed_origins cfg)"
    using scan_origins_allowed [of "cx_allowed_origins cfg" "{}"] sc w by (simp add: wildcard_def)
  then have "(\<not> w \<and> to_lower (get_header c ''Origin'') \<notin> A \<and> \<not> same_origin (get_header c ''Origin'') (rq_host (gn_request c)) \<longleftrightarrow>
      origin_refused cfg (gn_request c))" if "cx_enabled cfg" "get_header c ''Origin'' \<noteq> []"
    using that w by (auto simp: origin_refused_def get_header_def Let_def)
  then show ?thesis using sc w by (simp add: cors_def get_header_def Let_def)
qed

lemma cors_headers_set:
  "gn_headers (cors_headers cfg w origin c) ''Access-Control-Allow-Origin'' = Some (if w then ''*'' else origin)"
  "gn_headers (cors_headers cfg w origin c) ''Access-Control-Allow-Credentials'' =
     (if cx_allow_credentials cfg \<and> \<not> w then Some ''true'' else gn_headers c ''Access-Control-Allow-Credentials'')"
  by (simp_all add: cors_headers_def c_header_def Let_def)

lemma preflight_keeps:
  "gn_headers (preflight_headers cfg c) ''Access-Control-Allow-Origin'' = gn_headers c ''Access-Control-Allow-Origin''"
  "gn_headers (preflight_headers cfg c) ''Access-Control-Allow-Credentials'' = gn_headers c ''Access-Control-Allow-Credentials''"
  by (simp_all add: preflight_headers_def c_header_def Let_def)

lemma abort_headers [simp]: "gn_headers (c_abort_with_status n c) = gn_headers c"
  by (simp add: gin_defs)

text \<open>
  C33: The CORS middleware sets the allow headers exactly for the origins that are configured, the same
  as the host, or covered by a wildcard, credentials never with a wildcard, and ends a request of
  any other origin with 403.
\<close>

theorem cors_grants_exactly:
  assumes "gn_headers c = Map.empty"
  shows "\<exists>c'. cors cfg Some (c, s) = Some (c', s) \<and>
    (let rq = gn_request c; origin = rq_headers rq ''Origin'';
         granted = (cx_enabled cfg \<and> origin \<noteq> [] \<and> \<not> origin_refused cfg rq)
     in gn_headers c' ''Access-Control-Allow-Origin'' =
          (if granted then Some (if wildcard cfg then ''*'' else origin) else None) \<and>
        gn_headers c' ''Access-Control-Allow-Credentials'' =
          (if granted \<and> cx_allow_credentials cfg \<and> \<not> wildcard cfg then Some ''true'' else None) \<and>
        (origin_refused cfg rq \<longrightarrow> (\<forall>h. cors cfg h (c, s) = Some (c_abort_with_status 403 c, s))))"
proof -
  let ?rq = "gn_request c"
  consider (off) "\<not> cx_enabled cfg \<or> rq_headers ?rq ''Origin'' = []"
    | (refused) "cx_enabled cfg" "rq_headers ?rq ''Origin'' \<noteq> []" "origin_refused cfg ?rq"
    | (granted) "cx_enabled cfg" "rq_headers ?rq ''Origin'' \<noteq> []" "\<not> origin_refused cfg ?rq"
    by blast
  then show ?thesis
  proof cases
    case off
    then have "\<not> origin_refused cfg ?rq" by (auto simp: origin_refused_def Let_def)
    with off assms show ?thesis by (auto simp: cors_cases Let_def)
  next
    case refused
    then show ?thesis using assms by (simp add: cors_cases Let_def)
  next
    case granted
    then show ?thesis
      using assms by (cases "rq_method ?rq = ''OPTIONS''") (simp_all add: cors_cases Let_def cors_headers_set preflight_keeps)
  qed
qed

definition sample_request :: http_request where
  "sample_request = \<lparr>rq_method = ''GET'', rq_host = ''api.example.com'',
     rq_headers = (\<lambda>k. if k = ''Origin'' then ''https://App.example.com'' else []),
     rq_params = (\<lambda>k. []), rq_query = (\<lambda>k. None), rq_body = None\<rparr>"

definition sample_cors :: cors_settings where
  "sample_cors = default_cors_config\<lparr>cx_enabled := True, cx_allowed_origins := ['' https://app.example.com'']\<rparr>"

lemma new_gin_simps [simp]: "gn_headers (new_gin rq) = Map.empty" "gn_request (new_gin rq) = rq"
  by (simp_all add: new_gin_def)

theorem cors_grants_exactly_witness:
  "\<exists>c'. cors sample_cors Some (new_gin sample_request :: unit gin, ()) = Some (c', ()) \<and>
     gn_headers c' ''Access-Control-Allow-Origin'' = Some ''https://App.example.com'' \<and>
     gn_headers c' ''Access-Control-Allow-Credentials'' = Some ''true''"
proof -
  have "char_of (97 :: nat) = CHR ''a''" by code_simp
  then have "\<not> wildcard sample_cors" "\<not> origin_refused sample_cors sample_request"
    by (simp_all add: wildcard_def origin_refused_def sample_cors_def sample_request_def default_cors_config_def
        trim_space_def is_space_def to_lower_def lower_char_def)
  then show ?thesis
    using cors_grants_exactly [of "new_gin sample_request :: unit gin" sample_cors "()"]
    by (auto simp: sample_cors_def default_cors_config_def sample_request_def)
qed

end
