(* ===== verification/Auth.thy ===== *)
theory Auth
  imports Http Rwdb
begin

section \<open>Authentication (auth_service.go, user_auth_repo.go, middleware/auth.go, auth_handler.go)\<close>

text \<open>
  The \<open>users\<close> table behind the read/write splitter, registration, login and token validation,
  the middleware and the handlers. SQL, bcrypt, the JWT library and the validator are arguments
  (\<open>auth_env\<close>, \<open>users_ok\<close> and \<open>jwt_ok\<close> state what is documented of them). The repository's
  \<open>*RWDB\<close> may be a nil pointer, and then every query panics: \<open>None\<close>.
\<close>

record register_request =
  rr_username :: string
  rr_password :: string
  rr_email :: string
  rr_phone :: string

record login_request =
  lr_username :: string
  lr_password :: string

record token_response =
  tr_access_token :: string
  tr_token_type :: string
  tr_expires_in :: int
  tr_user_id :: int
  tr_username :: string

text \<open>The method of a token's header: of type \<open>*jwt.SigningMethodHMAC\<close>, or another.\<close>

datatype signing_method = MethodHMAC string | OtherMethod string

record jwt_token =
  jt_method :: signing_method
  jt_claims :: gval
  jt_valid :: bool

record 'w auth_env =
  ae_user_row :: "nat \<Rightarrow> string \<Rightarrow> gval list \<Rightarrow> 'w \<Rightarrow> (goerr + user) \<times> 'w"
  ae_insert :: "nat \<Rightarrow> string \<Rightarrow> gval list \<Rightarrow> 'w \<Rightarrow> (goerr + (goerr + int)) \<times> 'w"
  ae_hash :: "string \<Rightarrow> 'w \<Rightarrow> (goerr + string) \<times> 'w"
  ae_compare :: "string \<Rightarrow> string \<Rightarrow> goerr option"
  ae_sign :: "signing_method \<Rightarrow> gval \<Rightarrow> string \<Rightarrow> goerr + string"
  ae_parse :: "string \<Rightarrow> (jwt_token \<Rightarrow> goerr + string) \<Rightarrow> time \<Rightarrow> goerr + jwt_token"

subsection \<open>Repository\<close>

definition user_columns_sql :: string where
  "user_columns_sql = ''SELECT id, username, password_hash, email, phone, status, COALESCE(last_login_at, '' @ [CHR 0x27, CHR 0x27] @ '') as last_login_at, created_at, updated_at FROM users WHERE ''"

text \<open>\<open>QueryRowContext\<close> and \<open>Scan\<close>; \<open>sql.ErrNoRows\<close> is no error. A nil \<open>*RWDB\<close> or row panics.\<close>

definition query_user ::
  "'w auth_env \<Rightarrow> string \<Rightarrow> gval \<Rightarrow> string \<Rightarrow> rwdb option \<times> 'w \<Rightarrow> ((goerr + user option) \<times> rwdb option \<times> 'w) option" where
  "query_user A cond arg ctx = (\<lambda>(db, w).
     case db of
       None \<Rightarrow> None
     | Some rw \<Rightarrow>
         (case rw_replica rw of
            (None, rw1) \<Rightarrow> None
          | (Some h, rw1) \<Rightarrow>
              (case ae_user_row A h (user_columns_sql @ cond @ '' = ?'') [arg] w of
                 (Inl e, w1) \<Rightarrow> Some (if e = sql_no_rows then Inr None else Inl (Wrap ctx e), Some rw1, w1)
               | (Inr u, w1) \<Rightarrow> Some (Inr (Some u), Some rw1, w1))))"

definition get_by_username :: "'w auth_env \<Rightarrow> string \<Rightarrow> rwdb option \<times> 'w \<Rightarrow> ((goerr + user option) \<times> rwdb option \<times> 'w) option" where
  "get_by_username A name = query_user A ''username'' (GStr name) ''query user by username''"

definition get_by_email :: "'w auth_env \<Rightarrow> string \<Rightarrow> rwdb option \<times> 'w \<Rightarrow> ((goerr + user option) \<times> rwdb option \<times> 'w) option" where
  "get_by_email A email = query_user A ''email'' (GStr email) ''query user by email''"

definition get_by_id :: "'w auth_env \<Rightarrow> int \<Rightarrow> rwdb option \<times> 'w \<Rightarrow> ((goerr + user option) \<times> rwdb option \<times> 'w) option" where
  "get_by_id A user_id = query_user A ''id'' (GInt user_id) ''query user by id''"

definition insert_user_sql :: string where
  "insert_user_sql = ''INSERT INTO users (username, password_hash, email, phone, status) VALUES (?, ?, ?, ?, ?)''"

definition user_args :: "user \<Rightarrow> gval list" where
  "user_args u = [GStr (us_username u), GStr (us_password_hash u), GStr (us_email u), GStr (us_phone u), GInt (us_status u)]"

definition insert_user :: "'w auth_env \<Rightarrow> user \<Rightarrow> rwdb option \<times> 'w \<Rightarrow> ((goerr + int) \<times> rwdb option \<times> 'w) option" where
  "insert_user A u = (\<lambda>(db, w).
     case db of
       None \<Rightarrow> None
     | Some rw \<Rightarrow>
         (case rw_master rw of
            None \<Rightarrow> Some (Inl (Wrap ''insert user'' (Errorf ''rwdb: master not available'')), db, w)
          | Some h \<Rightarrow>
              (case ae_insert A h insert_user_sql (user_args u) w of
                 (Inl e, w1) \<Rightarrow> Some (Inl (Wrap ''insert user'' e), db, w1)
               | (Inr (Inl e), w1) \<Rightarrow> Some (Inl (Wrap ''get last insert id'' e), db, w1)
               | (Inr (Inr i), w1) \<Rightarrow> Some (Inr (i mod 2 ^ 64), db, w1))))"

definition update_last_login_at :: "'w services \<Rightarrow> int \<Rightarrow> rwdb option \<times> 'w \<Rightarrow> (goerr option \<times> 'w) option" where
  "update_last_login_at S user_id = (\<lambda>(db, w).
     case db of
       None \<Rightarrow> None
     | Some rw \<Rightarrow> Some (rw_exec S rw ''UPDATE users SET last_login_at = NOW() WHERE id = ?'' [GInt user_id] w))"

subsection \<open>Service\<close>

definition err_user_exists :: goerr where "err_user_exists = Sentinel ''username already exists''"
definition err_email_exists :: goerr where "err_email_exists = Sentinel ''email already exists''"
definition err_invalid_login :: goerr where "err_invalid_login = Sentinel ''invalid username or password''"
definition err_user_disabled :: goerr where "err_user_disabled = Sentinel ''user account is disabled''"
definition err_user_not_found :: goerr where "err_user_not_found = Sentinel ''user not found''"
definition err_invalid_token :: goerr where "err_invalid_token = Sentinel ''invalid or expired token''"

lemmas auth_errors = err_user_exists_def err_email_exists_def err_invalid_login_def err_user_disabled_def
  err_user_not_found_def err_invalid_token_def

text \<open>\<open>as_pending\<close>: the users whose last login a goroutine still has to write.\<close>

record auth_service =
  au_repo :: "rwdb option"
  au_jwt_secret :: string
  au_jwt_expire :: duration
  au_pending :: "int list"

definition new_auth_service :: "rwdb option \<Rightarrow> string \<Rightarrow> int \<Rightarrow> auth_service" where
  "new_auth_service repo secret expire_seconds =
     \<lparr>au_repo = repo, au_jwt_secret = secret, au_jwt_expire = s64 (expire_seconds * second), au_pending = []\<rparr>"

definition token_claims :: "int \<Rightarrow> string \<Rightarrow> time \<Rightarrow> time \<Rightarrow> gval" where
  "token_claims user_id username now expires_at =
     GMap [(''exp'', GInt (expires_at div second)), (''iat'', GInt (now div second)),
       (''user_id'', GInt user_id), (''username'', GStr username)]"

definition generate_token ::
  "'w services \<Rightarrow> 'w auth_env \<Rightarrow> int \<Rightarrow> string \<Rightarrow> auth_service \<times> 'w \<Rightarrow> (goerr + string \<times> int) \<times> 'w" where
  "generate_token S A user_id username = (\<lambda>(au, w).
     case sv_now S w of (now, w1) \<Rightarrow>
       (case ae_sign A (MethodHMAC ''HS256'') (token_claims user_id username now (now + au_jwt_expire au)) (au_jwt_secret au) of
          Inl e \<Rightarrow> (Inl (Wrap ''sign token'' e), w1)
        | Inr t \<Rightarrow> (Inr (t, quot (duration_ms (au_jwt_expire au)) 1000), w1)))"

definition token_for :: "int \<Rightarrow> string \<Rightarrow> string \<times> int \<Rightarrow> token_response" where
  "token_for user_id username = (\<lambda>(t, expires_in).
     \<lparr>tr_access_token = t, tr_token_type = ''Bearer'', tr_expires_in = expires_in, tr_user_id = user_id, tr_username = username\<rparr>)"

definition new_user :: "register_request \<Rightarrow> string \<Rightarrow> user" where
  "new_user req hash =
     \<lparr>us_id = 0, us_username = rr_username req, us_password_hash = hash, us_email = rr_email req, us_phone = rr_phone req,
      us_status = 1, us_last_login_at = None, us_created_at = [], us_updated_at = []\<rparr>"

text \<open>The steps 3 to 5 of \<open>Register\<close>, after the two uniqueness checks.\<close>

definition register_insert ::
  "'w services \<Rightarrow> 'w auth_env \<Rightarrow> register_request \<Rightarrow> auth_service \<times> 'w \<Rightarrow>
     ((goerr + token_response) \<times> auth_service \<times> 'w) option" where
  "register_insert S A req = (\<lambda>(au, w).
     case ae_hash A (rr_password req) w of
       (Inl e, w1) \<Rightarrow> Some (Inl (Wrap ''hash password'' e), au, w1)
     | (Inr hash, w1) \<Rightarrow>
         (case insert_user A (new_user req hash) (au_repo au, w1) of
            None \<Rightarrow> None
          | Some (Inl e, db, w2) \<Rightarrow>
              Some (Inl (if str_contains (err_text e) ''Duplicate'' then err_user_exists else Wrap ''insert user'' e),
                au\<lparr>au_repo := db\<rparr>, w2)
          | Some (Inr user_id, db, w2) \<Rightarrow>
              (let au1 = au\<lparr>au_repo := db\<rparr>
               in case generate_token S A user_id (rr_username req) (au1, w2) of
                    (Inl e, w3) \<Rightarrow> Some (Inl e, au1, w3)
                  | (Inr t, w3) \<Rightarrow> Some (Inr (token_for user_id (rr_username req) t), au1, w3))))"

definition register ::
  "'w services \<Rightarrow> 'w auth_env \<Rightarrow> register_request \<Rightarrow> auth_service \<times> 'w \<Rightarrow>
     ((goerr + token_response) \<times> auth_service \<times> 'w) option" where
  "register S A req = (\<lambda>(au, w).
     case get_by_username A (rr_username req) (au_repo au, w) of
       None \<Rightarrow> None
     | Some (r, db, w1) \<Rightarrow>
         (let au1 = au\<lparr>au_repo := db\<rparr>
          in case r of
               Inl e \<Rightarrow> Some (Inl (Wrap ''check username'' e), au1, w1)
             | Inr (Some u) \<Rightarrow> Some (Inl err_user_exists, au1, w1)
             | Inr None \<Rightarrow>
                 if rr_email req \<noteq> [] then
                   (case get_by_email A (rr_email req) (db, w1) of
                      None \<Rightarrow> None
                    | Some (r2, db2, w2) \<Rightarrow>
                        (let au2 = au1\<lparr>au_repo := db2\<rparr>
                         in case r2 of
                              Inl e \<Rightarrow> Some (Inl (Wrap ''check email'' e), au2, w2)
                            | Inr (Some u) \<Rightarrow> Some (Inl err_email_exists, au2, w2)
                            | Inr None \<Rightarrow> register_insert S A req (au2, w2)))
                 else register_insert S A req (au1, w1)))"

definition login ::
  "'w services \<Rightarrow> 'w auth_env \<Rightarrow> login_request \<Rightarrow> auth_service \<times> 'w \<Rightarrow>
     ((goerr + token_response) \<times> auth_service \<times> 'w) option" where
  "login S A req = (\<lambda>(au, w).
     case get_by_username A (lr_username req) (au_repo au, w) of
       None \<Rightarrow> None
     | Some (r, db, w1) \<Rightarrow>
         (let au1 = au\<lparr>au_repo := db\<rparr>
          in case r of
               Inl e \<Rightarrow> Some (Inl (Wrap ''query user'' e), au1, w1)
             | Inr None \<Rightarrow> Some (Inl err_invalid_login, au1, w1)
             | Inr (Some u) \<Rightarrow>
                 if us_status u \<noteq> 1 then Some (Inl err_user_disabled, au1, w1)
                 else if ae_compare A (us_password_hash u) (lr_password req) \<noteq> None then Some (Inl err_invalid_login, au1, w1)
                 else
                   (case generate_token S A (us_id u) (us_username u) (au1, w1) of
                      (Inl e, w2) \<Rightarrow> Some (Inl e, au1, w2)
                    | (Inr t, w2) \<Rightarrow>
                        Some (Inr (token_for (us_id u) (us_username u) t),
                          au1\<lparr>au_pending := au_pending au1 @ [us_id u]\<rparr>, w2))))"

text \<open>The goroutine that writes a login time; a panic in it would end the program.\<close>

definition run_login_task :: "'w services \<Rightarrow> nat \<Rightarrow> auth_service \<times> 'w \<Rightarrow> (auth_service \<times> 'w) option" where
  "run_login_task S i = (\<lambda>(au, w).
     if i < length (au_pending au)
     then (case update_last_login_at S (au_pending au ! i) (au_repo au, w) of
             None \<Rightarrow> None
           | Some (e, w1) \<Rightarrow> Some (au\<lparr>au_pending := take i (au_pending au) @ drop (Suc i) (au_pending au)\<rparr>, w1))
     else Some (au, w))"

definition get_user_info ::
  "'w auth_env \<Rightarrow> int \<Rightarrow> auth_service \<times> 'w \<Rightarrow> ((goerr + user) \<times> auth_service \<times> 'w) option" where
  "get_user_info A user_id = (\<lambda>(au, w).
     case get_by_id A user_id (au_repo au, w) of
       None \<Rightarrow> None
     | Some (r, db, w1) \<Rightarrow>
         Some (case r of
                 Inl e \<Rightarrow> Inl (Wrap ''query user'' e)
               | Inr None \<Rightarrow> Inl err_user_not_found
               | Inr (Some u) \<Rightarrow> Inr (u\<lparr>us_password_hash := []\<rparr>), au\<lparr>au_repo := db\<rparr>, w1))"

subsection \<open>Tokens\<close>

text \<open>\<open>uint64(x)\<close>; out of range the result is the platform's, here amd64's.\<close>

definition f_to_uint64 :: "f64 \<Rightarrow> int" where
  "f_to_uint64 x =
     (if f_trunc x < 2 ^ 63 then f_to_int64 x mod 2 ^ 64 else if f_trunc x < 2 ^ 64 then f_trunc x else 2 ^ 63)"

definition claim :: "gval \<Rightarrow> string \<Rightarrow> gval option" where
  "claim v name = (case v of GMap kvs \<Rightarrow> map_of (rev kvs) name | _ \<Rightarrow> None)"

definition key_func :: "auth_service \<Rightarrow> jwt_token \<Rightarrow> goerr + string" where
  "key_func au t =
     (case jt_method t of
        MethodHMAC alg \<Rightarrow> Inr (au_jwt_secret au)
      | OtherMethod alg \<Rightarrow> Inl (Errorf (''unexpected signing method: '' @ alg)))"

definition token_identity :: "jwt_token \<Rightarrow> goerr + int \<times> string" where
  "token_identity t =
     (if \<not> jt_valid t then Inl err_invalid_token
      else
        (case claim (jt_claims t) ''user_id'' of
           Some (GNum x) \<Rightarrow>
             Inr (f_to_uint64 x, case claim (jt_claims t) ''username'' of Some (GStr s) \<Rightarrow> s | _ \<Rightarrow> [])
         | _ \<Rightarrow> Inl err_invalid_token))"

definition parse_token :: "'w services \<Rightarrow> 'w auth_env \<Rightarrow> string \<Rightarrow> auth_service \<times> 'w \<Rightarrow> (goerr + int \<times> string) \<times> 'w" where
  "parse_token S A tok = (\<lambda>(au, w).
     case sv_now S w of (now, w1) \<Rightarrow>
       (case ae_parse A tok (key_func au) now of
          Inl e \<Rightarrow> (Inl err_invalid_token, w1)
        | Inr t \<Rightarrow> (token_identity t, w1)))"

subsection \<open>Middleware (internal/middleware/auth.go)\<close>

text \<open>\<open>strings.SplitN(h, " ", 2)\<close> and the comparison of the first part, ASCII case ignored.\<close>

definition bearer_token :: "string \<Rightarrow> string" where
  "bearer_token h =
     (let scheme = takeWhile (\<lambda>c. c \<noteq> CHR '' '') h
      in if scheme \<noteq> h \<and> to_lower scheme = ''bearer'' then drop (Suc (length scheme)) h else h)"

definition unauthorized :: "string \<Rightarrow> 'd gin \<Rightarrow> 'd gin" where
  "unauthorized msg c = c_abort (c_json 401 (reply 401 msg None (get_trace_id c)) c)"

text \<open>\<open>au_of\<close> is where the state of the server has the authentication service.\<close>

definition jwt_auth ::
  "'w services \<Rightarrow> 'w auth_env \<Rightarrow> ('s \<Rightarrow> auth_service) \<Rightarrow> ('d, 's \<times> 'w) http_handler \<Rightarrow> ('d, 's \<times> 'w) http_handler" where
  "jwt_auth S A au_of next_handler = (\<lambda>(c, s, w).
     let h = get_header c ''Authorization''
     in if h = [] then Some (unauthorized ''missing authorization header'' c, s, w)
        else
          (case parse_token S A (bearer_token h) (au_of s, w) of
             (Inl e, w1) \<Rightarrow> Some (unauthorized ''invalid or expired token'' c, s, w1)
           | (Inr (user_id, username), w1) \<Rightarrow>
               next_handler (c\<lparr>gn_user_id := Some user_id, gn_username := Some username\<rparr>, s, w1)))"

definition get_user_id :: "'d gin \<Rightarrow> int" where
  "get_user_id c = (case gn_user_id c of None \<Rightarrow> 0 | Some i \<Rightarrow> i)"

definition get_username :: "'d gin \<Rightarrow> string" where
  "get_username c = (case gn_username c of None \<Rightarrow> [] | Some n \<Rightarrow> n)"

subsection \<open>Handlers (internal/handler/auth_handler.go)\<close>

datatype auth_data = DToken token_response | DUser user

definition register_member :: "string \<times> json \<Rightarrow> goerr option \<times> register_request \<Rightarrow> goerr option \<times> register_request" where
  "register_member = (\<lambda>(k, v) es.
     if k = ''username'' then set_field as_str (\<lambda>a r. r\<lparr>rr_username := a\<rparr>) v es
     else if k = ''password'' then set_field as_str (\<lambda>a r. r\<lparr>rr_password := a\<rparr>) v es
     else if k = ''email'' then set_field as_str (\<lambda>a r. r\<lparr>rr_email := a\<rparr>) v es
     else if k = ''phone'' then set_field as_str (\<lambda>a r. r\<lparr>rr_phone := a\<rparr>) v es
     else es)"

definition unmarshal_register :: "json \<Rightarrow> goerr option \<times> register_request" where
  "unmarshal_register j =
     unmarshal_struct register_member \<lparr>rr_username = [], rr_password = [], rr_email = [], rr_phone = []\<rparr> j"

definition login_member :: "string \<times> json \<Rightarrow> goerr option \<times> login_request \<Rightarrow> goerr option \<times> login_request" where
  "login_member = (\<lambda>(k, v) es.
     if k = ''username'' then set_field as_str (\<lambda>a r. r\<lparr>lr_username := a\<rparr>) v es
     else if k = ''password'' then set_field as_str (\<lambda>a r. r\<lparr>lr_password := a\<rparr>) v es
     else es)"

definition unmarshal_login :: "json \<Rightarrow> goerr option \<times> login_request" where
  "unmarshal_login j = unmarshal_struct login_member \<lparr>lr_username = [], lr_password = []\<rparr> j"

text \<open>\<open>valid\<close> is \<open>validator.Struct\<close>.\<close>

definition register_handler ::
  "'w services \<Rightarrow> 'w auth_env \<Rightarrow> (register_request \<Rightarrow> goerr option) \<Rightarrow> (auth_data, auth_service \<times> 'w) http_handler" where
  "register_handler S A valid = (\<lambda>(c, au, w).
     let tid = get_trace_id c; fail = (\<lambda>n msg. c_json n (reply (int n) msg None tid) c)
     in case bind_json unmarshal_register c of
          Inl e \<Rightarrow> Some (fail 400 ''invalid request body'', au, w)
        | Inr req \<Rightarrow>
            (case valid req of
               Some e \<Rightarrow> Some (fail 400 (err_text e), au, w)
             | None \<Rightarrow>
                 (case register S A req (au, w) of
                    None \<Rightarrow> None
                  | Some (Inl e, au1, w1) \<Rightarrow>
                      Some (if e = err_user_exists then fail 409 ''username already exists''
                            else if e = err_email_exists then fail 409 ''email already exists''
                            else fail 500 ''internal server error'', au1, w1)
                  | Some (Inr r, au1, w1) \<Rightarrow>
                      Some (c_json 200 (reply 200 ''register success'' (Some (DToken r)) tid) c, au1, w1))))"

definition login_handler ::
  "'w services \<Rightarrow> 'w auth_env \<Rightarrow> (login_request \<Rightarrow> goerr option) \<Rightarrow> (auth_data, auth_service \<times> 'w) http_handler" where
  "login_handler S A valid = (\<lambda>(c, au, w).
     let tid = get_trace_id c; fail = (\<lambda>n msg. c_json n (reply (int n) msg None tid) c)
     in case bind_json unmarshal_login c of
          Inl e \<Rightarrow> Some (fail 400 ''invalid request body'', au, w)
        | Inr req \<Rightarrow>
            (case valid req of
               Some e \<Rightarrow> Some (fail 400 (err_text e), au, w)
             | None \<Rightarrow>
                 (case login S A req (au, w) of
                    None \<Rightarrow> None
                  | Some (Inl e, au1, w1) \<Rightarrow>
                      Some (if e = err_invalid_login then fail 401 ''invalid username or password''
                            else if e = err_user_disabled then fail 403 ''user account is disabled''
                            else fail 500 ''internal server error'', au1, w1)
                  | Some (Inr r, au1, w1) \<Rightarrow>
                      Some (c_json 200 (reply 200 ''login success'' (Some (DToken r)) tid) c, au1, w1))))"

definition get_me_handler :: "'w auth_env \<Rightarrow> (auth_data, auth_service \<times> 'w) http_handler" where
  "get_me_handler A = (\<lambda>(c, au, w).
     let tid = get_trace_id c; fail = (\<lambda>n msg. c_json n (reply (int n) msg None tid) c)
     in case get_user_info A (get_user_id c) (au, w) of
          None \<Rightarrow> None
        | Some (Inl e, au1, w1) \<Rightarrow>
            Some (if e = err_user_not_found then fail 404 ''user not found'' else fail 500 ''internal server error'', au1, w1)
        | Some (Inr u, au1, w1) \<Rightarrow> Some (c_json 200 (reply 200 ''success'' (Some (DUser u)) tid) c, au1, w1))"

section \<open>Tokens\<close>

text \<open>
  The documented behaviour of the JWT library. \<open>carries tok\<close> is the method and the claims a token
  has, \<open>sig m key tok\<close> that its signature verifies. \<open>Parse\<close> accepts only a token whose signature
  verifies with the key the key function gives for it; a signed token carries its claims as
  JSON; a token that verifies and has no \<open>nbf\<close> is accepted before its \<open>exp\<close>.
\<close>

definition jwt_ok :: "'w auth_env \<Rightarrow> (string \<Rightarrow> (signing_method \<times> gval) option) \<Rightarrow> (signing_method \<Rightarrow> string \<Rightarrow> string \<Rightarrow> bool) \<Rightarrow> bool" where
  "jwt_ok A carries sig \<longleftrightarrow>
     (\<forall>tok kf now t. ae_parse A tok kf now = Inr t \<longrightarrow>
        jt_valid t \<and> carries tok = Some (jt_method t, jt_claims t) \<and>
        (\<exists>key. kf (t\<lparr>jt_valid := False\<rparr>) = Inr key \<and> sig (jt_method t) key tok)) \<and>
     (\<forall>m cl key tok. ae_sign A m cl key = Inr tok \<longrightarrow>
        carries tok = Some (m, unmarshal_any (marshal cl)) \<and> sig m key tok) \<and>
     (\<forall>tok m cl kf key now e. carries tok = Some (m, cl) \<longrightarrow>
        kf \<lparr>jt_method = m, jt_claims = cl, jt_valid = False\<rparr> = Inr key \<longrightarrow> sig m key tok \<longrightarrow>
        claim cl ''exp'' = Some (GNum (of_int e)) \<longrightarrow> claim cl ''nbf'' = None \<longrightarrow> now < e * second \<longrightarrow>
        ae_parse A tok kf now = Inr \<lparr>jt_method = m, jt_claims = cl, jt_valid = True\<rparr>)"

lemma jwt_parse_sound:
  assumes "jwt_ok A carries sig" "ae_parse A tok kf now = Inr t"
  shows "jt_valid t" "carries tok = Some (jt_method t, jt_claims t)"
    "\<exists>key. kf (t\<lparr>jt_valid := False\<rparr>) = Inr key \<and> sig (jt_method t) key tok"
  using assms unfolding jwt_ok_def by blast+

lemma jwt_sign_carries:
  assumes "jwt_ok A carries sig" "ae_sign A m cl key = Inr tok"
  shows "carries tok = Some (m, unmarshal_any (marshal cl))" "sig m key tok"
  using assms unfolding jwt_ok_def by blast+

lemma jwt_parse_complete:
  assumes "jwt_ok A carries sig" "carries tok = Some (m, cl)" "kf \<lparr>jt_method = m, jt_claims = cl, jt_valid = False\<rparr> = Inr key"
    "sig m key tok" "claim cl ''exp'' = Some (GNum (of_int e))" "claim cl ''nbf'' = None" "now < e * second"
  shows "ae_parse A tok kf now = Inr \<lparr>jt_method = m, jt_claims = cl, jt_valid = True\<rparr>"
  using assms(1) unfolding jwt_ok_def
  by (elim conjE) (drule spec [of _ tok], drule spec [of _ m], drule spec [of _ cl], drule spec [of _ kf], drule spec [of _ key],
      drule spec [of _ now], drule spec [of _ e], use assms(2-7) in blast)

text \<open>The claims on the way through JSON: numbers become \<open>float64\<close>.\<close>

lemma token_claims_json:
  "unmarshal_any (marshal (token_claims user_id username now e)) =
     GMap [(''exp'', GNum (fl (of_int (e div second)))), (''iat'', GNum (fl (of_int (now div second)))),
       (''user_id'', GNum (fl (of_int user_id))), (''username'', GStr username)]"
  by (simp add: token_claims_def)

lemma fl_small: "\<bar>n\<bar> \<le> 2 ^ 53 \<Longrightarrow> fl (of_int n) = (of_int n :: rat)"
  by (rule fl_of_int)

lemma f_to_uint64_of_int: "0 \<le> n \<Longrightarrow> n < 2 ^ 64 \<Longrightarrow> f_to_uint64 (of_int n) = n"
  by (simp add: f_to_uint64_def f_to_int64_def f_trunc_def in64_def)

lemma signed_token_parses:
  assumes "jwt_ok A carries sig"
    and "ae_sign A (MethodHMAC ''HS256'') (token_claims user_id username now e) (au_jwt_secret au) = Inr tok"
    and "0 \<le> user_id" "user_id \<le> 2 ^ 53" "0 \<le> e" "e < 2 ^ 53 * second" "fst (sv_now S u) < e div second * second"
  shows "parse_token S A tok (au, u) = (Inr (user_id, username), snd (sv_now S u))"
proof -
  let ?cl = "token_claims user_id username now e"
  have "\<bar>e div second\<bar> \<le> 2 ^ 53" using assms(5,6) by (simp add: second_def)
  then have e: "claim (unmarshal_any (marshal ?cl)) ''exp'' = Some (GNum (of_int (e div second)))"
    by (simp add: token_claims_json claim_def fl_small)
  have nbf: "claim (unmarshal_any (marshal ?cl)) ''nbf'' = None" by (simp add: token_claims_json claim_def)
  have "ae_parse A tok (key_func au) (fst (sv_now S u)) =
      Inr \<lparr>jt_method = MethodHMAC ''HS256'', jt_claims = unmarshal_any (marshal ?cl), jt_valid = True\<rparr>"
    by (rule jwt_parse_complete [OF assms(1) jwt_sign_carries(1) [OF assms(1,2)] _ jwt_sign_carries(2) [OF assms(1,2)] e nbf assms(7)])
      (simp add: key_func_def)
  moreover have "f_to_uint64 (fl (of_int user_id)) = user_id"
    using assms(3,4) by (simp add: fl_small f_to_uint64_of_int)
  ultimately show ?thesis
    by (simp add: parse_token_def token_identity_def token_claims_json claim_def split_beta)
qed

lemma generated_token_signed:
  assumes "generate_token S A user_id username (au, w) = (Inr (tok, expires_in), w1)"
  shows "ae_sign A (MethodHMAC ''HS256'') (token_claims user_id username (fst (sv_now S w)) (fst (sv_now S w) + au_jwt_expire au))
      (au_jwt_secret au) = Inr tok" "w1 = snd (sv_now S w)"
  using assms by (auto simp: generate_token_def split: prod.splits sum.splits)

text \<open>
  ParseToken gives back the user id and name generateToken put into a token, for ids up to 2^53
  and until the expiry in whole seconds.
\<close>

theorem token_roundtrip:
  assumes "jwt_ok A carries sig" "generate_token S A user_id username (au, w) = (Inr (tok, expires_in), w1)"
    and "0 \<le> user_id" "user_id \<le> 2 ^ 53" "fst (sv_now S w) + au_jwt_expire au < 2 ^ 53 * second" "0 \<le> fst (sv_now S w) + au_jwt_expire au"
    and "fst (sv_now S u) < (fst (sv_now S w) + au_jwt_expire au) div second * second"
  shows "parse_token S A tok (au, u) = (Inr (user_id, username), snd (sv_now S u))"
  by (rule signed_token_parses [OF assms(1) generated_token_signed(1) [OF assms(2)] assms(3,4,6,5,7)])

lemma jwt_auth_cases:
  assumes "jwt_ok A carries sig"
  shows "(\<exists>msg w1. \<forall>h. jwt_auth S A au_of h (c, s, w) = Some (unauthorized msg c, s, w1)) \<or>
    (\<exists>alg cl x user_id username w1.
       carries (bearer_token (get_header c ''Authorization'')) = Some (MethodHMAC alg, cl) \<and>
       sig (MethodHMAC alg) (au_jwt_secret (au_of s)) (bearer_token (get_header c ''Authorization'')) \<and>
       claim cl ''user_id'' = Some (GNum x) \<and> user_id = f_to_uint64 x \<and>
       (\<forall>h. jwt_auth S A au_of h (c, s, w) = h (c\<lparr>gn_user_id := Some user_id, gn_username := Some username\<rparr>, s, w1)))"
proof (cases "get_header c ''Authorization'' = []")
  case True
  then show ?thesis by (auto simp: jwt_auth_def Let_def)
next
  case False
  let ?tok = "bearer_token (get_header c ''Authorization'')"
  obtain r w1 where r: "parse_token S A ?tok (au_of s, w) = (r, w1)" by force
  show ?thesis
  proof (cases r)
    case (Inl e)
    with r False show ?thesis by (auto simp: jwt_auth_def Let_def)
  next
    case (Inr i)
    obtain user_id username where i: "i = (user_id, username)" by force
    obtain t now where t: "ae_parse A ?tok (key_func (au_of s)) now = Inr t" "token_identity t = Inr i"
      using r Inr by (auto simp: parse_token_def split: prod.splits sum.splits)
    note p = jwt_parse_sound [OF assms t(1)]
    obtain key where key: "key_func (au_of s) (t\<lparr>jt_valid := False\<rparr>) = Inr key" "sig (jt_method t) key ?tok" using p(3) by blast
    obtain alg where alg: "jt_method t = MethodHMAC alg" "key = au_jwt_secret (au_of s)"
      using key(1) by (auto simp: key_func_def split: signing_method.splits)
    obtain x where x: "claim (jt_claims t) ''user_id'' = Some (GNum x)" "user_id = f_to_uint64 x"
      using t(2) i p(1) by (auto simp: token_identity_def split: option.splits gval.splits)
    have "jwt_auth S A au_of h (c, s, w) = h (c\<lparr>gn_user_id := Some user_id, gn_username := Some username\<rparr>, s, w1)" for h
      using False r Inr i by (simp add: jwt_auth_def Let_def)
    with p(2) key(2) alg x show ?thesis by (intro disjI2) auto
  qed
qed

text \<open>
  Behind the middleware a handler runs only with the identity that a token with an HMAC
  signature under the service's secret carries; other requests are answered with 401.
\<close>

text \<open>The handler after the middleware runs with the identity of a signed token, or not at all.\<close>

theorem authenticated_identity_is_signed:
  assumes "jwt_ok A carries sig"
  shows "(\<exists>msg w1. \<forall>h. jwt_auth S A au_of h (c, s, w) = Some (unauthorized msg c, s, w1)) \<or>
    (\<exists>alg cl x user_id username w1.
       carries (bearer_token (get_header c ''Authorization'')) = Some (MethodHMAC alg, cl) \<and>
       sig (MethodHMAC alg) (au_jwt_secret (au_of s)) (bearer_token (get_header c ''Authorization'')) \<and>
       claim cl ''user_id'' = Some (GNum x) \<and> user_id = f_to_uint64 x \<and>
       (\<forall>h. jwt_auth S A au_of h (c, s, w) = h (c\<lparr>gn_user_id := Some user_id, gn_username := Some username\<rparr>, s, w1)))"
  by (rule jwt_auth_cases [OF assms])

section \<open>Registration and login\<close>

text \<open>
  The table by user name. \<open>synced h w\<close> says that the database behind the handle \<open>h\<close> answers in
  \<open>w\<close> and has the current table: then a query by name gives the row; of a replica that lags or a
  connection that fails nothing is known. The name is a unique key: an insert succeeds only for a
  free name, and then adds the row with the id it returns. What bcrypt hashed compares equal to
  the password.
\<close>

definition by_name_sql :: string where
  "by_name_sql = user_columns_sql @ ''username'' @ '' = ?''"

definition users_ok ::
  "'w services \<Rightarrow> 'w auth_env \<Rightarrow> (nat \<Rightarrow> 'w \<Rightarrow> bool) \<Rightarrow> ('w \<Rightarrow> string \<Rightarrow> user option) \<Rightarrow> bool" where
  "users_ok S A synced users \<longleftrightarrow>
     (\<forall>w. users (snd (sv_now S w)) = users w) \<and>
     (\<forall>h q args w. users (snd (ae_user_row A h q args w)) = users w) \<and>
     (\<forall>h name w. synced h w \<longrightarrow> fst (ae_user_row A h by_name_sql [GStr name] w) =
        (case users w name of None \<Rightarrow> Inl sql_no_rows | Some u \<Rightarrow> Inr u)) \<and>
     (\<forall>h u w i. fst (ae_insert A h insert_user_sql (user_args u) w) = Inr (Inr i) \<longrightarrow>
        0 \<le> i \<and> i < 2 ^ 63 \<and> users w (us_username u) = None \<and>
        (\<exists>u'. us_id u' = i \<and> us_username u' = us_username u \<and> us_password_hash u' = us_password_hash u \<and>
          us_email u' = us_email u \<and> us_status u' = us_status u \<and>
          users (snd (ae_insert A h insert_user_sql (user_args u) w)) (us_username u) = Some u')) \<and>
     (\<forall>p w. users (snd (ae_hash A p w)) = users w) \<and>
     (\<forall>p w hash. fst (ae_hash A p w) = Inr hash \<longrightarrow> ae_compare A hash p = None)"

lemma users_okD:
  assumes "users_ok S A synced users"
  shows "users (snd (sv_now S w)) = users w" "users (snd (ae_user_row A h q args w)) = users w"
    "synced h w \<Longrightarrow> fst (ae_user_row A h by_name_sql [GStr name] w) = (case users w name of None \<Rightarrow> Inl sql_no_rows | Some u \<Rightarrow> Inr u)"
    "users (snd (ae_hash A p w)) = users w" "fst (ae_hash A p w) = Inr hash \<Longrightarrow> ae_compare A hash p = None"
  using assms by (simp_all add: users_ok_def)

lemma users_insert:
  assumes "users_ok S A synced users" "ae_insert A h insert_user_sql (user_args u) w = (Inr (Inr i), w1)"
  shows "0 \<le> i" "i < 2 ^ 63" "users w (us_username u) = None"
    "\<exists>u'. us_id u' = i \<and> us_username u' = us_username u \<and> us_password_hash u' = us_password_hash u \<and>
    us_email u' = us_email u \<and> us_status u' = us_status u \<and> users w1 (us_username u) = Some u'"
  using assms unfolding users_ok_def by (metis fst_conv snd_conv)+

text \<open>A pool with a master answers queries.\<close>

definition repo_live :: "rwdb option \<Rightarrow> bool" where
  "repo_live db \<longleftrightarrow> (\<exists>rw m. db = Some rw \<and> rw_master rw = Some m)"

lemma replica_live:
  assumes "rw_master rw = Some m"
  shows "\<exists>h rw1. rw_replica rw = (Some h, rw1) \<and> rw_master rw1 = Some m"
  using assms by (simp add: rw_replica_def Let_def)

lemma query_user_live:
  assumes "users_ok S A synced users" "repo_live db"
  shows "\<exists>h db' w'. asked_handle db = Some h \<and> repo_live db' \<and> users w' = users w \<and>
    query_user A cond arg ctx (db, w) =
      Some (case fst (ae_user_row A h (user_columns_sql @ cond @ '' = ?'') [arg] w) of
              Inl e \<Rightarrow> if e = sql_no_rows then Inr None else Inl (Wrap ctx e)
            | Inr u \<Rightarrow> Inr (Some u), db', w')"
proof -
  obtain rw m where rw: "db = Some rw" "rw_master rw = Some m" using assms(2) by (auto simp: repo_live_def)
  obtain h rw1 where h: "rw_replica rw = (Some h, rw1)" "rw_master rw1 = Some m" using replica_live [OF rw(2)] by blast
  obtain r w1 where r: "ae_user_row A h (user_columns_sql @ cond @ '' = ?'') [arg] w = (r, w1)" by force
  have "users w1 = users w"
    using users_okD(2) [OF assms(1), of h "user_columns_sql @ cond @ '' = ?''" "[arg]" w] r by simp
  moreover have "repo_live (Some rw1)" using h(2) by (simp add: repo_live_def)
  ultimately show ?thesis using rw h r
    by (intro exI [of _ h] exI [of _ "Some rw1"] exI [of _ w1]) (auto simp: query_user_def asked_handle_def split: sum.split)
qed

lemma get_by_username_live:
  assumes "users_ok S A synced users" "repo_live db" "\<forall>h. asked_handle db = Some h \<longrightarrow> synced h w"
  shows "\<exists>db' w'. get_by_username A name (db, w) = Some (Inr (users w name), db', w') \<and> repo_live db' \<and> users w' = users w"
proof -
  obtain h db' w' where h: "asked_handle db = Some h" "repo_live db'" "users w' = users w"
    "get_by_username A name (db, w) =
      Some (case fst (ae_user_row A h by_name_sql [GStr name] w) of
              Inl e \<Rightarrow> if e = sql_no_rows then Inr None else Inl (Wrap ''query user by username'' e)
            | Inr u \<Rightarrow> Inr (Some u), db', w')"
    using query_user_live [OF assms(1,2), of w "''username''" "GStr name" "''query user by username''"]
    unfolding get_by_username_def by_name_sql_def by blast
  have "synced h w" using assms(3) h(1) by blast
  with users_okD(3) [OF assms(1) this, of name] h show ?thesis by (auto split: option.split)
qed

text \<open>What a successful registration leaves behind.\<close>

definition added :: "register_request \<Rightarrow> int \<Rightarrow> string \<Rightarrow> user \<Rightarrow> bool" where
  "added req i hash u \<longleftrightarrow> us_id u = i \<and> us_username u = rr_username req \<and> us_password_hash u = hash \<and>
     us_email u = rr_email req \<and> us_status u = 1"

lemma register_insert_success:
  assumes "users_ok S A synced users" "register_insert S A req (au, w) = Some (Inr r, au', w')" "repo_live (au_repo au)"
  shows "users w (rr_username req) = None \<and>
    (\<exists>u hash. added req (tr_user_id r) hash u \<and> ae_compare A hash (rr_password req) = None \<and>
       users w' (rr_username req) = Some u \<and> repo_live (au_repo au') \<and> au_jwt_secret au' = au_jwt_secret au)"
proof -
  obtain rw m where rw: "au_repo au = Some rw" "rw_master rw = Some m" using assms(3) by (auto simp: repo_live_def)
  obtain hr w1 where hr: "ae_hash A (rr_password req) w = (hr, w1)" by force
  obtain hash where hash: "hr = Inr hash" using assms(2) hr by (cases hr) (auto simp: register_insert_def)
  obtain ir w2 where ir: "ae_insert A m insert_user_sql (user_args (new_user req hash)) w1 = (ir, w2)" by force
  obtain i where i: "ir = Inr (Inr i)"
    using assms(2) hr hash ir rw by (auto simp: register_insert_def insert_user_def split: sum.splits)
  note ins = users_insert [OF assms(1) ir [unfolded i]]
  have i64: "i mod 2 ^ 64 = i" using ins(1,2) by simp
  obtain t w3 where t: "generate_token S A i (rr_username req) (au, w2) = (t, w3)" by force
  have "generate_token S A i (rr_username req) (au\<lparr>au_repo := Some rw\<rparr>, w2) = (t, w3)"
    using t rw(1) by (cases au) simp
  then have "r = token_for i (rr_username req) (projr t)" "w' = w3" "au' = au\<lparr>au_repo := Some rw\<rparr>" "tr_user_id r = i"
    using assms(2) hr hash ir i i64 rw
    by (auto simp: register_insert_def insert_user_def token_for_def Let_def split: sum.splits prod.splits)
  moreover have "w3 = snd (sv_now S w2)" using t by (auto simp: generate_token_def split: prod.splits sum.splits)
  then have "users w3 = users w2" using users_okD(1) [OF assms(1)] by simp
  moreover have "users w1 = users w" "ae_compare A hash (rr_password req) = None"
    using users_okD(4) [OF assms(1), of "rr_password req" w] users_okD(5) [OF assms(1), of "rr_password req" w hash] hr hash
    by simp_all
  ultimately show ?thesis using ins(3,4) rw by (auto simp: new_user_def repo_live_def added_def)
qed

lemma register_success:
  assumes "users_ok S A synced users" "register S A req (au, w) = Some (Inr r, au', w')" "repo_live (au_repo au)"
  shows "users w (rr_username req) = None \<and>
    (\<exists>u hash. added req (tr_user_id r) hash u \<and> ae_compare A hash (rr_password req) = None \<and>
       users w' (rr_username req) = Some u \<and> repo_live (au_repo au') \<and> au_jwt_secret au' = au_jwt_secret au)"
proof -
  obtain q db w1 where g: "get_by_username A (rr_username req) (au_repo au, w) = Some (q, db, w1)" "repo_live db" "users w1 = users w"
    using query_user_live [OF assms(1,3), of w "''username''" "GStr (rr_username req)" "''query user by username''"]
    unfolding get_by_username_def by blast
  let ?au = "au\<lparr>au_repo := db\<rparr>"
  consider (no_email) "register_insert S A req (?au, w1) = Some (Inr r, au', w')"
    | (email) db2 w2 where "get_by_email A (rr_email req) (db, w1) = Some (Inr None, db2, w2)"
        "register_insert S A req (?au\<lparr>au_repo := db2\<rparr>, w2) = Some (Inr r, au', w')"
    using assms(2) g(1) by (auto simp: register_def Let_def split: option.splits sum.splits if_splits)
  then show ?thesis
  proof cases
    case no_email
    from register_insert_success [OF assms(1) this] g(2,3) show ?thesis by simp
  next
    case email
    have "repo_live db2" "users w2 = users w1"
      using query_user_live [OF assms(1) g(2), of w1 "''email''" "GStr (rr_email req)" "''query user by email''"] email(1)
      unfolding get_by_email_def by auto
    then show ?thesis using register_insert_success [OF assms(1) email(2)] g(3) by simp
  qed
qed

text \<open>Login decides by the row, its status and the password, in this order.\<close>

lemma login_live:
  assumes "users_ok S A synced users" "repo_live (au_repo au)" "\<forall>h. asked_handle (au_repo au) = Some h \<longrightarrow> synced h w"
  shows "\<exists>r au' w'. login S A req (au, w) = Some (r, au', w') \<and>
    (case users w (lr_username req) of
       None \<Rightarrow> r = Inl err_invalid_login
     | Some u \<Rightarrow>
         if us_status u \<noteq> 1 then r = Inl err_user_disabled
         else if ae_compare A (us_password_hash u) (lr_password req) \<noteq> None then r = Inl err_invalid_login
         else (\<exists>t. r = Inr t \<and> tr_user_id t = us_id u \<and> tr_username t = us_username u) \<or> (\<exists>e. r = Inl (Wrap ''sign token'' e)))"
proof -
  obtain db w1 where g: "get_by_username A (lr_username req) (au_repo au, w) = Some (Inr (users w (lr_username req)), db, w1)"
    using get_by_username_live [OF assms] by blast
  show ?thesis
  proof (cases "users w (lr_username req)")
    case None
    with g show ?thesis by (simp add: login_def Let_def)
  next
    case (Some u)
    obtain t w2 where t: "generate_token S A (us_id u) (us_username u) (au\<lparr>au_repo := db\<rparr>, w1) = (t, w2)" by force
    have "(\<exists>e. t = Inl (Wrap ''sign token'' e)) \<or> (\<exists>x. t = Inr x)"
      using t by (auto simp: generate_token_def split: prod.splits sum.splits)
    with g Some t show ?thesis by (auto simp: login_def Let_def token_for_def split: prod.splits)
  qed
qed

text \<open>A replica without the row makes the login fail like a wrong name.\<close>

lemma login_unseen:
  assumes "users_ok S A synced users" "repo_live (au_repo au)"
    and "\<forall>h. asked_handle (au_repo au) = Some h \<longrightarrow> fst (ae_user_row A h by_name_sql [GStr (lr_username req)] w) = Inl sql_no_rows"
  shows "\<exists>au' w'. login S A req (au, w) = Some (Inl err_invalid_login, au', w')"
  using query_user_live [OF assms(1,2), of w "''username''" "GStr (lr_username req)" "''query user by username''"] assms(3)
  by (auto simp: login_def get_by_username_def by_name_sql_def Let_def)

text \<open>
  C34: When the database handle that the query goes to answers and has caught up, a login returns and
  is decided by the row of the name, its status and its password, in this order: no row or a wrong
  password is answered with the one error for invalid credentials, an account that is not active
  with the error for disabled accounts, and else the token is for the id and the name of the row
  (or signing it fails).
\<close>

theorem login_decides:
  assumes "users_ok S A synced users" "repo_live (au_repo au)" "\<forall>h. asked_handle (au_repo au) = Some h \<longrightarrow> synced h w"
  shows "\<exists>r au' w'. login S A req (au, w) = Some (r, au', w') \<and>
    (case users w (lr_username req) of
       None \<Rightarrow> r = Inl err_invalid_login
     | Some u \<Rightarrow>
         if us_status u \<noteq> 1 then r = Inl err_user_disabled
         else if ae_compare A (us_password_hash u) (lr_password req) \<noteq> None then r = Inl err_invalid_login
         else (\<exists>t. r = Inr t \<and> tr_user_id t = us_id u \<and> tr_username t = us_username u) \<or> (\<exists>e. r = Inl (Wrap ''sign token'' e)))"
  by (rule login_live [OF assms])

text \<open>
  C20: After a registration that succeeds, the name was free before, and a login with the same name and
  password is decided by the replica it asks: once that replica answers and has caught up, the
  login succeeds with the same user id and name (unless signing the token fails); while it still
  answers that there is no such row, the login is refused as invalid credentials.
\<close>

theorem register_then_login:
  assumes "users_ok S A synced users" "repo_live (au_repo au)" "register S A req (au, w) = Some (Inr r, au', w')"
    and "asked_handle (au_repo au') = Some h" "l = \<lparr>lr_username = rr_username req, lr_password = rr_password req\<rparr>"
  shows "users w (rr_username req) = None \<and>
    (synced h w' \<longrightarrow>
      (\<exists>x au'' w''. login S A l (au', w') = Some (x, au'', w'') \<and>
        ((\<exists>t. x = Inr t \<and> tr_user_id t = tr_user_id r \<and> tr_username t = rr_username req) \<or> (\<exists>e. x = Inl (Wrap ''sign token'' e))))) \<and>
    (fst (ae_user_row A h by_name_sql [GStr (rr_username req)] w') = Inl sql_no_rows \<longrightarrow>
      (\<exists>au'' w''. login S A l (au', w') = Some (Inl err_invalid_login, au'', w'')))"
proof -
  from register_success [OF assms(1,3,2)] obtain u hash where
    u: "users w (rr_username req) = None" "added req (tr_user_id r) hash u" "ae_compare A hash (rr_password req) = None"
      "users w' (rr_username req) = Some u" "repo_live (au_repo au')" by blast
  have ok: "synced h w' \<Longrightarrow> \<forall>h. asked_handle (au_repo au') = Some h \<longrightarrow> synced h w'" using assms(4) by simp
  show ?thesis
    using login_live [OF assms(1) u(5) ok, of l] login_unseen [OF assms(1) u(5), of l w'] u(1-4)
    by (auto simp: added_def assms(4,5))
qed

text \<open>
  \<open>email\<close> has a unique key and defaults to the empty string (\<open>sql/mysql_init.sql\<close>): an insert
  with an address that is taken fails with MySQL's \<open>Duplicate entry\<close>.
\<close>

definition unique_email :: "'w auth_env \<Rightarrow> ('w \<Rightarrow> string \<Rightarrow> user option) \<Rightarrow> bool" where
  "unique_email A users \<longleftrightarrow>
     (\<forall>h u w. (\<exists>name u'. users w name = Some u' \<and> us_email u' = us_email u) \<longrightarrow>
        (\<exists>e. fst (ae_insert A h insert_user_sql (user_args u) w) = Inl e \<and> str_contains (err_text e) ''Duplicate''))"

text \<open>The second registration without an address is refused with the error for a taken name.\<close>

theorem second_user_without_email:
  assumes "users_ok S A synced users" "unique_email A users" "repo_live (au_repo au)" "\<forall>h. asked_handle (au_repo au) = Some h \<longrightarrow> synced h w"
    and "users w other = Some u0" "us_email u0 = []" "users w (rr_username req) = None" "rr_email req = []"
    and "\<forall>w. \<exists>hash. fst (ae_hash A (rr_password req) w) = Inr hash"
  shows "\<exists>au' w'. register S A req (au, w) = Some (Inl err_user_exists, au', w')"
proof -
  obtain db w1 where g: "get_by_username A (rr_username req) (au_repo au, w) = Some (Inr None, db, w1)"
      "repo_live db" "users w1 = users w"
    using get_by_username_live [OF assms(1,3,4), of "rr_username req"] assms(7) by auto
  obtain rw m where rw: "db = Some rw" "rw_master rw = Some m" using g(2) by (auto simp: repo_live_def)
  obtain hash where h0: "fst (ae_hash A (rr_password req) w1) = Inr hash" using assms(9) by blast
  then obtain w2 where h: "ae_hash A (rr_password req) w1 = (Inr hash, w2)" by (metis prod.collapse)
  have "users w2 = users w" using users_okD(4) [OF assms(1), of "rr_password req" w1] h g(3) by simp
  then have "\<exists>name u'. users w2 name = Some u' \<and> us_email u' = us_email (new_user req hash)"
    using assms(5,6,8) by (intro exI [of _ other] exI [of _ u0]) (simp add: new_user_def)
  then obtain e where e0: "fst (ae_insert A m insert_user_sql (user_args (new_user req hash)) w2) = Inl e"
      "str_contains (err_text e) ''Duplicate''"
    using assms(2) unfolding unique_email_def by blast
  then obtain w3 where i: "ae_insert A m insert_user_sql (user_args (new_user req hash)) w2 = (Inl e, w3)" by (metis prod.collapse)
  have "str_contains (err_text (Wrap ''insert user'' e)) ''Duplicate''"
    using str_contains_append [OF e0(2), of "''insert user: ''"] by simp
  then show ?thesis using g(1) rw h i assms(8) by (simp add: register_def register_insert_def insert_user_def Let_def)
qed

section \<open>Without MySQL\<close>

text \<open>
  \<open>NewUserAuthRepo\<close> gets a nil \<open>*RWDB\<close> when the database is missing, and its methods do not look:
  the panic ends in \<open>Recovery\<close>.
\<close>

definition internal_error :: "'d gin \<Rightarrow> 'd gin \<times> 's option" where
  "internal_error c = (c_abort (c_json 500 (reply 500 ''internal server error'' None (get_trace_id c)) c), None)"

text \<open>
  C25: When MySQL was not available at the start, every valid registration and login and every query of
  the own account panics on the nil database and is answered with 500 by the recovery middleware.
\<close>

theorem auth_panics_without_mysql:
  assumes "au_repo au = None" "bind_json unmarshal_login c = Inr lreq" "lvalid lreq = None"
    and "bind_json unmarshal_register c' = Inr rreq" "rvalid rreq = None"
  shows "recovery (get_me_handler A) (c, au, w) = internal_error c \<and>
    recovery (login_handler S A lvalid) (c, au, w) = internal_error c \<and>
    recovery (register_handler S A rvalid) (c', au, w) = internal_error c'"
  using assms
  by (simp add: recovery_def get_me_handler_def get_user_info_def get_by_id_def query_user_def login_handler_def login_def
      register_handler_def register_def get_by_username_def internal_error_def Let_def)

section \<open>A reference environment\<close>

text \<open>
  The table as a list with both unique keys, bcrypt with its limit of 72 bytes, and a JWT
  library that signs one set of claims.
\<close>

definition ref_user_row :: "nat \<Rightarrow> string \<Rightarrow> gval list \<Rightarrow> ref_world \<Rightarrow> (goerr + user) \<times> ref_world" where
  "ref_user_row h q args w =
     (case args of
        [a] \<Rightarrow>
          (case find (\<lambda>u. if q = by_name_sql then us_username u = ref_str a
               else if q = user_columns_sql @ ''email'' @ '' = ?'' then us_email u = ref_str a else us_id u = ref_int a) (rf_users w) of
             None \<Rightarrow> Inl sql_no_rows | Some u \<Rightarrow> Inr u, w)
      | _ \<Rightarrow> (Inl sql_no_rows, w))"

definition ref_user_insert :: "nat \<Rightarrow> string \<Rightarrow> gval list \<Rightarrow> ref_world \<Rightarrow> (goerr + (goerr + int)) \<times> ref_world" where
  "ref_user_insert h q args w =
     (case args of
        [name, hash, email, phone, st] \<Rightarrow>
          if (\<exists>u \<in> set (rf_users w). us_username u = ref_str name \<or> us_email u = ref_str email) \<or> 2 ^ 62 < length (rf_users w)
          then (Inl (Errorf ''Duplicate entry''), w)
          else (Inr (Inr (int (length (rf_users w)) + 1)),
            w\<lparr>rf_users := \<lparr>us_id = int (length (rf_users w)) + 1, us_username = ref_str name, us_password_hash = ref_str hash,
              us_email = ref_str email, us_phone = ref_str phone, us_status = ref_int st, us_last_login_at = None,
              us_created_at = [], us_updated_at = []\<rparr> # rf_users w\<rparr>)
      | _ \<Rightarrow> (Inl (Errorf ''syntax''), w))"

definition ref_claims :: gval where
  "ref_claims = token_claims 1 ''alice'' 0 (3600 * second)"

definition ref_parse :: "string \<Rightarrow> (jwt_token \<Rightarrow> goerr + string) \<Rightarrow> time \<Rightarrow> goerr + jwt_token" where
  "ref_parse tok kf now =
     (let t = \<lparr>jt_method = MethodHMAC ''HS256'', jt_claims = unmarshal_any (marshal ref_claims), jt_valid = False\<rparr>
      in if tok = ''token'' \<and> kf t = Inr ''secret'' then Inr (t\<lparr>jt_valid := True\<rparr>) else Inl (Errorf ''token is malformed''))"

definition ref_auth :: "ref_world auth_env" where
  "ref_auth =
     \<lparr>ae_user_row = ref_user_row, ae_insert = ref_user_insert,
      ae_hash = (\<lambda>p w. (if 72 < length p then Inl (Errorf ''bcrypt: password length exceeds 72 bytes'') else Inr (''#'' @ p), w)),
      ae_compare = (\<lambda>h p. if h = ''#'' @ p then None else Some (Errorf ''mismatch'')),
      ae_sign = (\<lambda>m cl key. if m = MethodHMAC ''HS256'' \<and> cl = ref_claims \<and> key = ''secret'' then Inr ''token'' else Inl (Errorf ''sign'')),
      ae_parse = ref_parse\<rparr>"

definition ref_carries :: "string \<Rightarrow> (signing_method \<times> gval) option" where
  "ref_carries tok = (if tok = ''token'' then Some (MethodHMAC ''HS256'', unmarshal_any (marshal ref_claims)) else None)"

definition ref_sig :: "signing_method \<Rightarrow> string \<Rightarrow> string \<Rightarrow> bool" where
  "ref_sig m key tok \<longleftrightarrow> m = MethodHMAC ''HS256'' \<and> key = ''secret'' \<and> tok = ''token''"

definition ref_users :: "ref_world \<Rightarrow> string \<Rightarrow> user option" where
  "ref_users w name = find (\<lambda>u. us_username u = name) (rf_users w)"

lemma ref_jwt_ok: "jwt_ok ref_auth ref_carries ref_sig"
  by (auto simp: jwt_ok_def ref_auth_def ref_parse_def ref_carries_def ref_sig_def Let_def split: if_splits)

lemma ref_users_ok: "users_ok ref_services ref_auth (\<lambda>h w. True) ref_users"
proof -
  have rows: "snd (ref_user_row h q args w) = w" for h q args w
    by (simp add: ref_user_row_def split: list.split)
  have ins: "0 \<le> i \<and> i < 2 ^ 63 \<and> ref_users w (us_username u) = None \<and> (\<exists>u'. us_id u' = i \<and> us_username u' = us_username u \<and> us_password_hash u' = us_password_hash u \<and>
      us_email u' = us_email u \<and> us_status u' = us_status u \<and>
      ref_users (snd (ref_user_insert h q (user_args u) w)) (us_username u) = Some u')"
    if "fst (ref_user_insert h q (user_args u) w) = Inr (Inr i)" for h q u w i
    using that by (auto simp: ref_user_insert_def user_args_def ref_users_def find_None_iff split: if_splits)
  have by_name: "fst (ref_user_row h by_name_sql [GStr name] w) =
      (case ref_users w name of None \<Rightarrow> Inl sql_no_rows | Some u \<Rightarrow> Inr u)" for h name w
    by (simp add: ref_user_row_def ref_users_def)
  show ?thesis
    unfolding users_ok_def
    by (intro conjI allI impI)
      (insert ins, simp_all add: ref_auth_def rows by_name ref_services_def split: if_splits)
qed

lemma ref_unique_email: "unique_email ref_auth ref_users"
  unfolding unique_email_def
proof (intro allI impI, elim exE conjE)
  fix h w name and u u' :: user
  assume "ref_users w name = Some u'" "us_email u' = us_email u"
  then have "\<exists>u' \<in> set (rf_users w). us_email u' = us_email u" by (auto simp: ref_users_def find_Some_iff)
  then show "\<exists>e. fst (ae_insert ref_auth h insert_user_sql (user_args u) w) = Inl e \<and> str_contains (err_text e) ''Duplicate''"
    by (auto simp: ref_auth_def ref_user_insert_def user_args_def str_contains_self)
qed

definition ref_auth_service :: auth_service where
  "ref_auth_service = new_auth_service (Some (new_rwdb (Some 0) [])) ''secret'' 3600"

lemma ref_auth_service_simps [simp]:
  "au_repo ref_auth_service = Some (new_rwdb (Some 0) [])" "au_jwt_secret ref_auth_service = ''secret''"
  "au_jwt_expire ref_auth_service = 3600 * second" "repo_live (au_repo ref_auth_service)"
  by (simp_all add: ref_auth_service_def new_auth_service_def s64_id in64_def second_def repo_live_def new_rwdb_def)

lemma ref_now: "sv_now ref_services w = (rf_clock w, w)"
  by (simp add: ref_services_def)

lemma ref_generate: "generate_token ref_services ref_auth 1 ''alice'' (ref_auth_service, ref_init 0) = (Inr (''token'', 3600), ref_init 0)"
  by (simp add: generate_token_def ref_now ref_auth_def ref_claims_def ref_init_def duration_ms_def quot_def second_def)

theorem token_roundtrip_witness:
  "parse_token ref_services ref_auth ''token'' (ref_auth_service, ref_init 0) = (Inr (1, ''alice''), ref_init 0)"
  using token_roundtrip [OF ref_jwt_ok ref_generate, of "ref_init 0"] by (simp add: ref_now ref_init_def second_def)

definition token_request :: http_request where
  "token_request = sample_request\<lparr>rq_headers := (\<lambda>k. if k = ''Authorization'' then ''Bearer token'' else [])\<rparr>"

theorem authenticated_identity_is_signed_witness:
  "(\<exists>msg w1. \<forall>h. jwt_auth ref_services ref_auth id h (new_gin token_request :: unit gin, ref_auth_service, ref_init 0) =
      Some (unauthorized msg (new_gin token_request), ref_auth_service, w1)) \<or>
   (\<exists>alg cl. ref_carries ''token'' = Some (MethodHMAC alg, cl) \<and> ref_sig (MethodHMAC alg) ''secret'' ''token'')"
proof -
  have "bearer_token (get_header (new_gin token_request :: unit gin) ''Authorization'') = ''token''"
    by (simp add: get_header_def token_request_def bearer_token_def to_lower_def lower_char_def Let_def) code_simp
  then show ?thesis
    using authenticated_identity_is_signed [OF ref_jwt_ok, where S = ref_services and c = "new_gin token_request :: unit gin"
        and au_of = id and s = ref_auth_service and w = "ref_init 0"]
    by auto
qed

definition alice :: register_request where
  "alice = \<lparr>rr_username = ''alice'', rr_password = ''secret1'', rr_email = [], rr_phone = []\<rparr>"

lemma ref_register:
  "\<exists>r w. register ref_services ref_auth alice (ref_auth_service, ref_init 0) = Some (Inr r, ref_auth_service, w) \<and>
     tr_user_id r = 1 \<and> tr_username r = ''alice'' \<and> tr_access_token r = ''token'' \<and> rf_clock w = 0 \<and> (\<exists>u. rf_users w = [u] \<and> us_username u = ''alice'' \<and> us_email u = [])"
  by (simp add: register_def alice_def get_by_username_def query_user_def ref_auth_service_def new_auth_service_def new_rwdb_def rw_replica_def
      ref_auth_def ref_user_row_def ref_init_def register_insert_def insert_user_def ref_user_insert_def user_args_def new_user_def
      generate_token_def ref_now ref_claims_def s64_def second_def duration_ms_def quot_def token_for_def Let_def)

theorem register_then_login_witness:
  "\<exists>r au w x au' w'. register ref_services ref_auth alice (ref_auth_service, ref_init 0) = Some (Inr r, au, w) \<and>
     login ref_services ref_auth \<lparr>lr_username = ''alice'', lr_password = ''secret1''\<rparr> (au, w) = Some (x, au', w') \<and>
     ((\<exists>t. x = Inr t \<and> tr_user_id t = 1) \<or> (\<exists>e. x = Inl (Wrap ''sign token'' e)))"
proof -
  obtain r w where r: "register ref_services ref_auth alice (ref_auth_service, ref_init 0) = Some (Inr r, ref_auth_service, w)"
    "tr_user_id r = 1" using ref_register by blast
  have "asked_handle (au_repo ref_auth_service) = Some 0" by (simp add: asked_handle_def rw_replica_def new_rwdb_def)
  from register_then_login [OF ref_users_ok ref_auth_service_simps(4) r(1) this refl]
  have "\<exists>x au' w'. login ref_services ref_auth \<lparr>lr_username = ''alice'', lr_password = ''secret1''\<rparr> (ref_auth_service, w) = Some (x, au', w') \<and>
      ((\<exists>t. x = Inr t \<and> tr_user_id t = 1) \<or> (\<exists>e. x = Inl (Wrap ''sign token'' e)))"
    unfolding r(2) by (simp add: alice_def) blast
  with r(1) show ?thesis by blast
qed

definition two_accounts :: ref_world where
  "two_accounts = (ref_init 0)\<lparr>rf_users :=
     [\<lparr>us_id = 1, us_username = ''alice'', us_password_hash = ''#secret1'', us_email = [], us_phone = [], us_status = 1,
       us_last_login_at = None, us_created_at = [], us_updated_at = []\<rparr>,
      \<lparr>us_id = 2, us_username = ''bob'', us_password_hash = ''#secret2'', us_email = [], us_phone = [], us_status = 0,
       us_last_login_at = None, us_created_at = [], us_updated_at = []\<rparr>]\<rparr>"

theorem login_decides_witness:
  "(\<exists>au' w'. login ref_services ref_auth \<lparr>lr_username = ''eve'', lr_password = ''x''\<rparr> (ref_auth_service, two_accounts) =
      Some (Inl err_invalid_login, au', w')) \<and>
   (\<exists>au' w'. login ref_services ref_auth \<lparr>lr_username = ''bob'', lr_password = ''secret2''\<rparr> (ref_auth_service, two_accounts) =
      Some (Inl err_user_disabled, au', w')) \<and>
   (\<exists>au' w'. login ref_services ref_auth \<lparr>lr_username = ''alice'', lr_password = ''secret2''\<rparr> (ref_auth_service, two_accounts) =
      Some (Inl err_invalid_login, au', w')) \<and>
   (\<exists>x au' w'. login ref_services ref_auth \<lparr>lr_username = ''alice'', lr_password = ''secret1''\<rparr> (ref_auth_service, two_accounts) =
      Some (x, au', w') \<and> ((\<exists>t. x = Inr t \<and> tr_user_id t = 1) \<or> (\<exists>e. x = Inl (Wrap ''sign token'' e))))"
proof -
  note decides = login_decides [OF ref_users_ok ref_auth_service_simps(4) allI [OF impI [OF TrueI]]]
  note acc = ref_users_def two_accounts_def ref_auth_def
  show ?thesis
    using decides [of "\<lparr>lr_username = ''eve'', lr_password = ''x''\<rparr>" two_accounts]
      decides [of "\<lparr>lr_username = ''bob'', lr_password = ''secret2''\<rparr>" two_accounts]
      decides [of "\<lparr>lr_username = ''alice'', lr_password = ''secret2''\<rparr>" two_accounts]
      decides [of "\<lparr>lr_username = ''alice'', lr_password = ''secret1''\<rparr>" two_accounts]
    by (intro conjI) (simp_all add: ref_users_def two_accounts_def, auto simp: ref_auth_def)
qed

theorem second_user_without_email_witness:
  "\<exists>r w au' w'. register ref_services ref_auth alice (ref_auth_service, ref_init 0) = Some (Inr r, ref_auth_service, w) \<and>
     register ref_services ref_auth (alice\<lparr>rr_username := ''bob''\<rparr>) (ref_auth_service, w) = Some (Inl err_user_exists, au', w')"
proof -
  obtain r w u where r: "register ref_services ref_auth alice (ref_auth_service, ref_init 0) = Some (Inr r, ref_auth_service, w)"
    "rf_users w = [u]" "us_username u = ''alice''" "us_email u = []" using ref_register by blast
  from second_user_without_email [OF ref_users_ok ref_unique_email ref_auth_service_simps(4) allI [OF impI [OF TrueI]], of w "''alice''" u "alice\<lparr>rr_username := ''bob''\<rparr>"] r
  show ?thesis by (simp add: ref_users_def alice_def ref_auth_def)
qed

definition login_body :: http_request where
  "login_body = sample_request\<lparr>rq_body := Some (JText (JObj [(''username'', JStr ''alice''), (''password'', JStr ''secret1'')]))\<rparr>"

theorem auth_panics_without_mysql_witness:
  "gn_written (fst (recovery (login_handler ref_services ref_auth (\<lambda>r. None)) (new_gin login_body, new_auth_service None ''secret'' 3600, ref_init 0))) =
     [(500, Some (reply 500 ''internal server error'' None []))]"
proof -
  have low: "to_lower ''username'' = ''username''" "to_lower ''password'' = ''password''"
    by (simp_all add: to_lower_def lower_char_def)
  have l: "bind_json unmarshal_login (new_gin login_body :: auth_data gin) = Inr \<lparr>lr_username = ''alice'', lr_password = ''secret1''\<rparr>"
    by (simp add: bind_json_def login_body_def unmarshal_login_def fold_names_def login_member_def set_field_def low)
  have r: "bind_json unmarshal_register (new_gin login_body :: auth_data gin) =
      Inr \<lparr>rr_username = ''alice'', rr_password = ''secret1'', rr_email = [], rr_phone = []\<rparr>"
    by (simp add: bind_json_def login_body_def unmarshal_register_def fold_names_def register_member_def set_field_def low)
  have "au_repo (new_auth_service None ''secret'' 3600) = None" by (simp add: new_auth_service_def)
  from auth_panics_without_mysql [OF this l _ r, of "\<lambda>r. None" "\<lambda>r. None" ref_auth "ref_init 0" ref_services] show ?thesis
    by (simp add: internal_error_def c_abort_def c_json_def get_trace_id_def new_gin_def)
qed

section \<open>The token in an answer\<close>

text \<open>
  The calls of the repository take time: the clock does not go back over them. Then the token of an
  answer is signed with an expiry counted from an instant after the call.
\<close>

definition auth_clock_ok :: "'w auth_env \<Rightarrow> ('w \<Rightarrow> time) \<Rightarrow> bool" where
  "auth_clock_ok A clk \<longleftrightarrow>
     (\<forall>h q args w. clk w \<le> clk (snd (ae_user_row A h q args w))) \<and>
     (\<forall>h q args w. clk w \<le> clk (snd (ae_insert A h q args w))) \<and>
     (\<forall>p w. clk w \<le> clk (snd (ae_hash A p w)))"

lemma auth_clockD:
  assumes "auth_clock_ok A clk"
  shows "ae_user_row A h q args w = (r, w1) \<Longrightarrow> clk w \<le> clk w1" "ae_insert A h q args w = (ri, w1) \<Longrightarrow> clk w \<le> clk w1"
    "ae_hash A p w = (rh, w1) \<Longrightarrow> clk w \<le> clk w1"
  using assms unfolding auth_clock_ok_def by (metis snd_conv)+

lemma query_user_clock: "auth_clock_ok A clk \<Longrightarrow> query_user A cond arg ctx (db, w) = Some (r, db', w') \<Longrightarrow> clk w \<le> clk w'"
  by (auto simp: query_user_def dest: auth_clockD(1) split: option.splits prod.splits sum.splits)

lemma insert_user_clock: "auth_clock_ok A clk \<Longrightarrow> insert_user A u (db, w) = Some (r, db', w') \<Longrightarrow> clk w \<le> clk w'"
  by (auto simp: insert_user_def dest: auth_clockD(2) split: option.splits prod.splits sum.splits)

text \<open>\<open>t\<close> is signed for its user between the instants \<open>a\<close> and \<open>b\<close>.\<close>

definition issued :: "'w auth_env \<Rightarrow> auth_service \<Rightarrow> token_response \<Rightarrow> time \<Rightarrow> time \<Rightarrow> bool" where
  "issued A au t a b \<longleftrightarrow>
     (\<exists>now. a \<le> now \<and> now \<le> b \<and>
        ae_sign A (MethodHMAC ''HS256'') (token_claims (tr_user_id t) (tr_username t) now (now + au_jwt_expire au)) (au_jwt_secret au) =
          Inr (tr_access_token t))"

lemma issued_earlier: "issued A au t a b \<Longrightarrow> a' \<le> a \<Longrightarrow> issued A au t a' b"
  unfolding issued_def by (blast intro: order_trans)

lemma generate_issues:
  assumes "clock_ok S clk" "generate_token S A user_id username (au, w) = (Inr te, w1)"
  shows "issued A au (token_for user_id username te) (clk w) (clk w1)"
proof -
  obtain tok e where te: "te = (tok, e)" by force
  have "fst (sv_now S w) = clk w" "clk w \<le> clk (snd (sv_now S w))" using assms(1) by (simp_all add: clock_ok_def)
  then show ?thesis
    using generated_token_signed [OF assms(2) [unfolded te]] te
    by (auto simp: issued_def token_for_def intro!: exI [of _ "clk w"])
qed

lemma issued_repo [simp]: "issued A (au\<lparr>au_repo := db\<rparr>) = issued A au"
  by (simp add: issued_def fun_eq_iff)

lemma login_issues:
  assumes "clock_ok S clk" "auth_clock_ok A clk" "login S A req (au, w) = Some (Inr t, au', w')"
  shows "issued A au t (clk w) (clk w')"
proof -
  obtain u db w1 te where g: "get_by_username A (lr_username req) (au_repo au, w) = Some (Inr (Some u), db, w1)"
      and t: "generate_token S A (us_id u) (us_username u) (au\<lparr>au_repo := db\<rparr>, w1) = (Inr te, w')" "t = token_for (us_id u) (us_username u) te"
    using assms(3) by (auto simp: login_def Let_def split: option.splits prod.splits sum.splits if_splits)
  have "clk w \<le> clk w1" using query_user_clock [OF assms(2)] g by (simp add: get_by_username_def)
  with generate_issues [OF assms(1) t(1)] t(2) show ?thesis by (auto intro: issued_earlier)
qed

lemma register_insert_issues:
  assumes "clock_ok S clk" "auth_clock_ok A clk" "register_insert S A req (au, w) = Some (Inr t, au', w')"
  shows "issued A au t (clk w) (clk w')"
proof -
  obtain hash w1 i db w2 te where h: "ae_hash A (rr_password req) w = (Inr hash, w1)"
      and g: "insert_user A (new_user req hash) (au_repo au, w1) = Some (Inr i, db, w2)"
      and t: "generate_token S A i (rr_username req) (au\<lparr>au_repo := db\<rparr>, w2) = (Inr te, w')" "t = token_for i (rr_username req) te"
    using assms(3) by (auto simp: register_insert_def Let_def split: option.splits prod.splits sum.splits if_splits)
  have "clk w \<le> clk w2" using auth_clockD(3) [OF assms(2) h] insert_user_clock [OF assms(2) g] by simp
  with generate_issues [OF assms(1) t(1)] t(2) show ?thesis by (auto intro: issued_earlier)
qed

lemma register_issues:
  assumes "clock_ok S clk" "auth_clock_ok A clk" "register S A req (au, w) = Some (Inr t, au', w')"
  shows "issued A au t (clk w) (clk w')"
proof -
  obtain r db w1 where g: "get_by_username A (rr_username req) (au_repo au, w) = Some (r, db, w1)"
    using assms(3) by (auto simp: register_def split: option.splits)
  have c: "clk w \<le> clk w1" using query_user_clock [OF assms(2)] g by (simp add: get_by_username_def)
  have "\<exists>db2 w2. clk w1 \<le> clk w2 \<and> register_insert S A req (au\<lparr>au_repo := db2\<rparr>, w2) = Some (Inr t, au', w')"
  proof (cases "rr_email req = []")
    case True
    then show ?thesis using assms(3) g by (auto simp: register_def Let_def split: option.splits sum.splits)
  next
    case False
    then obtain db2 w2 where "get_by_email A (rr_email req) (db, w1) = Some (Inr None, db2, w2)"
        "register_insert S A req (au\<lparr>au_repo := db2\<rparr>, w2) = Some (Inr t, au', w')"
      using assms(3) g by (auto simp: register_def Let_def split: option.splits sum.splits prod.splits)
    then show ?thesis using query_user_clock [OF assms(2), of _ _ _ db w1] unfolding get_by_email_def by blast
  qed
  then obtain db2 w2 where "clk w1 \<le> clk w2" "register_insert S A req (au\<lparr>au_repo := db2\<rparr>, w2) = Some (Inr t, au', w')" by blast
  with register_insert_issues [OF assms(1,2)] c show ?thesis by (metis issued_repo issued_earlier order_trans)
qed

lemma auth_handlers_issue:
  assumes "clock_ok S clk" "auth_clock_ok A clk"
    and "register_handler S A vr (c, au, w) = Some (c', au', w') \<or> login_handler S A vl (c, au, w) = Some (c', au', w')"
    and "gn_written c = []" "gn_written c' = [(200, Some r)]" "ar_data r = Some (DToken t)"
  shows "issued A au t (clk w) (clk w')"
  using assms(3)
proof
  assume "register_handler S A vr (c, au, w) = Some (c', au', w')"
  then obtain req where "register S A req (au, w) = Some (Inr t, au', w')"
    using assms(4-6) by (auto simp: register_handler_def c_json_def reply_def Let_def split: option.splits sum.splits if_splits)
  then show ?thesis by (rule register_issues [OF assms(1,2)])
next
  assume "login_handler S A vl (c, au, w) = Some (c', au', w')"
  then obtain req where "login S A req (au, w) = Some (Inr t, au', w')"
    using assms(4-6) by (auto simp: login_handler_def c_json_def reply_def Let_def split: option.splits sum.splits if_splits)
  then show ?thesis by (rule login_issues [OF assms(1,2)])
qed

lemma bearer_of_bearer: "bearer_token (''Bearer '' @ tok) = tok"
proof -
  have "to_lower ''Bearer'' = ''bearer''" by code_simp
  then show ?thesis by (simp add: bearer_token_def Let_def)
qed

lemma issued_token_admits:
  assumes "jwt_ok A carries sig" "issued A au t a b" "0 \<le> tr_user_id t" "tr_user_id t \<le> 2 ^ 53"
    and "0 \<le> a + au_jwt_expire au" "b + au_jwt_expire au < 2 ^ 53 * second"
    and "au_jwt_secret (au_of s) = au_jwt_secret au" "get_header c ''Authorization'' = ''Bearer '' @ tr_access_token t"
    and "fst (sv_now S w) < (a + au_jwt_expire au) div second * second"
  shows "jwt_auth S A au_of h (c, s, w) =
    h (c\<lparr>gn_user_id := Some (tr_user_id t), gn_username := Some (tr_username t)\<rparr>, s, snd (sv_now S w))"
proof -
  obtain now where n: "a \<le> now" "now \<le> b"
      and sg: "ae_sign A (MethodHMAC ''HS256'') (token_claims (tr_user_id t) (tr_username t) now (now + au_jwt_expire au))
        (au_jwt_secret (au_of s)) = Inr (tr_access_token t)"
    using assms(2,7) by (auto simp: issued_def)
  have "(a + au_jwt_expire au) div second \<le> (now + au_jwt_expire au) div second"
    using n by (intro zdiv_mono1) (simp_all add: second_def)
  then have "(a + au_jwt_expire au) div second * second \<le> (now + au_jwt_expire au) div second * second"
    by (intro mult_right_mono) (simp_all add: second_def)
  then have "parse_token S A (tr_access_token t) (au_of s, w) = (Inr (tr_user_id t, tr_username t), snd (sv_now S w))"
    using assms(3-6,9) n by (intro signed_token_parses [OF assms(1) sg]) linarith+
  moreover have "bearer_token (get_header c ''Authorization'') = tr_access_token t" unfolding assms(8) by (rule bearer_of_bearer)
  moreover have "get_header c ''Authorization'' \<noteq> []" using assms(8) by simp
  ultimately show ?thesis by (simp add: jwt_auth_def Let_def)
qed

lemma ref_auth_clock_ok: "auth_clock_ok ref_auth rf_clock"
  by (auto simp: auth_clock_ok_def ref_auth_def ref_user_row_def ref_user_insert_def split: list.split)

end
