(* ===== verification/Search.thy ===== *)
theory Search
  imports Services Config
begin

section \<open>The search client (internal/database/elasticsearch.go)\<close>

text \<open>
  Connecting, indexing, index creation, and the two searches with their paging. The requests of
  the Elasticsearch client are arguments (\<open>es_env\<close>): an answer is its status, or its body as far
  as a JSON value was read from it.
\<close>

record 'w es_env =
  es_new_client :: "string list \<Rightarrow> string \<Rightarrow> string \<Rightarrow> goerr option"
  es_ping :: "'w \<Rightarrow> goerr option \<times> 'w"
  es_index :: "string \<Rightarrow> string \<Rightarrow> json \<Rightarrow> 'w \<Rightarrow> (goerr + nat) \<times> 'w"
  es_search :: "string \<Rightarrow> json \<Rightarrow> 'w \<Rightarrow> (goerr + wire) \<times> 'w"
  es_exists :: "string \<Rightarrow> 'w \<Rightarrow> (goerr + nat) \<times> 'w"
  es_create :: "string \<Rightarrow> json \<Rightarrow> 'w \<Rightarrow> (goerr + nat) \<times> 'w"

definition order_search_index :: string where "order_search_index = ''orders_search''"
definition user_search_index :: string where "user_search_index = ''users_search''"

text \<open>The client, if there is one, and the error.\<close>

definition connect_elasticsearch :: "'w es_env \<Rightarrow> es_config \<Rightarrow> 'w \<Rightarrow> (bool \<times> goerr option) \<times> 'w" where
  "connect_elasticsearch E cfg w =
     (if \<not> esc_enabled cfg \<or> esc_addresses cfg = [] then ((False, None), w)
      else
        (case es_new_client E (esc_addresses cfg)
            (if esc_username cfg \<noteq> [] then esc_username cfg else []) (if esc_username cfg \<noteq> [] then esc_password cfg else []) of
           Some e \<Rightarrow> ((False, Some (Wrap ''elasticsearch new client'' e)), w)
         | None \<Rightarrow>
             (case es_ping E w of
                (Some e, w1) \<Rightarrow> ((False, Some (Wrap ''elasticsearch ping'' e)), w1)
              | (None, w1) \<Rightarrow> ((True, None), w1))))"

text \<open>A \<open>SearchClient\<close> is represented by whether its client is there.\<close>

type_synonym search_client = bool

definition new_search_client :: "bool \<Rightarrow> search_client" where
  "new_search_client es = es"

subsection \<open>Indexing\<close>

definition index_order :: "'w es_env \<Rightarrow> search_client \<Rightarrow> order \<Rightarrow> 'w \<Rightarrow> goerr option \<times> 'w" where
  "index_order E sc od w =
     (if \<not> sc then (None, w)
      else
        (case es_index E order_search_index (ord_order_no od) (order_json od) w of
           (Inl e, w1) \<Rightarrow> (Some (Wrap ''es index order'' e), w1)
         | (Inr status, w1) \<Rightarrow> (None, w1)))"

definition index_user_profile :: "'w es_env \<Rightarrow> search_client \<Rightarrow> user_profile \<Rightarrow> 'w \<Rightarrow> goerr option \<times> 'w" where
  "index_user_profile E sc u w =
     (if \<not> sc then (None, w)
      else
        (case es_index E user_search_index (dec (nat (up_user_id u))) (profile_json u) w of
           (Inl e, w1) \<Rightarrow> (Some (Wrap ''es index profile'' e), w1)
         | (Inr status, w1) \<Rightarrow> (None, w1)))"

definition typed :: "string \<Rightarrow> json" where
  "typed t = JObj [(''type'', JStr t)]"

definition index_settings :: json where
  "index_settings = JObj [(''number_of_shards'', JNum 3), (''number_of_replicas'', JNum 1)]"

definition order_mapping :: json where
  "order_mapping =
     JObj [(''settings'', index_settings),
       (''mappings'', JObj [(''properties'', JObj
          [(''order_no'', typed ''keyword''), (''user_id'', typed ''long''), (''amount'', typed ''float''),
           (''status'', typed ''keyword''), (''created_at'', typed ''date''), (''updated_at'', typed ''date'')])])]"

definition user_mapping :: json where
  "user_mapping =
     JObj [(''settings'', index_settings),
       (''mappings'', JObj [(''properties'', JObj
          [(''user_id'', typed ''long''), (''nickname'', JObj [(''type'', JStr ''text''), (''analyzer'', JStr ''standard'')]),
           (''email'', typed ''text''), (''phone'', typed ''keyword''), (''created_at'', typed ''date'')])])]"

definition ensure_index :: "'w es_env \<Rightarrow> string \<times> json \<Rightarrow> 'w \<Rightarrow> 'w" where
  "ensure_index E = (\<lambda>(name, mapping) w.
     case es_exists E name w of
       (Inl e, w1) \<Rightarrow> w1
     | (Inr status, w1) \<Rightarrow> if status = 200 then w1 else snd (es_create E name mapping w1))"

text \<open>\<open>swapped\<close>: the order in which Go walks the map of the two indexes.\<close>

definition ensure_search_indexes :: "'w es_env \<Rightarrow> search_client \<Rightarrow> bool \<Rightarrow> 'w \<Rightarrow> goerr option \<times> 'w" where
  "ensure_search_indexes E sc swapped w =
     (if \<not> sc then (None, w)
      else
        (let indexes = [(order_search_index, order_mapping), (user_search_index, user_mapping)]
         in (None, fold (ensure_index E) (if swapped then rev indexes else indexes) w)))"

subsection \<open>Searching\<close>

text \<open>The offset is computed in \<open>int\<close>, 64 bits wide.\<close>

definition page_offset :: "int \<Rightarrow> int \<Rightarrow> int" where
  "page_offset page sz = s64 (s64 (page - 1) * sz)"

definition multi_match :: "string \<Rightarrow> string list \<Rightarrow> json" where
  "multi_match keyword fs =
     JObj [(''multi_match'', JObj [(''fields'', JArr (map JStr fs)), (''query'', JStr keyword)])]"

definition order_query :: "string \<Rightarrow> int \<Rightarrow> int \<Rightarrow> json" where
  "order_query keyword page sz =
     JObj [(''from'', JNum (of_int (page_offset page sz))), (''query'', multi_match keyword [''order_no^2'', ''status'']),
       (''size'', JNum (of_int sz)),
       (''sort'', JArr [JObj [(''created_at'', JObj [(''order'', JStr ''desc'')])]])]"

definition user_query :: "string \<Rightarrow> int \<Rightarrow> int \<Rightarrow> json" where
  "user_query keyword page sz =
     JObj [(''from'', JNum (of_int (page_offset page sz))),
       (''query'', multi_match keyword [''nickname^3'', ''email^2'', ''phone'']), (''size'', JNum (of_int sz))]"

text \<open>\<open>Decode\<close> into the nested result struct: the total and the sources of the hits.\<close>

definition into_struct ::
  "(string \<times> json \<Rightarrow> goerr option \<times> 's \<Rightarrow> goerr option \<times> 's) \<Rightarrow> json \<Rightarrow> goerr option \<times> 's \<Rightarrow> goerr option \<times> 's" where
  "into_struct mem v es =
     (case unmarshal_struct mem (snd es) v of
        (None, s) \<Rightarrow> (fst es, s) | (Some e, s) \<Rightarrow> (case fst es of None \<Rightarrow> Some e | Some e' \<Rightarrow> Some e', s))"

definition total_member :: "string \<times> json \<Rightarrow> goerr option \<times> int \<Rightarrow> goerr option \<times> int" where
  "total_member = (\<lambda>(k, v) es. if k = ''value'' then set_field as_i64 (\<lambda>a _. a) v es else es)"

definition hit_member ::
  "(string \<times> json \<Rightarrow> goerr option \<times> 'a \<Rightarrow> goerr option \<times> 'a) \<Rightarrow> string \<times> json \<Rightarrow> goerr option \<times> 'a \<Rightarrow> goerr option \<times> 'a" where
  "hit_member mem = (\<lambda>(k, v) es. if k = ''_source'' then into_struct mem v es else es)"

fun hit_list ::
  "(string \<times> json \<Rightarrow> goerr option \<times> 'a \<Rightarrow> goerr option \<times> 'a) \<Rightarrow> 'a \<Rightarrow> json list \<Rightarrow> goerr option \<times> 'a list \<Rightarrow> goerr option \<times> 'a list" where
  "hit_list mem z [] es = es"
| "hit_list mem z (v # vs) es =
     (case into_struct (hit_member mem) v (fst es, z) of (e, a) \<Rightarrow> hit_list mem z vs (e, snd es @ [a]))"

fun set_hits ::
  "(string \<times> json \<Rightarrow> goerr option \<times> 'a \<Rightarrow> goerr option \<times> 'a) \<Rightarrow> 'a \<Rightarrow> json \<Rightarrow> goerr option \<times> 'a list \<Rightarrow> goerr option \<times> 'a list" where
  "set_hits mem z (JArr vs) es = hit_list mem z vs (fst es, [])"
| "set_hits mem z JNull es = (fst es, [])"
| "set_hits mem z v es = (first_error (fst es), snd es)"

definition hits_member ::
  "(string \<times> json \<Rightarrow> goerr option \<times> 'a \<Rightarrow> goerr option \<times> 'a) \<Rightarrow> 'a \<Rightarrow> string \<times> json \<Rightarrow>
     goerr option \<times> int \<times> 'a list \<Rightarrow> goerr option \<times> int \<times> 'a list" where
  "hits_member mem z = (\<lambda>(k, v) (e, n, hs).
     if k = ''total'' then (case into_struct total_member v (e, n) of (e', n') \<Rightarrow> (e', n', hs))
     else if k = ''hits'' then (case set_hits mem z v (e, hs) of (e', hs') \<Rightarrow> (e', n, hs'))
     else (e, n, hs))"

definition result_member ::
  "(string \<times> json \<Rightarrow> goerr option \<times> 'a \<Rightarrow> goerr option \<times> 'a) \<Rightarrow> 'a \<Rightarrow> string \<times> json \<Rightarrow>
     goerr option \<times> int \<times> 'a list \<Rightarrow> goerr option \<times> int \<times> 'a list" where
  "result_member mem z = (\<lambda>(k, v) es. if k = ''hits'' then into_struct (hits_member mem z) v es else es)"

definition decode_hits ::
  "(string \<times> json \<Rightarrow> goerr option \<times> 'a \<Rightarrow> goerr option \<times> 'a) \<Rightarrow> 'a \<Rightarrow> wire \<Rightarrow> goerr + 'a list \<times> int" where
  "decode_hits mem z body =
     (case body of
        Raw s \<Rightarrow> Inl (Wrap ''decode es response'' syntax_error)
      | JText j \<Rightarrow>
          (case unmarshal_struct (result_member mem z) (0, []) j of
             (Some e, r) \<Rightarrow> Inl (Wrap ''decode es response'' e)
           | (None, n, hs) \<Rightarrow> Inr (hs, n)))"

definition execute_order_search :: "'w es_env \<Rightarrow> json \<Rightarrow> 'w \<Rightarrow> (goerr + order list \<times> int) \<times> 'w" where
  "execute_order_search E query w =
     (case es_search E order_search_index query w of
        (Inl e, w1) \<Rightarrow> (Inl (Wrap ''es search orders'' e), w1)
      | (Inr body, w1) \<Rightarrow> (decode_hits order_member zero_order body, w1))"

definition execute_user_search :: "'w es_env \<Rightarrow> json \<Rightarrow> 'w \<Rightarrow> (goerr + user_profile list \<times> int) \<times> 'w" where
  "execute_user_search E query w =
     (case es_search E user_search_index query w of
        (Inl e, w1) \<Rightarrow> (Inl (Wrap ''es search users'' e), w1)
      | (Inr body, w1) \<Rightarrow> (decode_hits profile_member zero_profile body, w1))"

definition search_unavailable :: goerr where
  "search_unavailable = Errorf ''elasticsearch not available''"

definition client_search_orders ::
  "'w es_env \<Rightarrow> search_client \<Rightarrow> string \<Rightarrow> int \<Rightarrow> int \<Rightarrow> 'w \<Rightarrow> (goerr + order list \<times> int) \<times> 'w" where
  "client_search_orders E sc keyword page sz w =
     (if \<not> sc then (Inl search_unavailable, w) else execute_order_search E (order_query keyword page sz) w)"

definition client_search_users ::
  "'w es_env \<Rightarrow> search_client \<Rightarrow> string \<Rightarrow> int \<Rightarrow> int \<Rightarrow> 'w \<Rightarrow> (goerr + user_profile list \<times> int) \<times> 'w" where
  "client_search_users E sc keyword page sz w =
     (if \<not> sc then (Inl search_unavailable, w) else execute_user_search E (user_query keyword page sz) w)"

section \<open>What a search returns\<close>

text \<open>The answer of Elasticsearch for the documents \<open>IndexOrder\<close> wrote, in its order.\<close>

definition search_answer :: "int \<Rightarrow> json list \<Rightarrow> json" where
  "search_answer n docs =
     JObj [(''took'', JNum 3),
       (''hits'', JObj [(''total'', JObj [(''value'', JNum (of_int n)), (''relation'', JStr ''eq'')]),
          (''hits'', JArr (map (\<lambda>d. JObj [(''_index'', JStr order_search_index), (''_source'', d)]) docs))])]"

lemma into_struct_obj: "into_struct mem (JObj kvs) (None, s) = fold (fold_names mem) kvs (None, s)"
  by (simp add: into_struct_def split: prod.split option.split)

lemma hit_list_sources:
  assumes "\<forall>a \<in> set xs. into_struct mem (f a) (None, z) = (None, a)"
  shows "hit_list mem z (map (\<lambda>d. JObj [(''_index'', JStr s), (''_source'', d)]) (map f xs)) (None, hs) = (None, hs @ xs)"
  using assms
proof (induction xs arbitrary: hs)
  case (Cons a xs)
  have "into_struct mem (f a) (None, z) = (None, a)" using Cons.prems by simp
  then have "into_struct (hit_member mem) (JObj [(''_index'', JStr s), (''_source'', f a)]) (None, z) = (None, a)"
    by (subst into_struct_def) (simp add: hit_member_def)
  with Cons show ?case by simp
qed simp

lemma decode_answer:
  assumes "in64 n" "\<forall>a \<in> set xs. into_struct mem (f a) (None, z) = (None, a)"
  shows "decode_hits mem z (JText (search_answer n (map f xs))) = Inr (xs, n)"
proof -
  have total: "into_struct total_member (JObj [(''value'', JNum (of_int n)), (''relation'', JStr ''eq'')]) (None, 0) = (None, n)"
    using assms(1) by (simp add: into_struct_def total_member_def set_field_def)
  have "hit_list mem z (map (\<lambda>d. JObj [(''_index'', JStr order_search_index), (''_source'', d)]) (map f xs)) (None, []) = (None, xs)"
    using hit_list_sources [OF assms(2), of order_search_index "[]"] by simp
  with total have "into_struct (hits_member mem z)
      (JObj [(''total'', JObj [(''value'', JNum (of_int n)), (''relation'', JStr ''eq'')]),
        (''hits'', JArr (map (\<lambda>d. JObj [(''_index'', JStr order_search_index), (''_source'', d)]) (map f xs)))]) (None, 0, []) =
      (None, n, xs)"
    by (simp only: into_struct_obj [of "hits_member mem z"]) (simp add: hits_member_def)
  then show ?thesis by (simp add: decode_hits_def search_answer_def result_member_def)
qed

text \<open>
  When Elasticsearch answers a search with the documents the service indexed for some orders, the
  search returns exactly these orders and the total.
\<close>

theorem search_returns_indexed_orders:
  assumes "es_search E order_search_index (order_query keyword page sz) w = (Inr (JText (search_answer n (map order_json ods))), w1)"
    and "\<forall>od \<in> set ods. order_ok od" "in64 n"
  shows "client_search_orders E True keyword page sz w = (Inr (ods, n), w1)"
proof -
  have "into_struct order_member (order_json od) (None, zero_order) = (None, od)" if "order_ok od" for od
    using unmarshal_order_json [OF that] by (simp add: into_struct_def unmarshal_order_def)
  with decode_answer [OF assms(3), of ods order_member order_json zero_order] assms show ?thesis
    by (simp add: client_search_orders_def execute_order_search_def)
qed

definition ref_es :: "unit es_env" where
  "ref_es = \<lparr>es_new_client = (\<lambda>a u p. None), es_ping = (\<lambda>w. (None, w)), es_index = (\<lambda>i k d w. (Inr 201, w)),
     es_search = (\<lambda>i q w. (Inr (JText (search_answer 1 [order_json sample_order])), w)),
     es_exists = (\<lambda>i w. (Inr 404, w)), es_create = (\<lambda>i m w. (Inr 200, w))\<rparr>"

theorem search_returns_indexed_orders_witness:
  "client_search_orders ref_es True ''ORD1'' 1 20 () = (Inr ([sample_order], 1), ())"
  by (rule search_returns_indexed_orders) (simp_all add: ref_es_def sample_order_ok)

end
