(* ===== verification/Handlers.thy ===== *)
theory Handlers
  imports Http Search Order_Service User_Profiles Analytics
begin

section \<open>Business, analytics and monitor handlers (internal/handler)\<close>

text \<open>
  The handlers over the state of the server. The services share one cache, which is kept once
  (\<open>sh_cache\<close>) and lent to a service for the time of a call; the breaker and the limiter are the
  order service's. Dates, the validator and Elasticsearch are arguments.
\<close>

record 'w server =
  sh_cache :: "'w mlc"
  sh_orders :: "'w order_service"
  sh_profiles :: "'w profile_service"
  sh_analytics :: "analytics option"

definition with_orders ::
  "('w order_service \<times> 'w \<Rightarrow> ('a \<times> 'w order_service \<times> 'w) option) \<Rightarrow> 'w server \<times> 'w \<Rightarrow> ('a \<times> 'w server \<times> 'w) option" where
  "with_orders f = (\<lambda>(s, w).
     case f ((sh_orders s)\<lparr>os_cache := sh_cache s\<rparr>, w) of
       None \<Rightarrow> None
     | Some (r, os, w1) \<Rightarrow> Some (r, s\<lparr>sh_orders := os, sh_cache := os_cache os\<rparr>, w1))"

definition with_profiles ::
  "('w profile_service \<times> 'w \<Rightarrow> ('a \<times> 'w profile_service \<times> 'w) option) \<Rightarrow> 'w server \<times> 'w \<Rightarrow> ('a \<times> 'w server \<times> 'w) option" where
  "with_profiles f = (\<lambda>(s, w).
     case f ((sh_profiles s)\<lparr>ps_cache := sh_cache s\<rparr>, w) of
       None \<Rightarrow> None
     | Some (r, ps, w1) \<Rightarrow> Some (r, s\<lparr>sh_profiles := ps, sh_cache := ps_cache ps\<rparr>, w1))"

datatype biz_data =
    DCreated string string | DOrder order | DProfile user_profile | DCacheStats cache_stats
  | DOrders "order list" int int int | DUsers "user_profile list" int int int
  | DDaily "daily_order_stats list" | DSummary string "string \<rightharpoonup> int"
  | DMetrics cache_stats cb_metrics int | DBreaker string cb_metrics

subsection \<open>Creating an order\<close>

definition create_member :: "string \<times> json \<Rightarrow> goerr option \<times> create_order_request \<Rightarrow> goerr option \<times> create_order_request" where
  "create_member = (\<lambda>(k, v) es.
     if k = ''user_id'' then set_field as_u64 (\<lambda>a r. r\<lparr>cor_user_id := a\<rparr>) v es
     else if k = ''amount'' then set_field as_f64 (\<lambda>a r. r\<lparr>cor_amount := a\<rparr>) v es
     else es)"

definition unmarshal_create :: "json \<Rightarrow> goerr option \<times> create_order_request" where
  "unmarshal_create j = unmarshal_struct create_member \<lparr>cor_user_id = 0, cor_amount = 0\<rparr> j"

definition creation ::
  "'w services \<Rightarrow> bool \<Rightarrow> string \<Rightarrow> order \<Rightarrow> 'w order_service \<times> 'w \<Rightarrow> (create_result \<times> 'w order_service \<times> 'w) option" where
  "creation S force_sync tid od = (if force_sync then create_order_force_sync S tid od else create_order S tid od)"

definition handle_create_order ::
  "'w services \<Rightarrow> (json \<Rightarrow> string) \<Rightarrow> (create_order_request \<Rightarrow> goerr option) \<Rightarrow> string \<Rightarrow> bool \<Rightarrow> (biz_data, 'w server \<times> 'w) http_handler" where
  "handle_create_order S json_text valid success_msg force_sync = (\<lambda>(c, s, w).
     let tid = get_trace_id c; fail = (\<lambda>n msg. c_json n (reply (int n) msg None tid) c)
     in case bind_json unmarshal_create c of
          Inl e \<Rightarrow> Some (fail 400 (''invalid request body: '' @ err_text e), s, w)
        | Inr req \<Rightarrow>
            (case valid req of
               Some e \<Rightarrow> Some (fail 400 (''validation failed: '' @ err_text e), s, w)
             | None \<Rightarrow>
                 (let od = zero_order\<lparr>ord_user_id := cor_user_id req, ord_amount := cor_amount req\<rparr>;
                      ctx_tid = from_context (gn_context c)
                  in case with_orders (creation S force_sync ctx_tid od) (s, w) of
                       None \<Rightarrow> None
                     | Some ((channel, no, Some e), s1, w1) \<Rightarrow> Some (fail 500 (err_text e), s1, w1)
                     | Some ((channel, no, None), s1, w1) \<Rightarrow>
                         (let s2 = (case sh_analytics s1 of
                                      None \<Rightarrow> s1
                                    | Some a \<Rightarrow> s1\<lparr>sh_analytics := Some (log_order_created json_text (ord_user_id od) no a)\<rparr>)
                          in Some (c_json 200 (reply 200 success_msg (Some (DCreated no channel)) tid) c, s2, w1)))))"

definition create_order_handler ::
  "'w services \<Rightarrow> (json \<Rightarrow> string) \<Rightarrow> (create_order_request \<Rightarrow> goerr option) \<Rightarrow> (biz_data, 'w server \<times> 'w) http_handler" where
  "create_order_handler S json_text valid = handle_create_order S json_text valid ''order accepted'' False"

definition create_order_sync_handler ::
  "'w services \<Rightarrow> (json \<Rightarrow> string) \<Rightarrow> (create_order_request \<Rightarrow> goerr option) \<Rightarrow> (biz_data, 'w server \<times> 'w) http_handler" where
  "create_order_sync_handler S json_text valid = handle_create_order S json_text valid ''order created'' True"

subsection \<open>Reading\<close>

definition get_order_handler :: "'w services \<Rightarrow> (biz_data, 'w server \<times> 'w) http_handler" where
  "get_order_handler S = (\<lambda>(c, s, w).
     let tid = get_trace_id c
     in case with_orders (get_order S (rq_params (gn_request c) ''orderNo'')) (s, w) of
          None \<Rightarrow> None
        | Some (Inl e, s1, w1) \<Rightarrow> Some (c_json 404 (reply 404 (err_text e) None tid) c, s1, w1)
        | Some (Inr od, s1, w1) \<Rightarrow> Some (c_json 200 (reply 200 ''success'' (Some (DOrder od)) tid) c, s1, w1))"

text \<open>\<open>strconv.ParseUint(s, 10, 64)\<close> and \<open>strconv.Atoi\<close>; \<open>None\<close> is an error.\<close>

definition digits :: "string \<Rightarrow> bool" where
  "digits ds \<longleftrightarrow> ds \<noteq> [] \<and> (\<forall>d \<in> set ds. 48 \<le> (of_char d :: nat) \<and> (of_char d :: nat) \<le> 57)"

definition parse_uint :: "string \<Rightarrow> int option" where
  "parse_uint ds = (if digits ds \<and> undec ds < 2 ^ 64 then Some (int (undec ds)) else None)"

definition atoi :: "string \<Rightarrow> int option" where
  "atoi str =
     (let neg = has_prefix str ''-'';
          ds = (if neg \<or> has_prefix str ''+'' then tl str else str);
          n = (if neg then - int (undec ds) else int (undec ds))
      in if digits ds \<and> in64 n then Some n else None)"

definition handle_service_error :: "goerr \<Rightarrow> string \<Rightarrow> nat \<times> string" where
  "handle_service_error e operation =
     (let msg = err_text e
      in if str_contains msg ''not available'' \<or> str_contains msg ''mongodb not available''
            \<or> str_contains msg ''elasticsearch not available''
         then (503, operation @ '' temporarily unavailable, service degraded'')
         else (500, operation @ '' failed: '' @ msg))"

definition get_user_profile_handler :: "'w services \<Rightarrow> (biz_data, 'w server \<times> 'w) http_handler" where
  "get_user_profile_handler S = (\<lambda>(c, s, w).
     let tid = get_trace_id c
     in case parse_uint (rq_params (gn_request c) ''userID'') of
          None \<Rightarrow> Some (c_json 400 (reply 400 ''invalid user_id'' None tid) c, s, w)
        | Some user_id \<Rightarrow>
            (case with_profiles (get_profile S user_id) (s, w) of
               None \<Rightarrow> None
             | Some (Inl e, s1, w1) \<Rightarrow>
                 (case handle_service_error e ''profile lookup'' of
                    (status, msg) \<Rightarrow>
                      if status = 503 then Some (c_json 503 (reply 503 msg None tid) c, s1, w1)
                      else Some (c_json 404 (reply 404 (err_text e) None tid) c, s1, w1))
             | Some (Inr u, s1, w1) \<Rightarrow> Some (c_json 200 (reply 200 ''success'' (Some (DProfile u)) tid) c, s1, w1)))"

definition get_cache_stats_handler :: "(biz_data, 'w server \<times> 'w) http_handler" where
  "get_cache_stats_handler = (\<lambda>(c, s, w).
     Some (c_json 200 (reply 200 ''success'' (Some (DCacheStats (get_cache_stats ((sh_orders s)\<lparr>os_cache := sh_cache s\<rparr>)))) (get_trace_id c)) c,
       s, w))"

subsection \<open>Searching\<close>

definition parse_search_params :: "biz_data gin \<Rightarrow> biz_data gin + string \<times> int \<times> int" where
  "parse_search_params c =
     (let keyword = default_query c ''q'' []
      in if keyword = [] then Inl (c_json 400 (reply 400 ''query parameter 'q' is required'' None (get_trace_id c)) c)
         else
           Inr (keyword,
             (case atoi (default_query c ''page'' ''1'') of Some p \<Rightarrow> if p > 0 then p else 1 | None \<Rightarrow> 1),
             (case atoi (default_query c ''size'' ''20'') of Some n \<Rightarrow> if n > 0 \<and> n \<le> 100 then n else 20 | None \<Rightarrow> 20)))"

definition service_search_orders ::
  "'w es_env \<Rightarrow> 'w order_service \<Rightarrow> string \<Rightarrow> int \<Rightarrow> int \<Rightarrow> 'w \<Rightarrow> (goerr + order list \<times> int) \<times> 'w" where
  "service_search_orders E os keyword page sz w =
     (if \<not> os_search os then (Inl search_unavailable, w) else client_search_orders E True keyword page sz w)"

definition service_search_users ::
  "'w es_env \<Rightarrow> 'w profile_service \<Rightarrow> string \<Rightarrow> int \<Rightarrow> int \<Rightarrow> 'w \<Rightarrow> (goerr + user_profile list \<times> int) \<times> 'w" where
  "service_search_users E ps keyword page sz w =
     (if \<not> ps_search ps then (Inl search_unavailable, w) else client_search_users E True keyword page sz w)"

definition service_failure :: "goerr \<Rightarrow> string \<Rightarrow> biz_data gin \<Rightarrow> biz_data gin" where
  "service_failure e operation c =
     (case handle_service_error e operation of (status, msg) \<Rightarrow> c_json status (reply (int status) msg None (get_trace_id c)) c)"

definition search_orders_handler :: "'w es_env \<Rightarrow> (biz_data, 'w server \<times> 'w) http_handler" where
  "search_orders_handler E = (\<lambda>(c, s, w).
     case parse_search_params c of
       Inl c1 \<Rightarrow> Some (c1, s, w)
     | Inr (keyword, page, sz) \<Rightarrow>
         (case service_search_orders E (sh_orders s) keyword page sz w of
            (Inl e, w1) \<Rightarrow> Some (service_failure e ''order search'' c, s, w1)
          | (Inr (ods, total_hits), w1) \<Rightarrow>
              Some (c_json 200 (reply 200 ''success'' (Some (DOrders ods total_hits page sz)) (get_trace_id c)) c, s, w1)))"

definition search_users_handler :: "'w es_env \<Rightarrow> (biz_data, 'w server \<times> 'w) http_handler" where
  "search_users_handler E = (\<lambda>(c, s, w).
     case parse_search_params c of
       Inl c1 \<Rightarrow> Some (c1, s, w)
     | Inr (keyword, page, sz) \<Rightarrow>
         (case service_search_users E (sh_profiles s) keyword page sz w of
            (Inl e, w1) \<Rightarrow> Some (service_failure e ''user search'' c, s, w1)
          | (Inr (us, total_hits), w1) \<Rightarrow>
              Some (c_json 200 (reply 200 ''success'' (Some (DUsers us total_hits page sz)) (get_trace_id c)) c, s, w1)))"

subsection \<open>Saving a profile\<close>

definition unmarshal_profile_body :: "json \<Rightarrow> goerr option \<times> user_profile" where
  "unmarshal_profile_body j = unmarshal_struct profile_member zero_profile j"

definition upsert_user_profile_handler ::
  "'w services \<Rightarrow> (user_profile \<Rightarrow> goerr option) \<Rightarrow> (biz_data, 'w server \<times> 'w) http_handler" where
  "upsert_user_profile_handler S valid = (\<lambda>(c, s, w).
     let tid = get_trace_id c
     in case bind_json unmarshal_profile_body c of
          Inl e \<Rightarrow> Some (c_json 400 (reply 400 (''invalid request body: '' @ err_text e) None tid) c, s, w)
        | Inr u \<Rightarrow>
            (case valid u of
               Some e \<Rightarrow> Some (c_json 400 (reply 400 (''validation failed: '' @ err_text e) None tid) c, s, w)
             | None \<Rightarrow>
                 (case with_profiles (\<lambda>pw. Some (upsert_profile S u pw)) (s, w) of
                    None \<Rightarrow> None
                  | Some (Some e, s1, w1) \<Rightarrow> Some (service_failure e ''profile upsert'' c, s1, w1)
                  | Some (None, s1, w1) \<Rightarrow> Some (c_json 200 (reply 200 ''profile saved'' (Some (DProfile u)) tid) c, s1, w1))))"

subsection \<open>Analytics and monitoring\<close>

text \<open>
  \<open>date_text\<close>, \<open>parse_date\<close> and \<open>add_date\<close> are \<open>Format\<close>, \<open>Parse\<close> with the layout \<open>2006-01-02\<close> and
  \<open>AddDate\<close>. The defaults are computed, and the clock read, also when the parameters are given.
\<close>

definition get_daily_stats_handler ::
  "'w services \<Rightarrow> (time \<Rightarrow> string) \<Rightarrow> (string \<Rightarrow> time option) \<Rightarrow> (time \<Rightarrow> int \<Rightarrow> int \<Rightarrow> int \<Rightarrow> time) \<Rightarrow> (biz_data, analytics \<times> 'w) http_handler" where
  "get_daily_stats_handler S date_text parse_date add_date = (\<lambda>(c, a, w).
     case sv_now S w of (t1, w1) \<Rightarrow>
     case sv_now S w1 of (t2, w2) \<Rightarrow>
       (let tid = get_trace_id c; fail = (\<lambda>msg. c_json 400 (reply 400 msg None tid) c)
        in case parse_date (default_query c ''from'' (date_text (add_date t1 0 0 (- 7)))) of
             None \<Rightarrow> Some (fail ''invalid 'from' date, use YYYY-MM-DD'', a, w2)
           | Some from_t \<Rightarrow>
               (case parse_date (default_query c ''to'' (date_text t2)) of
                  None \<Rightarrow> Some (fail ''invalid 'to' date, use YYYY-MM-DD'', a, w2)
                | Some to_t \<Rightarrow>
                    if from_t > to_t then Some (fail (CHR 0x27 # ''from' date must be before or equal to 'to' date''), a, w2)
                    else
                      (case service_daily_stats S date_text from_t (to_t + (24 * 60 * minute - second)) (a, w2) of
                         ((stats, Some e), a1, w3) \<Rightarrow> Some (c_json 500 (reply 500 (err_text e) None tid) c, a1, w3)
                       | ((stats, None), a1, w3) \<Rightarrow> Some (c_json 200 (reply 200 ''success'' (Some (DDaily stats)) tid) c, a1, w3)))))"

definition get_behavior_summary_handler ::
  "'w services \<Rightarrow> (time \<Rightarrow> int \<Rightarrow> int \<Rightarrow> int \<Rightarrow> time) \<Rightarrow> (biz_data, analytics \<times> 'w) http_handler" where
  "get_behavior_summary_handler S add_date = (\<lambda>(c, a, w).
     let tid = get_trace_id c; event_type = default_query c ''type'' []
     in case service_behavior_summary S add_date event_type (a, w) of
          ((summary, Some e), a1, w1) \<Rightarrow> Some (c_json 500 (reply 500 (err_text e) None tid) c, a1, w1)
        | ((summary, None), a1, w1) \<Rightarrow>
            Some (c_json 200 (reply 200 ''success'' (Some (DSummary event_type summary)) tid) c, a1, w1))"

definition metrics_handler :: "'w services \<Rightarrow> (biz_data, 'w server \<times> 'w) http_handler" where
  "metrics_handler S = (\<lambda>(c, s, w).
     case sv_now S w of (t, w1) \<Rightarrow>
     case tokens_available t (os_rl (sh_orders s)) of (tokens, rl) \<Rightarrow>
       Some (c_json 200 (reply 200 ''success''
               (Some (DMetrics (cache_stats_of (sh_cache s)) (breaker_metrics (os_cb (sh_orders s))) tokens)) (get_trace_id c)) c,
         s\<lparr>sh_orders := (sh_orders s)\<lparr>os_rl := rl\<rparr>\<rparr>, w1))"

definition circuit_breaker_state_handler :: "(biz_data, 'w server \<times> 'w) http_handler" where
  "circuit_breaker_state_handler = (\<lambda>(c, s, w).
     Some (c_json 200 (reply 200 ''success''
             (Some (DBreaker (get_state (os_cb (sh_orders s))) (breaker_metrics (os_cb (sh_orders s))))) (get_trace_id c)) c, s, w))"

section \<open>The window of a search\<close>

text \<open>
  The page and size of an accepted search request are at least 1, the size at most 100, and the
  offset sent to Elasticsearch is (page - 1) * size exactly when that is below 2^63; the page has
  no bound of its own, so a deep page wraps.
\<close>

theorem search_window:
  assumes "parse_search_params c = Inr (keyword, page, sz)"
  shows "keyword \<noteq> [] \<and> 1 \<le> page \<and> 1 \<le> sz \<and> sz \<le> 100 \<and>
    (page_offset page sz = (page - 1) * sz \<longleftrightarrow> (page - 1) * sz < 2 ^ 63)"
proof -
  have k: "keyword \<noteq> []" "1 \<le> page" "1 \<le> sz" "sz \<le> 100"
    using assms by (auto simp: parse_search_params_def Let_def split: if_splits option.splits)
  have "page < 2 ^ 63"
    using assms by (auto simp: parse_search_params_def Let_def atoi_def in64_def split: if_splits option.splits)
  then have "s64 (page - 1) = page - 1" using k(2) by (simp add: s64_id in64_def)
  moreover have "0 \<le> (page - 1) * sz" using k by simp
  then have "s64 ((page - 1) * sz) = (page - 1) * sz \<longleftrightarrow> (page - 1) * sz < 2 ^ 63"
    using s64_in64 [of "(page - 1) * sz"] by (auto simp: in64_def s64_id)
  ultimately show ?thesis using k by (simp add: page_offset_def)
qed

text \<open>A page from a request whose offset wraps to a negative number.\<close>

lemma deep_page_wraps: "page_offset 922337203685477581 20 = - 16"
  by (simp add: page_offset_def s64_def)

definition search_request :: http_request where
  "search_request = sample_request\<lparr>rq_query := [''q'' \<mapsto> ''ORD'', ''page'' \<mapsto> ''3'', ''size'' \<mapsto> ''500'']\<rparr>"

theorem search_window_witness:
  "parse_search_params (new_gin search_request) = Inr (''ORD'', 3, 20) \<and> page_offset 3 20 = 40"
proof -
  have p: "parse_search_params (new_gin search_request) = Inr (''ORD'', 3, 20)"
    by (simp add: parse_search_params_def default_query_def search_request_def atoi_def digits_def undec_def
        char_digit_def in64_def Let_def)
  from search_window [OF p] p show ?thesis by simp
qed

section \<open>Whose data a request touches\<close>

text \<open>
  The handlers behind the JWT middleware take the user from the body or the path: the identity
  the middleware established changes nothing.
\<close>

definition as_user :: "int option \<Rightarrow> string option \<Rightarrow> 'd gin \<Rightarrow> 'd gin" where
  "as_user i n c = c\<lparr>gn_user_id := i, gn_username := n\<rparr>"

lemma as_user_simps [simp]:
  "gn_request (as_user i n c) = gn_request c" "get_trace_id (as_user i n c) = get_trace_id c"
  "gn_context (as_user i n c) = gn_context c" "bind_json unm (as_user i n c) = bind_json unm c"
  "c_json status r (as_user i n c) = as_user i n (c_json status r c)"
  "default_query (as_user i n c) name def_val = default_query c name def_val"
  by (simp_all add: as_user_def get_trace_id_def bind_json_def c_json_def default_query_def)

text \<open>
  Creating an order, saving a profile and reading either give the same result whatever identity
  the JWT middleware has established: the handlers take the user from the body or the path.
\<close>

theorem identity_is_not_consulted:
  "handle_create_order S json_text vc msg force (as_user i n c, s, w) =
     map_option (map_prod (as_user i n) id) (handle_create_order S json_text vc msg force (c, s, w)) \<and>
   upsert_user_profile_handler S vp (as_user i n c, s, w) =
     map_option (map_prod (as_user i n) id) (upsert_user_profile_handler S vp (c, s, w)) \<and>
   get_order_handler S (as_user i n c, s, w) = map_option (map_prod (as_user i n) id) (get_order_handler S (c, s, w)) \<and>
   get_user_profile_handler S (as_user i n c, s, w) = map_option (map_prod (as_user i n) id) (get_user_profile_handler S (c, s, w))"
  by (intro conjI)
    (simp_all add: handle_create_order_def upsert_user_profile_handler_def get_order_handler_def get_user_profile_handler_def
      service_failure_def Let_def split: option.split sum.split prod.split)

section \<open>What a decoded creation request is\<close>

definition create_ok :: "create_order_request \<Rightarrow> bool" where
  "create_ok r \<longleftrightarrow> 0 \<le> cor_user_id r \<and> cor_user_id r < 2 ^ 64 \<and> is_f64 (cor_amount r) \<and> \<bar>cor_amount r\<bar> < 2 ^ 1024"

lemma create_ok_upd:
  "create_ok r \<Longrightarrow> as_u64 v = Some a \<Longrightarrow> create_ok (r\<lparr>cor_user_id := a\<rparr>)"
  "create_ok r \<Longrightarrow> as_f64 v = Some x \<Longrightarrow> create_ok (r\<lparr>cor_amount := x\<rparr>)"
  by (auto simp: create_ok_def dest: as_u64_range as_f64_range)

lemma create_member_ok: "create_ok (snd es) \<Longrightarrow> create_ok (snd (create_member kv es))"
  by (cases kv) (simp add: create_member_def set_field_inv [where P = create_ok] create_ok_upd)

lemma unmarshal_create_ok: "create_ok (snd (unmarshal_create j))"
  unfolding unmarshal_create_def
  by (rule unmarshal_struct_inv [where P = create_ok])
    (simp_all add: fold_names_def create_member_ok split_beta, simp add: create_ok_def)

lemma bound_create_ok: "bind_json unmarshal_create c = Inr req \<Longrightarrow> create_ok req"
  using unmarshal_create_ok by (auto simp: bind_json_def split: option.splits wire.splits prod.splits) (metis snd_conv)

section \<open>What a reply to a creation says\<close>

lemma handle_create_reply:
  assumes "handle_create_order S json_text valid msg force (c, s, w) = Some (c', s', w')"
    and "gn_written c = []" "gn_written c' = [(200, Some r)]" "ar_data r = Some (DCreated no ch)"
  shows "\<exists>req os'. bind_json unmarshal_create c = Inr req \<and> valid req = None \<and> ar_trace_id r = get_trace_id c \<and> ar_message r = msg \<and>
    gn_headers c' = gn_headers c \<and>
    creation S force (from_context (gn_context c)) (zero_order\<lparr>ord_user_id := cor_user_id req, ord_amount := cor_amount req\<rparr>)
     ((sh_orders s)\<lparr>os_cache := sh_cache s\<rparr>, w) = Some ((ch, no, None), os', w')"
  using assms
  by (auto simp: handle_create_order_def with_orders_def c_json_def reply_def Let_def split: sum.splits option.splits prod.splits)

end
