(* ===== verification/Health.thy ===== *)
theory Health
  imports Cache Circuit_Breaker
begin

section \<open>Health probes (internal/health/health.go)\<close>

text \<open>
  The three probes. \<open>ping\<close> is Redis' \<open>PING\<close>; the Kafka check is the closure \<open>main\<close> passes. A
  response is its status and body; the cache and the breaker may be missing.
\<close>

record 'w health_checker =
  hc_redis :: bool
  hc_cache :: "'w mlc option"
  hc_cb :: "breaker option"
  hc_kafka_checker :: "('w \<Rightarrow> goerr option \<times> 'w) option"
  hc_startup_completed :: bool
  hc_startup_time :: time

definition new_health_checker ::
  "bool \<Rightarrow> 'w mlc option \<Rightarrow> breaker option \<Rightarrow> ('w \<Rightarrow> goerr option \<times> 'w) option \<Rightarrow> time \<Rightarrow> 'w health_checker" where
  "new_health_checker redis c cb kafka now =
     \<lparr>hc_redis = redis, hc_cache = c, hc_cb = cb, hc_kafka_checker = kafka, hc_startup_completed = False, hc_startup_time = now\<rparr>"

definition set_startup_completed :: "'w health_checker \<Rightarrow> 'w health_checker" where
  "set_startup_completed h = h\<lparr>hc_startup_completed := True\<rparr>"

definition is_started :: "'w health_checker \<Rightarrow> bool" where
  "is_started h = hc_startup_completed h"

datatype health_detail = DetailText string | DetailRate f64

record health_body =
  hb_status :: string
  hb_uptime :: "duration option"
  hb_details :: "string \<rightharpoonup> health_detail"

definition liveness :: "time \<Rightarrow> 'w health_checker \<Rightarrow> nat \<times> health_body" where
  "liveness now h = (200, \<lparr>hb_status = ''UP'', hb_uptime = Some (time_sub now (hc_startup_time h)), hb_details = Map.empty\<rparr>)"

definition check_redis :: "('w \<Rightarrow> goerr option \<times> 'w) \<Rightarrow> 'w health_checker \<Rightarrow> 'w \<Rightarrow> (bool \<times> string) \<times> 'w" where
  "check_redis ping h w =
     (if hc_redis h then
        (case ping w of
           (Some e, w1) \<Rightarrow> ((False, ''disconnected: '' @ err_text e), w1)
         | (None, w1) \<Rightarrow> ((True, ''connected''), w1))
      else ((False, ''not configured''), w))"

definition check_kafka :: "'w health_checker \<Rightarrow> 'w \<Rightarrow> (bool \<times> string) \<times> 'w" where
  "check_kafka h w =
     (case hc_kafka_checker h of
        Some kafka \<Rightarrow>
          (case kafka w of
             (Some e, w1) \<Rightarrow> ((False, ''disconnected: '' @ err_text e), w1)
           | (None, w1) \<Rightarrow> ((True, ''connected''), w1))
      | None \<Rightarrow> ((False, ''not configured''), w))"

definition readiness :: "('w \<Rightarrow> goerr option \<times> 'w) \<Rightarrow> 'w health_checker \<Rightarrow> 'w \<Rightarrow> (nat \<times> health_body) \<times> 'w" where
  "readiness ping h w =
     (case check_redis ping h w of ((redis_ok, redis_text), w1) \<Rightarrow>
        (let cb_state_text = (case hc_cb h of None \<Rightarrow> ''NONE'' | Some cb \<Rightarrow> get_state cb);
             d1 = [''redis'' \<mapsto> DetailText redis_text, ''circuit_breaker'' \<mapsto> DetailText cb_state_text];
             d2 = (case hc_cache h of
                     None \<Rightarrow> d1
                   | Some mc \<Rightarrow> d1(''l1_hit_rate'' \<mapsto> DetailRate (st_l1_hit_rate (cache_stats_of mc)),
                                   ''combo_hit_rate'' \<mapsto> DetailRate (st_combo_hit_rate (cache_stats_of mc))))
         in case check_kafka h w1 of ((kafka_ok, kafka_text), w2) \<Rightarrow>
              (let status = (if \<not> redis_ok \<or> \<not> kafka_ok \<or> cb_state_text = ''OPEN'' then 503 else 200)
               in ((status, \<lparr>hb_status = (if status = 200 then ''READY'' else ''NOT_READY''), hb_uptime = None,
                     hb_details = d2(''kafka'' \<mapsto> DetailText kafka_text)\<rparr>), w2))))"

text \<open>\<open>now1\<close> is the reading of the timeout test, \<open>now2\<close> the one of the body.\<close>

definition startup :: "time \<Rightarrow> time \<Rightarrow> 'w health_checker \<Rightarrow> (nat \<times> health_body) \<times> 'w health_checker" where
  "startup now1 now2 h =
     (let h1 = (if hc_startup_completed h then h
                else
                  (let by_cache = (case hc_cache h of None \<Rightarrow> False | Some mc \<Rightarrow> st_total (cache_stats_of mc) > 0);
                       a = (if by_cache then h\<lparr>hc_startup_completed := True\<rparr> else h)
                   in if \<not> hc_startup_completed a \<and> time_sub now1 (hc_startup_time a) > 60 * second
                      then a\<lparr>hc_startup_completed := True\<rparr> else a));
          started = hc_startup_completed h1
      in ((if started then 200 else 503,
           \<lparr>hb_status = (if started then ''STARTED'' else ''STARTING''), hb_uptime = Some (time_sub now2 (hc_startup_time h1)),
            hb_details = Map.empty\<rparr>), h1))"

section \<open>When the probes answer\<close>

text \<open>
  Readiness depends on Redis, Kafka and the breaker only: neither database is asked, although the
  comment above the handler lists them.
\<close>

text \<open>
  The readiness probe answers 200 exactly when Redis and Kafka answer and the breaker is not OPEN;
  neither database is asked.
\<close>

theorem readiness_exact:
  "fst (fst (readiness ping h w)) = 200 \<longleftrightarrow>
     hc_redis h \<and> fst (ping w) = None \<and>
     (\<exists>kafka. hc_kafka_checker h = Some kafka \<and> fst (kafka (snd (ping w))) = None) \<and>
     (\<forall>cb. hc_cb h = Some cb \<longrightarrow> cb_state cb \<noteq> StateOpen)"
proof -
  have "fst (fst (check_redis ping h w)) \<longleftrightarrow> hc_redis h \<and> fst (ping w) = None"
    by (cases "ping w"; cases "fst (ping w)") (auto simp: check_redis_def)
  moreover have "hc_redis h \<Longrightarrow> snd (check_redis ping h w) = snd (ping w)"
    by (cases "ping w"; cases "fst (ping w)") (auto simp: check_redis_def)
  moreover have "fst (fst (check_kafka h u)) \<longleftrightarrow> (\<exists>kafka. hc_kafka_checker h = Some kafka \<and> fst (kafka u) = None)" for u
    by (cases "hc_kafka_checker h") (auto simp: check_kafka_def split: prod.splits option.splits)
  moreover have "get_state cb = ''OPEN'' \<longleftrightarrow> cb_state cb = StateOpen" for cb
    by (cases "cb_state cb") (simp_all add: get_state_def)
  ultimately show ?thesis
    by (auto simp: readiness_def Let_def split_beta split: option.splits if_splits)
qed

theorem readiness_exact_witness:
  "fst (fst (readiness (\<lambda>w. (None, w)) (new_health_checker True None (Some (new_breaker ''cb'' 3 10 5 5 1000 0)) (Some (\<lambda>w. (None, w))) 0) ())) = 200"
  by (subst readiness_exact) (simp add: new_health_checker_def new_breaker_def)

text \<open>Probes of the startup endpoint, each with its two clock readings and the cache of the moment.\<close>

definition startup_step :: "'w health_checker \<Rightarrow> time \<times> time \<times> 'w mlc option \<Rightarrow> 'w health_checker" where
  "startup_step h = (\<lambda>(t1, t2, mc). snd (startup t1 t2 (h\<lparr>hc_cache := mc\<rparr>)))"

text \<open>Once started, always started; and a checker polled after 60 seconds is.\<close>

interpretation startm: machine startup_step "\<lambda>_ _. True" is_started
  by unfold_locales (auto simp: is_started_def startup_step_def startup_def Let_def)

text \<open>The startup probe answers 200 from the first poll after a minute on, whatever comes later.\<close>

theorem startup_completes_and_stays:
  assumes "60 * second < time_sub t1 (hc_startup_time h)"
  shows "is_started (run startup_step h ((t1, t2, mc) # ps)) \<and>
    fst (fst (startup u1 u2 (run startup_step h ((t1, t2, mc) # ps)))) = 200"
proof -
  have "is_started (startup_step h (t1, t2, mc))"
    using assms by (auto simp: is_started_def startup_step_def startup_def Let_def)
  then have "is_started (run startup_step h ((t1, t2, mc) # ps))" using startm.run_inv [of _ ps] by simp
  then show ?thesis by (simp add: is_started_def startup_def Let_def)
qed

theorem startup_completes_and_stays_witness:
  "is_started (run startup_step (new_health_checker True None None None 0 :: unit health_checker) [(61 * second, 61 * second, None)])"
  using startup_completes_and_stays [of "61 * second" "new_health_checker True None None None 0 :: unit health_checker" "61 * second" None "[]"]
  by (simp add: new_health_checker_def second_def time_sub_def in64_def)

end
