(* ===== verification/Schema.thy ===== *)
theory Schema
  imports Http Rwdb
begin

section \<open>Tables and collections at start (internal/database/schema.go)\<close>

text \<open>
  The scripts under \<open>sql/\<close> are read, cut at the semicolons outside quotes, and run statement by
  statement on the masters; the MongoDB indexes come from a JSON file. Reading a file, and the
  creation of indexes, are arguments. What the code logs is a list of outcomes. The theorems:
  cutting a script gives back the statements it was joined from, and running it executes them in
  order up to the first failure.
\<close>

subsection \<open>Cutting a script\<close>

text \<open>One character: the statements so far, the current one, and whether a quote is open.\<close>

definition split_char :: "char \<Rightarrow> string list \<times> string \<times> bool \<Rightarrow> string list \<times> string \<times> bool" where
  "split_char ch = (\<lambda>(statements, current, in_string).
     let in_string' = (if ch = CHR 39 then \<not> in_string else in_string)
     in if ch = CHR '';'' \<and> \<not> in_string' then (statements @ [current], [], in_string')
        else (statements, current @ [ch], in_string'))"

definition split_sql :: "string \<Rightarrow> string list" where
  "split_sql sql =
     (case fold split_char sql ([], [], False) of
        (statements, current, _) \<Rightarrow>
          (let remaining = trim_space current
           in if remaining \<noteq> [] then statements @ [remaining] else statements))"

definition newline :: char where "newline = char_of (10 :: nat)"

definition short_sql :: "string \<Rightarrow> string" where
  "short_sql s0 =
     (let s1 = trim_space s0;
          line = takeWhile (\<lambda>c. c \<noteq> newline) s1;
          s = (if line \<noteq> s1 \<and> line \<noteq> [] then line else s1)
      in if length s > 80 then take 80 s @ ''...'' else s)"

subsection \<open>Running a script\<close>

text \<open>The wrapped error is in the middle of the text, so the whole is kept as a text.\<close>

primrec exec_statements ::
  "'w services \<Rightarrow> nat \<Rightarrow> string \<Rightarrow> nat \<Rightarrow> string list \<Rightarrow> 'w \<Rightarrow> goerr option \<times> 'w" where
  "exec_statements S db db_name i [] w = (None, w)"
| "exec_statements S db db_name i (stmt # rest) w =
     (let trimmed = trim_space stmt
      in if trimmed = [] then exec_statements S db db_name (i + 1) rest w
         else
           (case sql_exec S db trimmed [] w of
              (Some e, w1) \<Rightarrow>
                (Some (Errorf (db_name @ '' statement #'' @ dec (i + 1) @ '': '' @ err_text e @ [newline] @ ''  SQL: '' @ short_sql trimmed)), w1)
            | (None, w1) \<Rightarrow> exec_statements S db db_name (i + 1) rest w1))"

definition exec_sql_file ::
  "'w services \<Rightarrow> (string \<Rightarrow> goerr + string) \<Rightarrow> nat \<Rightarrow> string \<Rightarrow> string \<Rightarrow> 'w \<Rightarrow> goerr option \<times> 'w" where
  "exec_sql_file S read_file db db_name path w =
     (case read_file path of
        Inl e \<Rightarrow> (Some (Wrap (''read '' @ path) e), w)
      | Inr sql \<Rightarrow> exec_statements S db db_name 0 (split_sql sql) w)"

text \<open>One database: nothing without it, else the outcome that is logged.\<close>

definition ensure_sql_tables ::
  "'w services \<Rightarrow> (string \<Rightarrow> goerr + string) \<Rightarrow> string \<Rightarrow> string \<Rightarrow> rwdb option \<Rightarrow> 'w \<Rightarrow> goerr option list \<times> 'w" where
  "ensure_sql_tables S read_file db_name path rwo w =
     (case rwo of
        None \<Rightarrow> ([], w)
      | Some rw \<Rightarrow>
          (case rw_master rw of
             None \<Rightarrow> ([], w)
           | Some db \<Rightarrow> (case exec_sql_file S read_file db db_name path w of (r, w1) \<Rightarrow> ([r], w1))))"

definition ensure_all_sql_tables ::
  "'w services \<Rightarrow> (string \<Rightarrow> goerr + string) \<Rightarrow> rwdb option \<Rightarrow> rwdb option \<Rightarrow> 'w \<Rightarrow> (goerr option list \<times> goerr option list) \<times> 'w" where
  "ensure_all_sql_tables S read_file mysql_db pg_db w =
     (case ensure_sql_tables S read_file ''MySQL'' ''sql/mysql_init.sql'' mysql_db w of
        (r1, w1) \<Rightarrow>
          (case ensure_sql_tables S read_file ''PostgreSQL'' ''sql/postgresql_init.sql'' pg_db w1 of
             (r2, w2) \<Rightarrow> ((r1, r2), w2)))"

subsection \<open>MongoDB indexes\<close>

text \<open>
  \<open>mongoInitSchema\<close>, decoded from a file whose objects do not repeat a name. Go walks a map in an
  order of its own: \<open>walk\<close> is that order.
\<close>

record mongo_index =
  mi_keys :: "(string \<times> int) list"
  mi_unique :: bool

definition member_value :: "string \<Rightarrow> (string \<times> json) list \<Rightarrow> json" where
  "member_value name kvs = (case find (\<lambda>(k, v). to_lower k = name) (rev kvs) of None \<Rightarrow> JNull | Some (k, v) \<Rightarrow> v)"

fun members_of :: "json \<Rightarrow> (string \<times> json) list option" where
  "members_of JNull = Some []"
| "members_of (JObj kvs) = Some kvs"
| "members_of _ = None"

fun items_of :: "json \<Rightarrow> json list option" where
  "items_of JNull = Some []"
| "items_of (JArr js) = Some js"
| "items_of _ = None"

fun bool_of :: "json \<Rightarrow> bool option" where
  "bool_of JNull = Some False"
| "bool_of (JBool b) = Some b"
| "bool_of _ = None"

definition text_ok :: "json \<Rightarrow> bool" where
  "text_ok j \<longleftrightarrow> j = JNull \<or> as_str j \<noteq> None"

primrec all_some :: "'a option list \<Rightarrow> 'a list option" where
  "all_some [] = Some []"
| "all_some (x # xs) =
     (case x of None \<Rightarrow> None | Some a \<Rightarrow> (case all_some xs of None \<Rightarrow> None | Some as \<Rightarrow> Some (a # as)))"

definition decode_index :: "json \<Rightarrow> mongo_index option" where
  "decode_index j =
     (case members_of j of
        None \<Rightarrow> None
      | Some kvs \<Rightarrow>
          (case (members_of (member_value ''keys'' kvs), bool_of (member_value ''unique'' kvs)) of
             (Some ks, Some u) \<Rightarrow>
               (case all_some (map (\<lambda>(k, v). if v = JNull then Some (k, 0) else map_option (Pair k) (as_i64 v)) ks) of
                  Some keys \<Rightarrow> if text_ok (member_value ''comment'' kvs) then Some \<lparr>mi_keys = keys, mi_unique = u\<rparr> else None
                | None \<Rightarrow> None)
           | _ \<Rightarrow> None))"

definition decode_collection :: "string \<times> json \<Rightarrow> (string \<times> mongo_index list) option" where
  "decode_collection = (\<lambda>(name, j).
     case members_of j of
       None \<Rightarrow> None
     | Some kvs \<Rightarrow>
         (case items_of (member_value ''indexes'' kvs) of
            None \<Rightarrow> None
          | Some js \<Rightarrow>
              (case all_some (map decode_index js) of
                 None \<Rightarrow> None
               | Some ixs \<Rightarrow> if text_ok (member_value ''comment'' kvs) then Some (name, ixs) else None)))"

definition decode_schema :: "json \<Rightarrow> (string \<times> mongo_index list) list option" where
  "decode_schema j =
     (case members_of j of
        None \<Rightarrow> None
      | Some kvs \<Rightarrow>
          (case members_of (member_value ''collections'' kvs) of
             None \<Rightarrow> None
           | Some cs \<Rightarrow> all_some (map decode_collection cs)))"

definition create_indexes ::
  "(string \<Rightarrow> mongo_index list \<Rightarrow> 'w \<Rightarrow> goerr option \<times> 'w) \<Rightarrow> ((string \<times> int) list \<Rightarrow> (string \<times> int) list) \<Rightarrow>
   string \<times> mongo_index list \<Rightarrow> (string \<times> goerr option) list \<times> 'w \<Rightarrow> (string \<times> goerr option) list \<times> 'w" where
  "create_indexes create_many walk_keys = (\<lambda>(name, ixs) (outcomes, w).
     case create_many name (map (\<lambda>ix. ix\<lparr>mi_keys := walk_keys (mi_keys ix)\<rparr>) ixs) w of
       (r, w1) \<Rightarrow> (outcomes @ [(name, r)], w1))"

text \<open>Without a database nothing; a file that cannot be read or decoded is the one outcome.\<close>

definition ensure_mongo_collections ::
  "(string \<Rightarrow> goerr + wire) \<Rightarrow> (string \<Rightarrow> mongo_index list \<Rightarrow> 'w \<Rightarrow> goerr option \<times> 'w) \<Rightarrow>
   ((string \<times> int) list \<Rightarrow> (string \<times> int) list) \<Rightarrow>
   ((string \<times> mongo_index list) list \<Rightarrow> (string \<times> mongo_index list) list) \<Rightarrow> bool \<Rightarrow> 'w \<Rightarrow>
   (string \<times> goerr option) list \<times> 'w" where
  "ensure_mongo_collections read_file create_many walk_keys walk mongo_db w =
     (if \<not> mongo_db then ([], w)
      else
        (case read_file ''sql/mongo_init.json'' of
           Inl e \<Rightarrow> ([(''read'', Some e)], w)
         | Inr (Raw s) \<Rightarrow> ([(''parse'', Some syntax_error)], w)
         | Inr (JText j) \<Rightarrow>
             (case decode_schema j of
                None \<Rightarrow> ([(''parse'', Some type_error)], w)
              | Some schema \<Rightarrow> fold (create_indexes create_many walk_keys) (walk schema) ([], w))))"

section \<open>A script is its statements\<close>

text \<open>
  \<open>unsplit s\<close>: every semicolon of \<open>s\<close> is inside quotes. A statement also closes its quotes. A
  script joins statements, each followed by a semicolon, and may end in a rest without one.
\<close>

definition quotes :: "string \<Rightarrow> nat" where "quotes s = count_list s (CHR 39)"

definition unsplit :: "string \<Rightarrow> bool" where
  "unsplit s \<longleftrightarrow> (\<forall>i < length s. s ! i = CHR '';'' \<longrightarrow> odd (quotes (take i s)))"

definition statement :: "string \<Rightarrow> bool" where
  "statement s \<longleftrightarrow> unsplit s \<and> even (quotes s)"

definition script :: "string list \<Rightarrow> string \<Rightarrow> string" where
  "script ss rest = concat (map (\<lambda>s. s @ '';'') ss) @ rest"

lemma unsplit_snoc: "unsplit (s @ [c]) \<longleftrightarrow> unsplit s \<and> (c = CHR '';'' \<longrightarrow> odd (quotes s))"
  by (auto simp: unsplit_def nth_append less_Suc_eq split: if_splits)

lemma unsplit_code:
  "unsplit s \<longleftrightarrow> list_all (\<lambda>i. s ! i = CHR '';'' \<longrightarrow> odd (quotes (take i s))) [0..<length s]"
  by (auto simp: unsplit_def list_all_iff)

lemma split_unsplit:
  "unsplit s \<Longrightarrow> fold split_char s (st, [], False) = (st, s, odd (quotes s))"
proof (induction s rule: rev_induct)
  case (snoc c s)
  then show ?case by (auto simp: unsplit_snoc split_char_def Let_def quotes_def)
qed (simp add: quotes_def)

lemma split_statement: "statement s \<Longrightarrow> fold split_char (s @ '';'') (st, [], False) = (st @ [s], [], False)"
  by (simp add: statement_def split_unsplit split_char_def)

lemma split_statements:
  "\<forall>s \<in> set ss. statement s \<Longrightarrow> fold split_char (concat (map (\<lambda>s. s @ '';'') ss)) (st, [], False) = (st @ ss, [], False)"
proof (induction ss arbitrary: st)
  case (Cons s ss)
  then show ?case using split_statement [of s st] by simp
qed simp

lemma split_script:
  assumes "\<forall>s \<in> set ss. statement s" "unsplit rest"
  shows "split_sql (script ss rest) = ss @ (if trim_space rest = [] then [] else [trim_space rest])"
  by (simp add: split_sql_def script_def split_statements [OF assms(1)] split_unsplit [OF assms(2)] Let_def)

text \<open>Every text is such a script, so the pieces are determined by it.\<close>

lemma script_exists: "\<exists>ss rest. sql = script ss rest \<and> (\<forall>s \<in> set ss. statement s) \<and> unsplit rest"
proof (induction sql rule: rev_induct)
  case Nil
  show ?case by (rule exI [of _ "[]"], rule exI [of _ "[]"]) (simp add: script_def unsplit_def)
next
  case (snoc c sql)
  then obtain ss rest where s: "sql = script ss rest" "\<forall>s \<in> set ss. statement s" "unsplit rest" by metis
  show ?case
  proof (cases "c = CHR '';'' \<and> even (quotes rest)")
    case True
    then have "statement rest" using s(3) by (simp add: statement_def)
    moreover have "sql @ [c] = script (ss @ [rest]) []" using s(1) True by (simp add: script_def)
    moreover have "unsplit []" by (simp add: unsplit_def)
    moreover have "\<forall>s \<in> set (ss @ [rest]). statement s" using s(2) \<open>statement rest\<close> by simp
    ultimately show ?thesis by blast
  next
    case False
    then have "unsplit (rest @ [c])" using s(3) by (simp add: unsplit_snoc)
    moreover have "sql @ [c] = script ss (rest @ [c])" using s(1) by (simp add: script_def)
    ultimately show ?thesis using s(2) by blast
  qed
qed

text \<open>
  C31: The statements splitSQL returns, each followed by a semicolon, and the rest without one make up
  the script again; every statement has its quotes closed, and no semicolon outside quotes is left
  inside a piece.
\<close>

theorem split_sql_rebuilds:
  "\<exists>ss rest. sql = script ss rest \<and> list_all statement ss \<and> unsplit rest \<and>
     split_sql sql = (if trim_space rest = [] then ss else ss @ [trim_space rest])"
proof -
  obtain ss rest where s: "sql = script ss rest" "\<forall>s \<in> set ss. statement s" "unsplit rest"
    using script_exists [of sql] by metis
  then have "split_sql sql = (if trim_space rest = [] then ss else ss @ [trim_space rest])"
    by (simp add: split_script)
  then show ?thesis using s by (auto simp: list_all_iff)
qed

section \<open>A script runs statement by statement\<close>

text \<open>What the database is asked to execute.\<close>

definition script_queries :: "string list \<Rightarrow> string list" where
  "script_queries ss = filter (\<lambda>q. q \<noteq> []) (map trim_space ss)"

definition logs_queries :: "'w services \<Rightarrow> ('w \<Rightarrow> string list) \<Rightarrow> bool" where
  "logs_queries S asked \<longleftrightarrow> (\<forall>db q w. asked (snd (sql_exec S db q [] w)) = asked w @ [q])"

definition ran :: "('w \<Rightarrow> string list) \<Rightarrow> 'w \<Rightarrow> string list \<Rightarrow> goerr option \<times> 'w \<Rightarrow> bool" where
  "ran asked w qs = (\<lambda>(r, w').
     if r = None then asked w' = asked w @ qs
     else \<exists>k < length qs. asked w' = asked w @ take (Suc k) qs)"

lemma ran_cons:
  "asked w1 = asked w @ [q] \<Longrightarrow> ran asked w1 qs x \<Longrightarrow> ran asked w (q # qs) x"
  by (auto simp: ran_def split_beta split: if_splits)

lemma exec_statements_run:
  assumes "logs_queries S asked"
  shows "ran asked w (script_queries ss) (exec_statements S db name i ss w)"
proof (induction ss arbitrary: i w)
  case Nil
  show ?case by (simp add: script_queries_def ran_def)
next
  case (Cons s ss)
  show ?case
  proof (cases "trim_space s = []")
    case True
    then show ?thesis using Cons.IH [where i = "i + 1" and w = w] by (simp add: script_queries_def)
  next
    case False
    obtain r w1 where x: "sql_exec S db (trim_space s) [] w = (r, w1)" by fastforce
    then have a: "asked w1 = asked w @ [trim_space s]"
      using assms unfolding logs_queries_def by (metis snd_conv)
    show ?thesis
    proof (cases r)
      case None
      then show ?thesis using ran_cons [where asked = asked, OF a Cons.IH [where i = "i + 1"]] x False
        by (simp add: script_queries_def Let_def)
    next
      case (Some e)
      then show ?thesis using x a False by (auto simp: script_queries_def Let_def ran_def intro: exI [of _ 0])
    qed
  qed
qed

text \<open>Trimming twice is trimming once.\<close>

lemma trim_space_ends:
  assumes "trim_space s \<noteq> []"
  shows "\<not> is_space (hd (trim_space s)) \<and> \<not> is_space (last (trim_space s))"
proof -
  let ?u = "dropWhile is_space s"
  let ?d = "dropWhile is_space (rev ?u)"
  have d: "trim_space s = rev ?d" by (simp add: trim_space_def)
  then have n: "?d \<noteq> []" using assms by simp
  have "rev ?u = takeWhile is_space (rev ?u) @ ?d" by simp
  then have "?u = rev ?d @ rev (takeWhile is_space (rev ?u))" by (metis rev_append rev_rev_ident)
  then have "hd ?u = hd (rev ?d)" "?u \<noteq> []" using n by (metis hd_append2 rev_is_Nil_conv, metis append_is_Nil_conv rev_is_Nil_conv)
  moreover have "\<not> is_space (hd ?u)" using \<open>?u \<noteq> []\<close> by (rule hd_dropWhile)
  moreover have "\<not> is_space (hd ?d)" using n by (rule hd_dropWhile)
  ultimately show ?thesis using d n by (simp add: last_rev)
qed

lemma trim_space_ident: "s = [] \<or> (\<not> is_space (hd s) \<and> \<not> is_space (last s)) \<Longrightarrow> trim_space s = s"
proof -
  assume a: "s = [] \<or> (\<not> is_space (hd s) \<and> \<not> is_space (last s))"
  have k: "dropWhile is_space t = t" if "t = [] \<or> \<not> is_space (hd t)" for t using that by (cases t) auto
  have "dropWhile is_space s = s" using a k by blast
  moreover have "dropWhile is_space (rev s) = rev s" using a k [of "rev s"] by (auto simp: hd_rev)
  ultimately show ?thesis by (simp add: trim_space_def)
qed

lemma trim_space_idem [simp]: "trim_space (trim_space s) = trim_space s"
  by (rule trim_space_ident) (use trim_space_ends in blast)

text \<open>Running a script runs its statements in order, up to the first that fails.\<close>

theorem script_runs_in_order:
  assumes "logs_queries S asked" "\<forall>s \<in> set ss. statement s" "unsplit rest"
    "read_file path = Inr (script ss rest)"
  shows "ran asked w (script_queries (ss @ [rest])) (exec_sql_file S read_file db name path w)"
proof -
  have "script_queries (split_sql (script ss rest)) = script_queries (ss @ [rest])"
    by (simp add: split_script [OF assms(2,3)] script_queries_def)
  then show ?thesis
    using exec_statements_run [OF assms(1), where db = db and name = name and i = 0 and ss = "split_sql (script ss rest)" and w = w] assms(4)
    by (simp add: exec_sql_file_def)
qed

definition logging_services :: "ref_world services" where
  "logging_services = ref_services\<lparr>sql_exec := \<lambda>db q args w.
     (None, w\<lparr>rf_sent := rf_sent w @ [(q, \<lparr>km_key = [], km_value = Raw [], km_time = None, km_headers = []\<rparr>)]\<rparr>)\<rparr>"

definition sample_script :: "string list" where
  "sample_script = [''CREATE'', '' INSERT '' @ [CHR 39, CHR '';'', CHR 39]]"

theorem script_runs_in_order_witness:
  "logs_queries logging_services (map fst \<circ> rf_sent) \<and> (\<forall>s \<in> set sample_script. statement s) \<and> unsplit '' '' \<and>
   map fst (rf_sent (snd (exec_sql_file logging_services (\<lambda>p. Inr (script sample_script '' '')) 1 ''MySQL'' ''f'' (ref_init 0)))) =
     [''CREATE'', ''INSERT '' @ [CHR 39, CHR '';'', CHR 39]]"
proof -
  have l: "logs_queries logging_services (map fst \<circ> rf_sent)"
    by (simp add: logs_queries_def logging_services_def)
  have st: "\<forall>s \<in> set sample_script. statement s"
    unfolding statement_def unsplit_code by code_simp
  have un: "unsplit '' ''" by (simp add: unsplit_def)
  have q: "script_queries (sample_script @ ['' '']) = [''CREATE'', ''INSERT '' @ [CHR 39, CHR '';'', CHR 39]]"
    by (simp add: script_queries_def sample_script_def trim_space_def is_space_def)
  have ok: "fst (exec_statements logging_services db n i qs w) = None" for db n i qs w
    by (induction qs arbitrary: i w) (simp_all add: logging_services_def Let_def)
  have r: "fst (exec_sql_file logging_services (\<lambda>p. Inr (script sample_script '' '')) 1 ''MySQL'' ''f'' (ref_init 0)) = None"
    by (simp add: exec_sql_file_def ok)
  show ?thesis
    using script_runs_in_order [where path = "''f''" and read_file = "\<lambda>p. Inr (script sample_script '' '')" and
      db = 1 and name = "''MySQL''" and w = "ref_init 0", OF l st un refl] q r l st un
    by (simp add: ran_def split_beta ref_init_def)
qed

end
