(* ===== verification/Database_Manager.thy ===== *)
theory Database_Manager
  imports Rwdb Config
begin

section \<open>Opening and closing the databases (cmd/server/main.go, internal/database/manager.go)\<close>

text \<open>
  \<open>openDB\<close> and \<open>initRWDB\<close> open a master and its replicas, \<open>ConnectMongoDB\<close> a MongoDB client; the
  manager owns what was opened and closes it at the end. A handle is a number; opening one is an
  argument (\<open>conn_env\<close>), and \<open>handles_ok\<close> is its documented behaviour. The theorem accounts for
  every handle from the start of the server to its end.
\<close>

datatype read_pref = PrimaryPref | PrimaryPreferred | SecondaryPref | SecondaryPreferred | NearestPref

definition parse_read_pref :: "string \<Rightarrow> read_pref" where
  "parse_read_pref pref =
     (if pref = ''primary'' then PrimaryPref
      else if pref = ''primaryPreferred'' then PrimaryPreferred
      else if pref = ''secondary'' then SecondaryPref
      else if pref = ''secondaryPreferred'' then SecondaryPreferred
      else if pref = ''nearest'' then NearestPref
      else PrimaryPreferred)"

text \<open>The client options; the credential is user, password and source.\<close>

record mongo_options =
  mo_uri :: string
  mo_max_pool_size :: nat
  mo_min_pool_size :: nat
  mo_read_pref :: read_pref
  mo_auth :: "(string \<times> string \<times> string) option"

record 'w conn_env =
  ce_sql_open :: "string \<Rightarrow> string \<Rightarrow> 'w \<Rightarrow> (goerr + nat) \<times> 'w"
  ce_sql_settings :: "nat \<Rightarrow> int \<Rightarrow> int \<Rightarrow> duration \<Rightarrow> 'w \<Rightarrow> 'w"
  ce_mongo_connect :: "mongo_options \<Rightarrow> 'w \<Rightarrow> (goerr + nat) \<times> 'w"
  ce_mongo_ping :: "nat \<Rightarrow> read_pref option \<Rightarrow> 'w \<Rightarrow> goerr option \<times> 'w"
  ce_mongo_disconnect :: "nat \<Rightarrow> 'w \<Rightarrow> 'w"

subsection \<open>SQL databases\<close>

definition open_db :: "'w services \<Rightarrow> 'w conn_env \<Rightarrow> string \<Rightarrow> string \<Rightarrow> database_config \<Rightarrow> 'w \<Rightarrow> (goerr + nat) \<times> 'w" where
  "open_db S E driver dsn cfg w =
     (case ce_sql_open E driver dsn w of
        (Inl e, w1) \<Rightarrow> (Inl (Wrap ''open db'' e), w1)
      | (Inr db, w1) \<Rightarrow>
          (let w2 = ce_sql_settings E db (dbc_max_open_conns cfg) (dbc_max_idle_conns cfg)
                      (s64 (dbc_conn_max_lifetime_secs cfg * second)) w1
           in case sql_ping S db w2 of
                (Some e, w3) \<Rightarrow> (Inl (Wrap ''db ping'' e), sql_close S db w3)
              | (None, w3) \<Rightarrow> (Inr db, w3)))"

definition open_replica ::
  "'w services \<Rightarrow> 'w conn_env \<Rightarrow> database_config \<Rightarrow> string \<Rightarrow> nat list \<times> 'w \<Rightarrow> nat list \<times> 'w" where
  "open_replica S E cfg dsn = (\<lambda>(replicas, w).
     case open_db S E (dbc_driver cfg) dsn cfg w of
       (Inl e, w1) \<Rightarrow> (replicas, w1)
     | (Inr db, w1) \<Rightarrow> (replicas @ [db], w1))"

definition init_rwdb :: "'w services \<Rightarrow> 'w conn_env \<Rightarrow> database_config \<Rightarrow> 'w \<Rightarrow> rwdb option \<times> 'w" where
  "init_rwdb S E cfg w =
     (if dbc_dsn cfg = [] \<or> \<not> dbc_enabled cfg then (None, w)
      else
        (case open_db S E (dbc_driver cfg) (dbc_dsn cfg) cfg w of
           (Inl e, w1) \<Rightarrow> (None, w1)
         | (Inr master, w1) \<Rightarrow>
             (case fold (open_replica S E cfg) (dbc_replica_dsns cfg) ([], w1) of
                (replicas, w2) \<Rightarrow> (Some (new_rwdb (Some master) replicas), w2))))"

subsection \<open>MongoDB\<close>

definition mongo_client_options :: "mongo_config \<Rightarrow> mongo_options" where
  "mongo_client_options cfg =
     \<lparr>mo_uri = mgc_uri cfg, mo_max_pool_size = mgc_max_pool_size cfg, mo_min_pool_size = mgc_min_pool_size cfg,
      mo_read_pref = parse_read_pref (mgc_read_preference cfg),
      mo_auth = (if mgc_username cfg \<noteq> [] then Some (mgc_username cfg, mgc_password cfg, mgc_database cfg) else None)\<rparr>"

text \<open>The client and the name of the database, both absent when MongoDB is off.\<close>

definition connect_mongodb :: "'w conn_env \<Rightarrow> mongo_config \<Rightarrow> 'w \<Rightarrow> (goerr + (nat \<times> string) option) \<times> 'w" where
  "connect_mongodb E cfg w =
     (if \<not> mgc_enabled cfg \<or> mgc_uri cfg = [] then (Inr None, w)
      else
        (case ce_mongo_connect E (mongo_client_options cfg) w of
           (Inl e, w1) \<Rightarrow> (Inl (Wrap ''mongodb connect'' e), w1)
         | (Inr client, w1) \<Rightarrow>
             (case ce_mongo_ping E client None w1 of
                (Some e, w2) \<Rightarrow> (Inl (Wrap ''mongodb ping'' e), w2)
              | (None, w2) \<Rightarrow> (Inr (Some (client, mgc_database cfg)), w2))))"

subsection \<open>The manager\<close>

record manager =
  mg_mysql :: "rwdb option"
  mg_postgres :: "rwdb option"
  mg_mongo_db :: "string option"
  mg_mongo_client :: "nat option"

definition manager_close :: "'w services \<Rightarrow> 'w conn_env \<Rightarrow> manager \<Rightarrow> 'w \<Rightarrow> 'w" where
  "manager_close S E m w =
     (let w1 = (case mg_mysql m of None \<Rightarrow> w | Some rw \<Rightarrow> rw_close S rw w);
          w2 = (case mg_postgres m of None \<Rightarrow> w1 | Some rw \<Rightarrow> rw_close S rw w1)
      in case mg_mongo_client m of None \<Rightarrow> w2 | Some client \<Rightarrow> ce_mongo_disconnect E client w2)"

definition rwdb_ready :: "'w services \<Rightarrow> rwdb option \<Rightarrow> 'w \<Rightarrow> bool \<times> 'w" where
  "rwdb_ready S rwo w =
     (case rwo of
        None \<Rightarrow> (False, w)
      | Some rw \<Rightarrow> if rw_is_nil rw then (False, w) else (case rw_ping S rw w of (r, w1) \<Rightarrow> (r = None, w1)))"

definition is_mysql_ready :: "'w services \<Rightarrow> manager \<Rightarrow> 'w \<Rightarrow> bool \<times> 'w" where
  "is_mysql_ready S m w = rwdb_ready S (mg_mysql m) w"

definition is_postgres_ready :: "'w services \<Rightarrow> manager \<Rightarrow> 'w \<Rightarrow> bool \<times> 'w" where
  "is_postgres_ready S m w = rwdb_ready S (mg_postgres m) w"

definition is_mongo_ready :: "'w conn_env \<Rightarrow> manager \<Rightarrow> 'w \<Rightarrow> bool \<times> 'w" where
  "is_mongo_ready E m w =
     (case mg_mongo_client m of
        None \<Rightarrow> (False, w)
      | Some client \<Rightarrow> (case ce_mongo_ping E client (Some PrimaryPref) w of (r, w1) \<Rightarrow> (r = None, w1)))"

text \<open>What \<open>main\<close> opens, in its order.\<close>

definition init_databases :: "'w services \<Rightarrow> 'w conn_env \<Rightarrow> multi_database_config \<Rightarrow> 'w \<Rightarrow> manager \<times> 'w" where
  "init_databases S E cfg w =
     (case init_rwdb S E (mdc_mysql cfg) w of
        (mysql_rw, w1) \<Rightarrow>
      case init_rwdb S E (mdc_postgres cfg) w1 of
        (pg_rw, w2) \<Rightarrow>
      case connect_mongodb E (mdc_mongodb cfg) w2 of
        (r, w3) \<Rightarrow>
          (let mongo = (case r of Inl e \<Rightarrow> None | Inr x \<Rightarrow> x)
           in (\<lparr>mg_mysql = mysql_rw, mg_postgres = pg_rw, mg_mongo_db = map_option snd mongo,
                mg_mongo_client = map_option fst mongo\<rparr>, w3)))"

section \<open>Every handle is accounted for\<close>

text \<open>
  \<open>opened w\<close>: the handles open in \<open>w\<close>. Opening adds a fresh one or fails, closing removes it,
  pinging and settings change nothing.
\<close>

definition opens :: "('w \<Rightarrow> nat set) \<Rightarrow> 'w \<Rightarrow> (goerr + nat) \<times> 'w \<Rightarrow> bool" where
  "opens opened w = (\<lambda>(r, w').
     case r of
       Inl e \<Rightarrow> opened w' = opened w
     | Inr h \<Rightarrow> h \<notin> opened w \<and> opened w' = insert h (opened w))"

definition handles_ok :: "'w services \<Rightarrow> 'w conn_env \<Rightarrow> ('w \<Rightarrow> nat set) \<Rightarrow> bool" where
  "handles_ok S E opened \<longleftrightarrow>
     (\<forall>driver dsn w. opens opened w (ce_sql_open E driver dsn w)) \<and>
     (\<forall>opts w. opens opened w (ce_mongo_connect E opts w)) \<and>
     (\<forall>h a b d w. opened (ce_sql_settings E h a b d w) = opened w) \<and>
     (\<forall>h w. opened (snd (sql_ping S h w)) = opened w) \<and>
     (\<forall>h p w. opened (snd (ce_mongo_ping E h p w)) = opened w) \<and>
     (\<forall>h w. opened (sql_close S h w) = opened w - {h}) \<and>
     (\<forall>h w. opened (ce_mongo_disconnect E h w) = opened w - {h})"

lemma opens_cases:
  "opens opened w (Inl e, w') \<longleftrightarrow> opened w' = opened w"
  "opens opened w (Inr h, w') \<longleftrightarrow> h \<notin> opened w \<and> opened w' = insert h (opened w)"
  by (simp_all add: opens_def)

lemma open_db_handles:
  assumes "handles_ok S E opened"
  shows "opens opened w (open_db S E driver dsn cfg w)"
proof -
  obtain r w1 where o: "ce_sql_open E driver dsn w = (r, w1)" by fastforce
  then have w1: "opens opened w (r, w1)" using assms by (metis handles_ok_def)
  show ?thesis
  proof (cases r)
    case (Inl e)
    then show ?thesis using o w1 by (simp add: open_db_def opens_cases)
  next
    case (Inr db)
    let ?w2 = "ce_sql_settings E db (dbc_max_open_conns cfg) (dbc_max_idle_conns cfg) (s64 (dbc_conn_max_lifetime_secs cfg * second)) w1"
    obtain p w3 where p: "sql_ping S db ?w2 = (p, w3)" by fastforce
    have "opened (snd (sql_ping S db ?w2)) = opened w1" using assms by (simp add: handles_ok_def)
    then have "opened w3 = opened w1" using p by simp
    moreover have "opened (sql_close S db w3) = opened w3 - {db}" using assms by (simp add: handles_ok_def)
    ultimately show ?thesis using o w1 Inr p by (cases p) (simp_all add: open_db_def Let_def opens_cases)
  qed
qed

text \<open>What a list of replicas adds, and the handles of a router.\<close>

definition rw_handles :: "rwdb \<Rightarrow> nat set" where
  "rw_handles rw = set_option (rw_master rw) \<union> set (rw_replicas rw)"

definition owned :: "rwdb option \<Rightarrow> nat set" where
  "owned rwo = (case rwo of None \<Rightarrow> {} | Some rw \<Rightarrow> rw_handles rw)"

lemma open_replicas_handles:
  assumes "handles_ok S E opened" "opened w = A \<union> set rs" "A \<inter> set rs = {}"
  shows "case fold (open_replica S E cfg) dsns (rs, w) of (rs', w') \<Rightarrow>
    opened w' = A \<union> set rs' \<and> A \<inter> set rs' = {}"
  using assms(2,3)
proof (induction dsns arbitrary: rs w)
  case (Cons dsn dsns)
  obtain r w1 where o: "open_db S E (dbc_driver cfg) dsn cfg w = (r, w1)" by fastforce
  then have "opens opened w (r, w1)" by (metis open_db_handles assms(1))
  then show ?case using o Cons.prems Cons.IH [of w1] Cons.IH [of w1]
    by (cases r) (auto simp: open_replica_def opens_cases)
qed simp

lemma init_rwdb_handles:
  assumes "handles_ok S E opened" "init_rwdb S E cfg w = (rwo, w')"
  shows "opened w' = opened w \<union> owned rwo \<and> opened w \<inter> owned rwo = {}"
proof (cases "dbc_dsn cfg = [] \<or> \<not> dbc_enabled cfg")
  case True
  then show ?thesis using assms(2) by (auto simp: init_rwdb_def owned_def)
next
  case False
  obtain r w1 where o: "open_db S E (dbc_driver cfg) (dbc_dsn cfg) cfg w = (r, w1)" by fastforce
  then have w1: "opens opened w (r, w1)" by (metis open_db_handles assms(1))
  show ?thesis
  proof (cases r)
    case (Inl e)
    then show ?thesis using o w1 False assms(2) by (auto simp: init_rwdb_def owned_def opens_cases)
  next
    case (Inr master)
    obtain rs w2 where f: "fold (open_replica S E cfg) (dbc_replica_dsns cfg) ([], w1) = (rs, w2)" by fastforce
    have "opened w1 = opened w1 \<union> set [] \<and> opened w1 \<inter> set [] = {}" by simp
    then have "opened w2 = opened w1 \<union> set rs \<and> opened w1 \<inter> set rs = {}"
      using open_replicas_handles [OF assms(1), of w1 "opened w1" "[]" cfg "dbc_replica_dsns cfg"] f by simp
    then show ?thesis using o w1 f False assms(2) Inr
      by (auto simp: init_rwdb_def owned_def rw_handles_def new_rwdb_def opens_cases)
  qed
qed

lemma close_handles:
  "handles_ok S E opened \<Longrightarrow> opened (fold (sql_close S) hs w) = opened w - set hs"
proof (induction hs arbitrary: w)
  case (Cons h hs)
  have "opened (sql_close S h w) = opened w - {h}" using Cons.prems by (simp add: handles_ok_def)
  then show ?case using Cons by auto
qed simp

lemma rw_close_handles:
  assumes "handles_ok S E opened"
  shows "opened (rw_close S rw w) = opened w - rw_handles rw"
proof -
  have "opened (sql_close S h w) = opened w - {h}" for h using assms by (simp add: handles_ok_def)
  then show ?thesis
    using close_handles [OF assms] by (auto simp: rw_close_def rw_handles_def split: option.splits)
qed

text \<open>The MongoDB client that a failed ping leaves behind.\<close>

definition leaked :: "'w conn_env \<Rightarrow> mongo_config \<Rightarrow> 'w \<Rightarrow> nat set" where
  "leaked E cfg w =
     (if \<not> mgc_enabled cfg \<or> mgc_uri cfg = [] then {}
      else
        (case ce_mongo_connect E (mongo_client_options cfg) w of
           (Inl e, w1) \<Rightarrow> {}
         | (Inr client, w1) \<Rightarrow> if fst (ce_mongo_ping E client None w1) = None then {} else {client}))"

lemma connect_mongodb_handles:
  assumes "handles_ok S E opened" "connect_mongodb E cfg w = (r, w')"
  defines "client \<equiv> (case r of Inr (Some (c, db)) \<Rightarrow> {c} | _ \<Rightarrow> {})"
  shows "opened w' = opened w \<union> leaked E cfg w \<union> client \<and> opened w \<inter> (leaked E cfg w \<union> client) = {} \<and>
    leaked E cfg w \<inter> client = {}"
proof (cases "\<not> mgc_enabled cfg \<or> mgc_uri cfg = []")
  case True
  then show ?thesis using assms(2) by (auto simp: connect_mongodb_def leaked_def client_def)
next
  case False
  obtain x w1 where c: "ce_mongo_connect E (mongo_client_options cfg) w = (x, w1)" by fastforce
  then have w1: "opens opened w (x, w1)" using assms(1) by (metis handles_ok_def)
  show ?thesis
  proof (cases x)
    case (Inl e)
    then have "r = Inl (Wrap ''mongodb connect'' e)" "w' = w1" "leaked E cfg w = {}"
      using c False assms(2) by (simp_all add: connect_mongodb_def leaked_def)
    then show ?thesis using w1 Inl by (simp add: client_def opens_cases)
  next
    case (Inr h)
    obtain p w2 where p: "ce_mongo_ping E h None w1 = (p, w2)" by fastforce
    have "opened (snd (ce_mongo_ping E h None w1)) = opened w1" using assms(1) by (simp add: handles_ok_def)
    then have "opened w2 = opened w1" using p by simp
    moreover have "opened w1 = insert h (opened w)" "h \<notin> opened w" using w1 Inr by (simp_all add: opens_cases)
    moreover have "w' = w2" "r = (case p of None \<Rightarrow> Inr (Some (h, mgc_database cfg)) | Some e \<Rightarrow> Inl (Wrap ''mongodb ping'' e))"
      "leaked E cfg w = (if p = None then {} else {h})"
      using c p Inr False assms(2) by (cases p; simp add: connect_mongodb_def leaked_def)+
    ultimately show ?thesis by (cases p) (simp_all add: client_def)
  qed
qed

text \<open>
  C32: When nothing else opens or closes a connection in between, every connection opened at the start
  is closed by the manager at the end or was closed when its ping failed, but for the MongoDB
  client whose ping failed, which stays open.
\<close>

theorem databases_are_closed:
  assumes "handles_ok S E opened" "init_databases S E cfg w = (m, w1)" "opened w2 = opened w1"
  shows "opened (manager_close S E m w2) = opened w \<union>
    leaked E (mdc_mongodb cfg) (snd (init_rwdb S E (mdc_postgres cfg) (snd (init_rwdb S E (mdc_mysql cfg) w))))"
proof -
  obtain a wa where a: "init_rwdb S E (mdc_mysql cfg) w = (a, wa)" by fastforce
  obtain b wb where b: "init_rwdb S E (mdc_postgres cfg) wa = (b, wb)" by fastforce
  obtain r wc where r: "connect_mongodb E (mdc_mongodb cfg) wb = (r, wc)" by fastforce
  let ?client = "case r of Inr (Some (c, db)) \<Rightarrow> {c} | _ \<Rightarrow> {}"
  have m: "mg_mysql m = a" "mg_postgres m = b" "set_option (mg_mongo_client m) = ?client" "w1 = wc"
    using assms(2) a b r by (auto simp: init_databases_def Let_def split: sum.splits option.splits)
  have A: "opened wa = opened w \<union> owned a \<and> opened w \<inter> owned a = {}" by (rule init_rwdb_handles [OF assms(1) a])
  have B: "opened wb = opened wa \<union> owned b \<and> opened wa \<inter> owned b = {}" by (rule init_rwdb_handles [OF assms(1) b])
  have C: "opened wc = opened wb \<union> leaked E (mdc_mongodb cfg) wb \<union> ?client \<and>
      opened wb \<inter> (leaked E (mdc_mongodb cfg) wb \<union> ?client) = {} \<and> leaked E (mdc_mongodb cfg) wb \<inter> ?client = {}"
    by (rule connect_mongodb_handles [OF assms(1) r])
  have d: "opened (ce_mongo_disconnect E h u) = opened u - {h}" for h u
    using assms(1) by (simp add: handles_ok_def)
  have "opened (manager_close S E m w2) = opened w2 - owned a - owned b - set_option (mg_mongo_client m)"
    using rw_close_handles [OF assms(1)] d m(1,2)
    by (auto simp: manager_close_def Let_def owned_def split: option.splits)
  then show ?thesis using A B C m(3,4) assms(3) a b by auto
qed

subsection \<open>A connector that behaves as documented\<close>

definition ref_fresh :: "ref_world \<Rightarrow> nat" where
  "ref_fresh w = Suc (sum_list (rf_open w))"

definition ref_open :: "ref_world \<Rightarrow> (goerr + nat) \<times> ref_world" where
  "ref_open w = (Inr (ref_fresh w), w\<lparr>rf_open := ref_fresh w # rf_open w\<rparr>)"

definition ref_conn :: "goerr option \<Rightarrow> ref_world conn_env" where
  "ref_conn mongo_answer =
     \<lparr>ce_sql_open = (\<lambda>driver dsn. ref_open), ce_sql_settings = (\<lambda>h a b d w. w),
      ce_mongo_connect = (\<lambda>opts. ref_open), ce_mongo_ping = (\<lambda>h p w. (mongo_answer, w)),
      ce_mongo_disconnect = (\<lambda>h w. w\<lparr>rf_open := removeAll h (rf_open w)\<rparr>)\<rparr>"

lemma ref_fresh_new: "ref_fresh w \<notin> set (rf_open w)"
proof
  assume "ref_fresh w \<in> set (rf_open w)"
  then have "ref_fresh w \<le> sum_list (rf_open w)" by (auto intro: member_le_sum_list)
  then show False by (simp add: ref_fresh_def)
qed

lemma ref_handles_ok: "handles_ok ref_services (ref_conn a) (\<lambda>w. set (rf_open w))"
  using ref_fresh_new by (auto simp: handles_ok_def opens_def ref_conn_def ref_open_def ref_services_def)

definition sample_databases :: multi_database_config where
  "sample_databases = default_databases
     \<lparr>mdc_mysql := (mdc_mysql default_databases)\<lparr>dbc_dsn := ''m'', dbc_replica_dsns := [''r'']\<rparr>,
      mdc_mongodb := (mdc_mongodb default_databases)\<lparr>mgc_uri := ''u''\<rparr>\<rparr>"

theorem databases_are_closed_witness:
  "rf_open (snd (init_databases ref_services (ref_conn (Some redis_nil)) sample_databases (ref_init 0))) = [4, 2, 1] \<and>
   set (rf_open (manager_close ref_services (ref_conn (Some redis_nil))
     (fst (init_databases ref_services (ref_conn (Some redis_nil)) sample_databases (ref_init 0)))
     (snd (init_databases ref_services (ref_conn (Some redis_nil)) sample_databases (ref_init 0))))) = {4}"
proof -
  let ?E = "ref_conn (Some redis_nil)"
  have i: "init_rwdb ref_services ?E (mdc_mysql sample_databases) (ref_init 0) =
      (Some (new_rwdb (Some 1) [2]), (ref_init 0)\<lparr>rf_open := [2, 1]\<rparr>)"
    by (simp add: init_rwdb_def open_db_def open_replica_def sample_databases_def default_databases_def ref_conn_def
        ref_open_def ref_fresh_def ref_services_def ref_init_def numeral_2_eq_2)
  have j: "init_rwdb ref_services ?E (mdc_postgres sample_databases) v = (None, v)" for v
    by (simp add: init_rwdb_def sample_databases_def default_databases_def)
  have l: "leaked ?E (mdc_mongodb sample_databases) ((ref_init 0)\<lparr>rf_open := [2, 1]\<rparr>) = {4}"
    by (simp add: leaked_def sample_databases_def default_databases_def ref_conn_def ref_open_def ref_fresh_def ref_init_def)
  have k: "connect_mongodb ?E (mdc_mongodb sample_databases) v =
      (Inl (Wrap ''mongodb ping'' redis_nil), v\<lparr>rf_open := ref_fresh v # rf_open v\<rparr>)" for v
    by (simp add: connect_mongodb_def sample_databases_def default_databases_def ref_conn_def ref_open_def)
  have m: "rf_open (snd (init_databases ref_services ?E sample_databases (ref_init 0))) = [4, 2, 1]"
    by (simp add: init_databases_def i j k ref_fresh_def Let_def)
  show ?thesis
    using databases_are_closed [OF ref_handles_ok prod.collapse [symmetric] refl, of "Some redis_nil" sample_databases "ref_init 0"] i j l m
    by (simp add: ref_init_def)
qed

end
