(* ===== verification/Swagger.thy ===== *)
theory Swagger
  imports Services
begin

section \<open>The documentation page (internal/middleware/swagger.go)\<close>

text \<open>
  The handler behind \<open>/swagger\<close> passes everything on to the generated pages (\<open>base\<close>, an argument),
  but intercepts what they write for the JSON document and replaces its two date placeholders.
  The lemmas at the end are about \<open>strings.ReplaceAll\<close>: what it replaces is gone afterwards, also
  when the replacement is put next to pieces of the placeholder.
\<close>

text \<open>A \<open>gin.ResponseWriter\<close>: the status, the headers, the body so far.\<close>

record text_writer =
  tx_status :: nat
  tx_headers :: "string \<rightharpoonup> string"
  tx_body :: string

definition has_suffix :: "string \<Rightarrow> string \<Rightarrow> bool" where
  "has_suffix s p \<longleftrightarrow> has_prefix (rev s) (rev p)"

text \<open>\<open>strings.ReplaceAll\<close> for a pattern that is not empty.\<close>

function replace_all :: "string \<Rightarrow> string \<Rightarrow> string \<Rightarrow> string" where
  "replace_all old new [] = []"
| "replace_all old new (c # s) =
     (if old \<noteq> [] \<and> has_prefix (c # s) old then new @ replace_all old new (drop (length old) (c # s))
      else c # replace_all old new s)"
  by pat_completeness auto
termination by (relation "measure (\<lambda>(old, new, s). length s)") auto

text \<open>\<open>swaggerResponseWriter\<close>: status and headers go through, the body is held back.\<close>

definition captured ::
  "(text_writer \<times> 'w \<Rightarrow> text_writer \<times> 'w) \<Rightarrow> text_writer \<times> 'w \<Rightarrow> string \<times> text_writer \<times> 'w" where
  "captured base = (\<lambda>(tw, w).
     case base (tw\<lparr>tx_body := []\<rparr>, w) of (tw1, w1) \<Rightarrow> (tx_body tw1, tw1\<lparr>tx_body := tx_body tw\<rparr>, w1))"

text \<open>\<open>c.Header\<close> with an empty value removes a header; \<open>c.String\<close> sets a content type if there is none.\<close>

definition c_string :: "nat \<Rightarrow> string \<Rightarrow> text_writer \<Rightarrow> text_writer" where
  "c_string status s tw =
     (let hs = tx_headers tw
      in tw\<lparr>tx_status := status,
            tx_headers := (if hs ''Content-Type'' = None then hs(''Content-Type'' \<mapsto> ''text/plain; charset=utf-8'') else hs),
            tx_body := tx_body tw @ s\<rparr>)"

definition dated :: "string \<Rightarrow> string \<Rightarrow> string \<Rightarrow> string" where
  "dated days7_ago today content = replace_all ''__TODAY__'' today (replace_all ''__7DAYS_AGO__'' days7_ago content)"

definition swagger_with_runtime_defaults ::
  "'w services \<Rightarrow> (time \<Rightarrow> string) \<Rightarrow> (time \<Rightarrow> int \<Rightarrow> int \<Rightarrow> int \<Rightarrow> time) \<Rightarrow>
   (text_writer \<times> 'w \<Rightarrow> text_writer \<times> 'w) \<Rightarrow> string \<Rightarrow> text_writer \<times> 'w \<Rightarrow> text_writer \<times> 'w" where
  "swagger_with_runtime_defaults S date_text add_date base path = (\<lambda>(tw, w).
     if has_suffix path ''doc.json'' \<or> has_suffix path ''swagger.json''
     then (case captured base (tw, w) of (body, tw1, w1) \<Rightarrow>
             if body \<noteq> []
             then (case sv_now S w1 of (t1, w2) \<Rightarrow>
                   case sv_now S w2 of (t2, w3) \<Rightarrow>
                     (let content = dated (date_text (add_date t2 0 0 (- 7))) (date_text t1) body
                      in (c_string 200 content (tw1\<lparr>tx_headers := (tx_headers tw1)(''Content-Length'' := None)\<rparr>), w3)))
             else (tw1, w1))
     else base (tw, w))"

section \<open>No placeholder is left\<close>

text \<open>\<open>fits p new\<close>: text with \<open>new\<close> put in cannot show \<open>p\<close> across a border of it.\<close>

definition fits :: "string \<Rightarrow> string \<Rightarrow> bool" where
  "fits p new \<longleftrightarrow> p \<noteq> [] \<and> hd p \<notin> set new \<and> last p \<notin> set new \<and> \<not> set new \<subseteq> set p"

lemma replace_all_prefix:
  "take k (replace_all old new s) = take k s \<or> (\<exists>p q. length p < k \<and> replace_all old new s = p @ new @ q)"
proof (induction old new s arbitrary: k rule: replace_all.induct)
  case (2 old new c s)
  show ?case
  proof (cases "old \<noteq> [] \<and> has_prefix (c # s) old \<or> k = 0")
    case True
    then show ?thesis
    proof (cases "k = 0")
      case False
      with True have "length [] < k" "replace_all old new (c # s) = [] @ new @ replace_all old new (drop (length old) (c # s))"
        by simp_all
      then show ?thesis by blast
    qed simp
  next
    case False
    then obtain j where k: "k = Suc j" by (cases k) auto
    from 2(2) False have "take j (replace_all old new s) = take j s \<or>
      (\<exists>p q. length p < j \<and> replace_all old new s = p @ new @ q)" by blast
    then show ?thesis
    proof
      assume "\<exists>p q. length p < j \<and> replace_all old new s = p @ new @ q"
      then obtain p q where "length p < j" "replace_all old new s = p @ new @ q" by blast
      then have "length (c # p) < k" "replace_all old new (c # s) = (c # p) @ new @ q" using False k by auto
      then show ?thesis by blast
    qed (use False k in auto)
  qed
qed simp

lemma no_prefix_across:
  assumes "fits p new" "has_prefix (x @ new @ q) p" "length x < length p"
  shows False
proof -
  define n where "n = length p - length x"
  have p: "p = x @ take n (new @ q)" using assms(2,3) by (auto simp: has_prefix_iff n_def)
  have n: "0 < n" "new \<noteq> []" using assms(1,3) by (auto simp: n_def fits_def)
  show False
  proof (cases "n \<le> length new")
    case True
    then have "p = x @ take n new" "take n new \<noteq> []" using p n by simp_all
    then have "last p \<in> set (take n new)" by (metis last_appendR last_in_set)
    then show False using assms(1) by (auto simp: fits_def dest: in_set_takeD)
  next
    case False
    then have "set new \<subseteq> set p" by (subst p) auto
    then show False using assms(1) by (simp add: fits_def)
  qed
qed

lemma no_match_in_new:
  assumes "fits p new" "\<not> str_contains s p"
  shows "\<not> str_contains (new @ s) p"
proof -
  have "\<not> str_contains (x @ s) p" if "set x \<subseteq> set new" for x
    using that assms by (induction x) (auto simp: fits_def neq_Nil_conv)
  then show ?thesis by simp
qed

text \<open>Neither what is replaced nor a text that was not there comes out of a replacement.\<close>

lemma replace_all_removes:
  assumes "fits p new" "p = old \<or> \<not> str_contains s p"
  shows "\<not> str_contains (replace_all old new s) p"
  using assms
proof (induction old new s rule: replace_all.induct)
  case (1 old new)
  then show ?case by (simp add: fits_def)
next
  case (2 old new c s)
  show ?case
  proof (cases "old \<noteq> [] \<and> has_prefix (c # s) old")
    case True
    have "p = old \<or> \<not> str_contains (drop (length old) (c # s)) p"
      using 2(4) str_contains_append [of "drop (length old) (c # s)" p "take (length old) (c # s)"] by auto
    with 2(1) [OF True 2(3)] True no_match_in_new [OF 2(3)] show ?thesis by simp
  next
    case False
    let ?r = "replace_all old new s"
    have r: "\<not> str_contains ?r p" using 2(2) [OF False 2(3)] 2(4) by auto
    have "\<not> has_prefix (c # ?r) p"
    proof
      assume h: "has_prefix (c # ?r) p"
      obtain p0 p' where p: "p = p0 # p'" using 2(3) by (auto simp: fits_def neq_Nil_conv)
      have "\<not> has_prefix (c # s) p" using False 2(3,4) by (auto simp: fits_def)
      then have "take (length p') ?r \<noteq> take (length p') s" using h by (auto simp: p has_prefix_iff)
      then obtain x q where "length x < length p'" "?r = x @ new @ q" using replace_all_prefix [of "length p'" old new s] by blast
      then show False using no_prefix_across [OF 2(3), of "c # x" q] h by (simp add: p)
    qed
    then show ?thesis using r by (simp only: replace_all.simps if_not_P [OF False] str_contains.simps simp_thms)
  qed
qed

definition date_like :: "string \<Rightarrow> bool" where
  "date_like s \<longleftrightarrow> CHR ''-'' \<in> set s \<and> CHR ''_'' \<notin> set s"

text \<open>The JSON document is sent with both placeholders replaced.\<close>

theorem swagger_doc_is_dated:
  assumes "\<forall>t. date_like (date_text t)" "has_suffix path ''doc.json''"
    and "captured base (tw, w) = (body, tw1, w1)" "body \<noteq> []" "tx_body tw = []"
  shows "case swagger_with_runtime_defaults S date_text add_date base path (tw, w) of (tw', w') \<Rightarrow>
    tx_status tw' = 200 \<and> tx_headers tw' ''Content-Length'' = None \<and>
    \<not> str_contains (tx_body tw') ''__TODAY__'' \<and> \<not> str_contains (tx_body tw') ''__7DAYS_AGO__''"
proof -
  have f: "fits ''__TODAY__'' (date_text t)" "fits ''__7DAYS_AGO__'' (date_text t)" for t
    using assms(1) by (auto simp: fits_def date_like_def)
  have "\<not> str_contains (replace_all ''__7DAYS_AGO__'' (date_text t) body) ''__7DAYS_AGO__''" for t
    by (rule replace_all_removes [OF f(2)]) simp
  then have d: "\<not> str_contains (dated (date_text t) (date_text u) body) ''__7DAYS_AGO__''"
    "\<not> str_contains (dated (date_text t) (date_text u) body) ''__TODAY__''" for t u
    unfolding dated_def using replace_all_removes [OF f(2)] replace_all_removes [OF f(1)] by blast+
  have b: "tx_body tw1 = []" using assms(3,5) by (auto simp: captured_def split: prod.splits)
  show ?thesis
    using assms(2,3,4) b d by (simp add: swagger_with_runtime_defaults_def c_string_def Let_def split: prod.split)
qed

text \<open>A page with one placeholder.\<close>

definition sample_page :: "text_writer \<times> ref_world \<Rightarrow> text_writer \<times> ref_world" where
  "sample_page = (\<lambda>(tw, w). (tw\<lparr>tx_status := 200, tx_body := ''on __TODAY__.''\<rparr>, w))"

theorem swagger_doc_is_dated_witness:
  "case swagger_with_runtime_defaults ref_services (\<lambda>t. ''2026-07-01'') (\<lambda>t a b c. t) sample_page ''/swagger/doc.json''
       (\<lparr>tx_status = 200, tx_headers = Map.empty, tx_body = []\<rparr>, ref_init 0) of (tw', w') \<Rightarrow>
     tx_body tw' = ''on 2026-07-01.'' \<and> \<not> str_contains (tx_body tw') ''__TODAY__''"
proof -
  have c: "captured sample_page (\<lparr>tx_status = 200, tx_headers = Map.empty, tx_body = []\<rparr>, ref_init 0) =
      (''on __TODAY__.'', \<lparr>tx_status = 200, tx_headers = Map.empty, tx_body = []\<rparr>, ref_init 0)"
    by (simp add: captured_def sample_page_def)
  have s: "has_suffix ''/swagger/doc.json'' ''doc.json''" by (simp add: has_suffix_def)
  have r: "dated d ''2026-07-01'' ''on __TODAY__.'' = ''on 2026-07-01.''" for d by (simp add: dated_def)
  show ?thesis
    using swagger_doc_is_dated [OF _ s c, of "\<lambda>t. ''2026-07-01''" ref_services "\<lambda>t a b c. t"] s c r
    by (simp add: swagger_with_runtime_defaults_def date_like_def c_string_def Let_def split: prod.splits)
qed

end
