(* ===== verification/Server.thy ===== *)
theory Server
  imports Handlers Auth Health Database_Manager Data_Loader Schema Swagger
begin

section \<open>The server (cmd/server/main.go)\<close>

text \<open>
  \<open>main\<close>: the logger, the components it builds from the configuration and how it wires them, the
  routes with the middleware of their groups, the probes, and the order in which things are
  stopped. What \<open>main\<close> calls outside the repository is in the environment \<open>server_env\<close>.
\<close>

subsection \<open>The logger\<close>

text \<open>\<open>filepath.Clean\<close> and \<open>filepath.Dir\<close> on Unix paths.\<close>

fun path_segments :: "string \<Rightarrow> string list" where
  "path_segments [] = [[]]"
| "path_segments (c # s) =
     (if c = CHR ''/'' then [] # path_segments s
      else (case path_segments s of [] \<Rightarrow> [[c]] | seg # segs \<Rightarrow> (c # seg) # segs))"

definition clean_step :: "bool \<Rightarrow> string list \<Rightarrow> string \<Rightarrow> string list" where
  "clean_step rooted out seg =
     (if seg = [] \<or> seg = ''.'' then out
      else if seg \<noteq> ''..'' then out @ [seg]
      else if out \<noteq> [] \<and> last out \<noteq> ''..'' then butlast out
      else if rooted then out
      else out @ [seg])"

definition path_clean :: "string \<Rightarrow> string" where
  "path_clean p =
     (let rooted = has_prefix p ''/'';
          out = join_with ''/'' (foldl (clean_step rooted) [] (path_segments p))
      in if rooted then CHR ''/'' # out else if out = [] then ''.'' else out)"

definition path_dir :: "string \<Rightarrow> string" where
  "path_dir p = path_clean (rev (dropWhile (\<lambda>c. c \<noteq> CHR ''/'') (rev p)))"

datatype log_level = DebugLevel | InfoLevel | WarnLevel | ErrorLevel

datatype log_encoder = JsonEncoder | ConsoleEncoder

text \<open>\<open>lumberjack.Logger\<close>.\<close>

record log_rotation =
  lj_filename :: string
  lj_max_size :: int
  lj_max_backups :: int
  lj_max_age :: int
  lj_compress :: bool

text \<open>Standard error is always written to.\<close>

record zap_core =
  zc_encoder :: log_encoder
  zc_level :: log_level
  zc_file :: "log_rotation option"

definition parse_log_level :: "string \<Rightarrow> log_level" where
  "parse_log_level level =
     (if level = ''debug'' then DebugLevel
      else if level = ''info'' then InfoLevel
      else if level = ''warn'' then WarnLevel
      else if level = ''error'' then ErrorLevel
      else InfoLevel)"

definition log_rotation_of :: "logging_config \<Rightarrow> log_rotation" where
  "log_rotation_of lc =
     \<lparr>lj_filename = lgc_output lc,
      lj_max_size = (if lgc_max_size_mb lc \<le> 0 then 100 else lgc_max_size_mb lc),
      lj_max_backups = (if lgc_max_backups lc \<le> 0 then 7 else lgc_max_backups lc),
      lj_max_age = (if lgc_max_age_days lc \<le> 0 then 30 else lgc_max_age_days lc),
      lj_compress = lgc_compress lc\<rparr>"

definition init_logger :: "(string \<Rightarrow> 'w \<Rightarrow> goerr option \<times> 'w) \<Rightarrow> logging_config \<Rightarrow> 'w \<Rightarrow> zap_core \<times> 'w" where
  "init_logger mkdir_all lc w =
     (\<lparr>zc_encoder = (if lgc_format lc = ''structured'' then JsonEncoder else ConsoleEncoder),
       zc_level = parse_log_level (lgc_level lc),
       zc_file = (if lgc_output lc \<noteq> [] then Some (log_rotation_of lc) else None)\<rparr>,
      if lgc_output lc \<noteq> [] \<and> path_dir (lgc_output lc) \<noteq> ''.'' then snd (mkdir_all (path_dir (lgc_output lc)) w) else w)"

subsection \<open>What main calls and what it builds\<close>

text \<open>
  \<open>se_db\<close> and \<open>se_put_db\<close> read and write the \<open>*RWDB\<close> the manager and the data loader share;
  \<open>se_valid_*\<close> are the validator on the request types; \<open>se_order_rand\<close> the random bytes of the
  package's \<open>init\<close>. \<open>se_new_redis\<close>, \<open>se_new_reader\<close> and \<open>se_set_mode\<close> say whether
  \<open>redis.NewClient\<close>, \<open>kafka.NewReader\<close> and \<open>gin.SetMode\<close> accept their arguments; they panic on
  others (a negative pool size, no broker, a mode that is not one of Gin's).
\<close>

record 'w server_env =
  se_services :: "'w services"
  se_conn :: "'w conn_env"
  se_es :: "'w es_env"
  se_auth :: "'w auth_env"
  se_admin :: "'w kafka_admin"
  se_new_redis :: "l2_cache_config \<Rightarrow> bool"
  se_redis_ping :: "'w \<Rightarrow> goerr option \<times> 'w"
  se_mkdir_all :: "string \<Rightarrow> 'w \<Rightarrow> goerr option \<times> 'w"
  se_new_l1 :: "int \<Rightarrow> int \<Rightarrow> int \<Rightarrow> goerr option"
  se_new_reader :: "string list \<Rightarrow> string \<Rightarrow> string \<Rightarrow> bool"
  se_set_mode :: "string \<Rightarrow> bool"
  se_order_rand :: "nat list option"
  se_db :: "'w \<Rightarrow> rwdb option"
  se_put_db :: "rwdb \<Rightarrow> 'w \<Rightarrow> 'w"
  se_uuid :: "'w \<Rightarrow> string \<times> 'w"
  se_json_text :: "json \<Rightarrow> string"
  se_valid_create :: "create_order_request \<Rightarrow> goerr option"
  se_valid_profile :: "user_profile \<Rightarrow> goerr option"
  se_valid_register :: "register_request \<Rightarrow> goerr option"
  se_valid_login :: "login_request \<Rightarrow> goerr option"
  se_date_text :: "time \<Rightarrow> string"
  se_parse_date :: "string \<Rightarrow> time option"
  se_add_date :: "time \<Rightarrow> int \<Rightarrow> int \<Rightarrow> int \<Rightarrow> time"
  se_read_sql :: "string \<Rightarrow> goerr + string"
  se_read_json :: "string \<Rightarrow> goerr + wire"
  se_create_many :: "string \<Rightarrow> mongo_index list \<Rightarrow> 'w \<Rightarrow> goerr option \<times> 'w"

record 'w app =
  ap_server :: "'w server"
  ap_auth :: auth_service
  ap_manager :: manager
  ap_producer :: producer
  ap_dlq :: producer
  ap_consumer :: consumer
  ap_health :: "'w health_checker"
  ap_cors :: cors_settings
  ap_logger :: zap_core
  ap_search :: bool

text \<open>\<open>main\<close> may end by \<open>Fatal\<close> or by a panic before it serves.\<close>

datatype 'a startup_result = Serving 'a | FatalExit goerr | PanicExit

definition cors_settings_of :: "cors_config \<Rightarrow> cors_settings" where
  "cors_settings_of c =
     \<lparr>cx_enabled = cors_enabled c, cx_allowed_origins = cors_allowed_origins c, cx_allowed_methods = cors_allowed_methods c,
      cx_allowed_headers = cors_allowed_headers c, cx_exposed_headers = cors_exposed_headers c,
      cx_allow_credentials = cors_allow_credentials c, cx_max_age = cors_max_age c\<rparr>"

text \<open>Steps 5 to 7: the cache with its detector and loader.\<close>

definition build_cache :: "'w server_env \<Rightarrow> app_config \<Rightarrow> manager \<Rightarrow> 'w mlc" where
  "build_cache E cfg m =
     (let cc = cfg_cache cfg; hk = cfg_hot_key cfg;
          det = new_detector (hkc_window_seconds hk) (hkc_slots hk) (hkc_threshold hk);
          mongo = mg_mongo_db m \<noteq> None;
          ld = new_data_loader (se_services E) mongo (new_profile_repo mongo) (se_db E) (se_put_db E);
          mc1 = set_jitter_pct (cc_jitter_percent cc) (new_cache True (Some ld) (Some det));
          mc2 = set_null_ttl (null_ttl_config cc) mc1;
          mc3 = set_l1_base_ttl (s64 (l1c_ttl_seconds (cc_l1 cc) * second)) mc2
      in if l2c_ttl_seconds (cc_l2 cc) > 0 then set_l2_base_ttl (s64 (l2c_ttl_seconds (cc_l2 cc) * second)) mc3 else mc3)"

definition build_breaker :: "circuit_breaker_config \<Rightarrow> time \<Rightarrow> breaker" where
  "build_breaker c now =
     new_breaker ''cdcdx-cb'' (cbc_max_requests c) (cbc_interval_seconds c) (cbc_timeout_seconds c) (cbc_failure_threshold c)
       (cbc_slow_call_threshold_ms c) now"

definition build_consumer :: "consumer_config \<Rightarrow> producer \<Rightarrow> consumer" where
  "build_consumer c dlq =
     new_consumer (csc_topic c) (csc_concurrency c) (csc_rate_limit c) (csc_max_retries c) (Some dlq) (csc_start_from_latest c)"

text \<open>
  \<open>kafka.NewReader\<close> panics on a configuration it rejects, \<open>make\<close> on a negative channel size; the
  tickers of the breaker's and the detector's loops on a period that is not positive.
\<close>

definition consumer_accepts :: "'w server_env \<Rightarrow> kafka_config \<Rightarrow> bool" where
  "consumer_accepts E k \<longleftrightarrow>
     se_new_reader E (kc_brokers k) (csc_topic (kc_consumer k)) (csc_group_id (kc_consumer k)) \<and> 0 \<le> csc_concurrency (kc_consumer k)"

definition loops_start :: "'w mlc \<Rightarrow> breaker \<Rightarrow> bool" where
  "loops_start mc cb \<longleftrightarrow> window_loop_start cb = None \<and>
     (case mc_hot_keys mc of None \<Rightarrow> True | Some det \<Rightarrow> cleanup_loop_start det = None)"

text \<open>
  Go evaluates \<open>Addresses[0]\<close> first. The breaker, the limiter and the health checker read the clock
  when they are built.
\<close>

definition start_server :: "'w server_env \<Rightarrow> app_config \<Rightarrow> 'w \<Rightarrow> ('w app \<times> 'w) startup_result" where
  "start_server E cfg w0 =
     (let S = se_services E; cc = cfg_cache cfg
      in case sv_now S w0 of (ti1, wa) \<Rightarrow>
         case sv_now S wa of (ti2, wb) \<Rightarrow>
         case init_logger (se_mkdir_all E) (cfg_logging cfg) wb of (lg, w1) \<Rightarrow>
         if l2c_addresses (cc_l2 cc) = [] \<or> \<not> se_new_redis E (cc_l2 cc) then PanicExit
         else
           (case se_redis_ping E w1 of (_, w2) \<Rightarrow>
            case init_databases S (se_conn E) (cfg_databases cfg) w2 of (m, w3) \<Rightarrow>
            case connect_elasticsearch (se_es E) (mdc_elasticsearch (cfg_databases cfg)) w3 of ((es, _), w4) \<Rightarrow>
            case se_new_l1 E (s64 (l1c_max_entries (cc_l1 cc) * 10)) (l1c_max_entries (cc_l1 cc)) 64 of
              Some e \<Rightarrow> FatalExit e
            | None \<Rightarrow>
                (case sv_now S w4 of (t1, w5) \<Rightarrow>
                 case sv_now S w5 of (t2, w6) \<Rightarrow>
                 case new_producer (se_admin E) (kc_brokers (cfg_kafka cfg)) (pc_topic (kc_producer (cfg_kafka cfg)))
                        (pc_max_retries (kc_producer (cfg_kafka cfg))) w6 of (kp, w7) \<Rightarrow>
                 case dlq_producer (se_admin E) cfg w7 of (dlq, w8) \<Rightarrow>
                 case sv_now S w8 of (t3, w9) \<Rightarrow>
                   (let mc = build_cache E cfg m; search = new_search_client es;
                        cb = build_breaker (cfg_circuit_breaker cfg) t1;
                        rl = new_limiter (rlc_bucket_capacity (cfg_rate_limiter cfg)) (rlc_refill_rate (cfg_rate_limiter cfg)) t2;
                        ids = init_order_ids (se_order_rand E) ti1 ti2;
                        os = new_order_service mc (Some kp) rl True cb (mg_mysql m) search (fst ids) (snd ids);
                        ps = new_profile_service mc (Some (new_profile_repo (mg_mongo_db m \<noteq> None))) search;
                        h = new_health_checker True (Some mc) (Some cb) (Some (producer_ping S kp)) t3
                    in if \<not> consumer_accepts E (cfg_kafka cfg) \<or> \<not> loops_start mc cb \<or> \<not> se_set_mode E (sc_mode (cfg_server cfg)) then PanicExit
                       else Serving
                         (\<lparr>ap_server = \<lparr>sh_cache = mc, sh_orders = os, sh_profiles = ps, sh_analytics = Some (new_analytics (mg_postgres m))\<rparr>,
                           ap_auth = new_auth_service (mg_mysql m) (jc_secret (cfg_jwt cfg)) (jc_expire_seconds (cfg_jwt cfg)),
                           ap_manager = m, ap_producer = kp, ap_dlq = dlq,
                           ap_consumer = build_consumer (kc_consumer (cfg_kafka cfg)) dlq,
                           ap_health = set_startup_completed h, ap_cors = cors_settings_of (cfg_cors cfg), ap_logger = lg,
                           ap_search = search\<rparr>, w9)))))"

text \<open>\<open>main\<close> itself, from the configuration file on.\<close>

definition run_main ::
  "'w server_env \<Rightarrow> (string \<Rightarrow> app_config \<Rightarrow> goerr + app_config) \<Rightarrow> read_result \<Rightarrow> 'w \<Rightarrow> ('w app \<times> 'w) startup_result" where
  "run_main E unmarshal file w =
     (case load_config unmarshal file of
        Inl e \<Rightarrow> FatalExit e
      | Inr cfg \<Rightarrow> start_server E cfg w)"

text \<open>Step 9, in the background: tables, collections, search indexes.\<close>

definition ensure_all ::
  "'w server_env \<Rightarrow> ((string \<times> int) list \<Rightarrow> (string \<times> int) list) \<Rightarrow>
   ((string \<times> mongo_index list) list \<Rightarrow> (string \<times> mongo_index list) list) \<Rightarrow> bool \<Rightarrow> 'w app \<Rightarrow> 'w \<Rightarrow> 'w" where
  "ensure_all E walk_keys walk swapped ap w =
     (case ensure_all_sql_tables (se_services E) (se_read_sql E) (mg_mysql (ap_manager ap)) (mg_postgres (ap_manager ap)) w of
        (_, w1) \<Rightarrow>
      case ensure_mongo_collections (se_read_json E) (se_create_many E) walk_keys walk (mg_mongo_db (ap_manager ap) \<noteq> None) w1 of
        (_, w2) \<Rightarrow> if ap_search ap then snd (ensure_search_indexes (se_es E) True swapped w2) else w2)"

definition start_consumer :: "'w server_env \<Rightarrow> app_config \<Rightarrow> 'w \<Rightarrow> int list \<times> 'w" where
  "start_consumer E cfg w =
     consumer_start (se_admin E) (kc_brokers (cfg_kafka cfg)) (csc_topic (kc_consumer (cfg_kafka cfg)))
       (csc_concurrency (kc_consumer (cfg_kafka cfg))) w"

subsection \<open>Routes\<close>

text \<open>
  The handlers have state and reply types of their own; \<open>via\<close> runs one on its part of the
  server's state, and puts what it wrote into the response.
\<close>

datatype app_data = Biz biz_data | Authn auth_data

definition narrow :: "'d gin \<Rightarrow> 'e gin" where
  "narrow c = \<lparr>gn_request = gn_request c, gn_context = gn_context c, gn_trace_id = gn_trace_id c, gn_user_id = gn_user_id c,
     gn_username = gn_username c, gn_logger = gn_logger c, gn_headers = gn_headers c, gn_written = [],
     gn_errors = gn_errors c, gn_aborted = gn_aborted c\<rparr>"

definition map_response :: "('e \<Rightarrow> 'd) \<Rightarrow> 'e api_response \<Rightarrow> 'd api_response" where
  "map_response f r = \<lparr>ar_code = ar_code r, ar_message = ar_message r, ar_data = map_option f (ar_data r), ar_trace_id = ar_trace_id r\<rparr>"

definition widen :: "('e \<Rightarrow> 'd) \<Rightarrow> 'd gin \<Rightarrow> 'e gin \<Rightarrow> 'd gin" where
  "widen f c e = c\<lparr>gn_context := gn_context e, gn_headers := gn_headers e, gn_errors := gn_errors e, gn_aborted := gn_aborted e,
     gn_written := gn_written c @ map (map_prod id (map_option (map_response f))) (gn_written e)\<rparr>"

definition via :: "('e \<Rightarrow> 'd) \<Rightarrow> ('s \<Rightarrow> 't) \<Rightarrow> ('t \<Rightarrow> 's \<Rightarrow> 's) \<Rightarrow> ('e, 't \<times> 'w) http_handler \<Rightarrow> ('d, 's \<times> 'w) http_handler" where
  "via f get put h = (\<lambda>(c, s, w).
     case h (narrow c, get s, w) of
       None \<Rightarrow> None
     | Some (e, t, w1) \<Rightarrow> Some (widen f c e, put t s, w1))"

definition biz :: "(biz_data, 'w server \<times> 'w) http_handler \<Rightarrow> (app_data, 'w app \<times> 'w) http_handler" where
  "biz = via Biz ap_server (\<lambda>t s. s\<lparr>ap_server := t\<rparr>)"

definition authn :: "(auth_data, auth_service \<times> 'w) http_handler \<Rightarrow> (app_data, 'w app \<times> 'w) http_handler" where
  "authn = via Authn ap_auth (\<lambda>t s. s\<lparr>ap_auth := t\<rparr>)"

text \<open>A method of a nil analytics service panics; \<open>main\<close> always builds one.\<close>

definition stats :: "(biz_data, analytics \<times> 'w) http_handler \<Rightarrow> (app_data, 'w app \<times> 'w) http_handler" where
  "stats h = (\<lambda>(c, s, w).
     case sh_analytics (ap_server s) of
       None \<Rightarrow> None
     | Some a \<Rightarrow> via Biz (\<lambda>_. a) (\<lambda>t s. s\<lparr>ap_server := (ap_server s)\<lparr>sh_analytics := Some t\<rparr>\<rparr>) h (c, s, w))"

datatype endpoint =
    EpRegister | EpLogin | EpGetMe
  | EpCreateOrder | EpCreateOrderSync | EpGetOrder | EpSearchOrders
  | EpUpsertProfile | EpGetProfile | EpSearchUsers
  | EpDailyStats | EpBehaviors
  | EpMetrics | EpBreakerState | EpCacheStats

fun endpoint_handler :: "'w server_env \<Rightarrow> endpoint \<Rightarrow> (app_data, 'w app \<times> 'w) http_handler" where
  "endpoint_handler E EpRegister = authn (register_handler (se_services E) (se_auth E) (se_valid_register E))"
| "endpoint_handler E EpLogin = authn (login_handler (se_services E) (se_auth E) (se_valid_login E))"
| "endpoint_handler E EpGetMe = authn (get_me_handler (se_auth E))"
| "endpoint_handler E EpCreateOrder = biz (create_order_handler (se_services E) (se_json_text E) (se_valid_create E))"
| "endpoint_handler E EpCreateOrderSync = biz (create_order_sync_handler (se_services E) (se_json_text E) (se_valid_create E))"
| "endpoint_handler E EpGetOrder = biz (get_order_handler (se_services E))"
| "endpoint_handler E EpSearchOrders = biz (search_orders_handler (se_es E))"
| "endpoint_handler E EpUpsertProfile = biz (upsert_user_profile_handler (se_services E) (se_valid_profile E))"
| "endpoint_handler E EpGetProfile = biz (get_user_profile_handler (se_services E))"
| "endpoint_handler E EpSearchUsers = biz (search_users_handler (se_es E))"
| "endpoint_handler E EpDailyStats = stats (get_daily_stats_handler (se_services E) (se_date_text E) (se_parse_date E) (se_add_date E))"
| "endpoint_handler E EpBehaviors = stats (get_behavior_summary_handler (se_services E) (se_add_date E))"
| "endpoint_handler E EpMetrics = biz (metrics_handler (se_services E))"
| "endpoint_handler E EpBreakerState = biz circuit_breaker_state_handler"
| "endpoint_handler E EpCacheStats = biz get_cache_stats_handler"

text \<open>Method, path, whether the group has the JWT middleware, handler.\<close>

definition auth_routes :: "(string \<times> string \<times> bool \<times> endpoint) list" where
  "auth_routes =
     [(''POST'', ''/api/v1/auth/register'', False, EpRegister),
      (''POST'', ''/api/v1/auth/login'', False, EpLogin)]"

definition v1_routes :: "(string \<times> string \<times> bool \<times> endpoint) list" where
  "v1_routes =
     [(''GET'', ''/api/v1/auth/me'', True, EpGetMe),
      (''POST'', ''/api/v1/orders'', True, EpCreateOrder),
      (''POST'', ''/api/v1/orders/sync'', True, EpCreateOrderSync),
      (''GET'', ''/api/v1/orders/:orderNo'', True, EpGetOrder),
      (''GET'', ''/api/v1/orders/search'', True, EpSearchOrders),
      (''POST'', ''/api/v1/users/profile'', True, EpUpsertProfile),
      (''GET'', ''/api/v1/users/:userID/profile'', True, EpGetProfile),
      (''GET'', ''/api/v1/users/search'', True, EpSearchUsers),
      (''GET'', ''/api/v1/analytics/daily'', True, EpDailyStats),
      (''GET'', ''/api/v1/analytics/behaviors'', True, EpBehaviors)]"

definition monitor_routes :: "(string \<times> string \<times> bool \<times> endpoint) list" where
  "monitor_routes =
     [(''GET'', ''/api/v1/monitor/metrics'', False, EpMetrics),
      (''GET'', ''/api/v1/monitor/circuit-breaker'', False, EpBreakerState),
      (''GET'', ''/api/v1/monitor/cache-stats'', False, EpCacheStats)]"

definition routes :: "(string \<times> string \<times> bool \<times> endpoint) list" where
  "routes = auth_routes @ v1_routes @ monitor_routes"

text \<open>
  Gin picks the route and fills in the parameters of the path; then the global chain, the
  middleware of the group and the handler run. The state is \<open>None\<close> after a panic that the
  recovery middleware answered.
\<close>

definition lift_uuid :: "('w \<Rightarrow> string \<times> 'w) \<Rightarrow> 's \<times> 'w \<Rightarrow> string \<times> 's \<times> 'w" where
  "lift_uuid uuid = (\<lambda>(s, w). case uuid w of (tid, w1) \<Rightarrow> (tid, s, w1))"

definition serve ::
  "'w server_env \<Rightarrow> string \<times> string \<times> bool \<times> endpoint \<Rightarrow> http_request \<Rightarrow> 'w app \<times> 'w \<Rightarrow> app_data gin \<times> ('w app \<times> 'w) option" where
  "serve E rt rq = (\<lambda>(ap, w).
     case rt of (verb, path, needs_token, ep) \<Rightarrow>
       global_chain (lift_uuid (se_uuid E)) (ap_cors ap)
         (if needs_token then jwt_auth (se_services E) (se_auth E) ap_auth (endpoint_handler E ep) else endpoint_handler E ep)
         (new_gin rq, ap, w))"

text \<open>The probes, on the cache and the breaker of the moment.\<close>

definition probe_state :: "'w app \<Rightarrow> 'w health_checker" where
  "probe_state ap = (ap_health ap)\<lparr>hc_cache := Some (sh_cache (ap_server ap)), hc_cb := Some (os_cb (sh_orders (ap_server ap)))\<rparr>"

definition serve_readiness :: "'w server_env \<Rightarrow> 'w app \<Rightarrow> 'w \<Rightarrow> (nat \<times> health_body) \<times> 'w" where
  "serve_readiness E ap w = readiness (se_redis_ping E) (probe_state ap) w"

definition serve_liveness :: "'w server_env \<Rightarrow> 'w app \<Rightarrow> 'w \<Rightarrow> (nat \<times> health_body) \<times> 'w" where
  "serve_liveness E ap w = (case sv_now (se_services E) w of (t, w1) \<Rightarrow> (liveness t (probe_state ap), w1))"

text \<open>The first reading of the clock is made only if the start is still to be decided by the time.\<close>

definition serve_startup :: "'w server_env \<Rightarrow> 'w app \<Rightarrow> 'w \<Rightarrow> (nat \<times> health_body) \<times> 'w app \<times> 'w" where
  "serve_startup E ap w =
     (let h = probe_state ap;
          by_time = (\<not> hc_startup_completed h \<and> \<not> (case hc_cache h of None \<Rightarrow> False | Some mc \<Rightarrow> st_total (cache_stats_of mc) > 0))
      in case (if by_time then sv_now (se_services E) w else (0, w)) of (t1, w1) \<Rightarrow>
         case sv_now (se_services E) w1 of (t2, w2) \<Rightarrow>
         case startup t1 t2 h of (r, h1) \<Rightarrow> (r, ap\<lparr>ap_health := h1\<rparr>, w2))"

text \<open>The documentation, where the configuration enables it; \<open>base\<close> is the handler of the generated pages.\<close>

definition swagger_route ::
  "'w server_env \<Rightarrow> (text_writer \<times> 'w \<Rightarrow> text_writer \<times> 'w) \<Rightarrow> app_config \<Rightarrow> (string \<Rightarrow> text_writer \<times> 'w \<Rightarrow> text_writer \<times> 'w) option" where
  "swagger_route E base cfg =
     (if cfg_swagger_enabled cfg
      then Some (swagger_with_runtime_defaults (se_services E) (se_date_text E) (se_add_date E) base)
      else None)"

subsection \<open>Shutdown\<close>

text \<open>
  What \<open>main\<close> stops itself when the signal arrives, then what its deferred calls close, in the
  reverse of their order; \<open>delays\<close> are those of the two breaker loops and of the workers. Requests
  may still run in between: \<open>srv.Shutdown\<close> comes after the components have been stopped. The producers
  and the Redis client are closed as well; their \<open>Close\<close> only releases connections of the libraries.
\<close>

definition stop_components :: "duration \<Rightarrow> duration \<Rightarrow> 'w app \<Rightarrow> 'w app option" where
  "stop_components done1 done2 ap =
     (let sv = ap_server ap; os = sh_orders sv
      in case cb_stop done1 done2 (os_cb os) of
           None \<Rightarrow> None
         | Some (cb, _) \<Rightarrow>
             (case mc_hot_keys (sh_cache sv) of
                None \<Rightarrow> None
              | Some det \<Rightarrow>
                  (case hk_stop det of
                     None \<Rightarrow> None
                   | Some det1 \<Rightarrow>
                       (case cache_close ((sh_cache sv)\<lparr>mc_hot_keys := Some det1\<rparr>) of
                          None \<Rightarrow> None
                        | Some mc \<Rightarrow>
                            (case sh_analytics sv of
                               None \<Rightarrow> None
                             | Some a \<Rightarrow>
                                 (case analytics_close a of
                                    None \<Rightarrow> None
                                  | Some a1 \<Rightarrow>
                                      Some (ap\<lparr>ap_server := sv\<lparr>sh_cache := mc, sh_orders := os\<lparr>os_cb := cb\<rparr>, sh_analytics := Some a1\<rparr>\<rparr>)))))))"

definition close_all :: "'w server_env \<Rightarrow> duration list \<Rightarrow> 'w app \<Rightarrow> 'w \<Rightarrow> ('w app \<times> 'w) option" where
  "close_all E delays ap w =
     (case consumer_stop (ap_consumer ap) delays of
        None \<Rightarrow> None
      | Some (ec, _) \<Rightarrow> Some (ap\<lparr>ap_consumer := ec\<rparr>, manager_close (se_services E) (se_conn E) (ap_manager ap) w))"

section \<open>Every request is answered\<close>

text \<open>
  A handler answers under an invariant of the state: it does not panic and keeps the invariant.
  The first lemmas are about the pieces the handlers are made of.
\<close>

definition answers :: "('s \<Rightarrow> bool) \<Rightarrow> ('d, 's \<times> 'w) http_handler \<Rightarrow> bool" where
  "answers I h \<longleftrightarrow> (\<forall>c s w. I s \<longrightarrow> (\<exists>c' s' w'. h (c, s, w) = Some (c', s', w') \<and> I s'))"

lemma answersI: "(\<And>c s w. I s \<Longrightarrow> \<exists>c' s' w'. h (c, s, w) = Some (c', s', w') \<and> I s') \<Longrightarrow> answers I h"
  by (simp add: answers_def)

lemma answersD: "answers I h \<Longrightarrow> I s \<Longrightarrow> \<exists>c' s' w'. h (c, s, w) = Some (c', s', w') \<and> I s'"
  by (simp add: answers_def)

lemma via_answers:
  assumes "answers J h" "\<And>s. I s \<Longrightarrow> J (get s)" "\<And>s t. I s \<Longrightarrow> J t \<Longrightarrow> I (put t s)"
  shows "answers I (via f get put h)"
proof (rule answersI)
  fix c :: "'e gin" and s w assume i: "I s"
  obtain e t w1 where "h (narrow c, get s, w) = Some (e, t, w1)" "J t"
    using answersD [OF assms(1) assms(2) [OF i]] by blast
  then show "\<exists>c' s' w'. via f get put h (c, s, w) = Some (c', s', w') \<and> I s'"
    using assms(3) [OF i] by (simp add: via_def)
qed

definition cache_fine :: "'w mlc \<Rightarrow> bool" where
  "cache_fine mc \<longleftrightarrow> detector_fine (mc_hot_keys mc) \<and> counters_ok mc"

definition sv_inv :: "'w server \<Rightarrow> bool" where
  "sv_inv s \<longleftrightarrow> os_inv ((sh_orders s)\<lparr>os_cache := sh_cache s\<rparr>) \<and> sh_analytics s \<noteq> None"

lemma sv_inv_cache: "sv_inv s \<Longrightarrow> cache_fine (sh_cache s)"
  by (simp add: sv_inv_def os_inv_def cache_fine_def)

lemma with_orders_answers:
  assumes "sv_inv s" "\<exists>x. f ((sh_orders s)\<lparr>os_cache := sh_cache s\<rparr>, w) = Some x \<and> os_inv (left_by x)"
  shows "\<exists>r s' w'. with_orders f (s, w) = Some (r, s', w') \<and> sv_inv s'"
  using assms by (auto simp: with_orders_def sv_inv_def)

lemma with_profiles_answers:
  assumes "sv_inv s" "\<exists>r ps w'. f ((sh_profiles s)\<lparr>ps_cache := sh_cache s\<rparr>, w) = Some (r, ps, w') \<and> cache_fine (ps_cache ps)"
  shows "\<exists>r s' w'. with_profiles f (s, w) = Some (r, s', w') \<and> sv_inv s'"
  using assms by (auto simp: with_profiles_def sv_inv_def cache_fine_def os_inv_def)

lemma get_profile_answers:
  assumes "cache_fine (ps_cache ps)"
  shows "\<exists>r ps' w'. get_profile S user_id (ps, w) = Some (r, ps', w') \<and> cache_fine (ps_cache ps')"
proof -
  obtain v found err c w1 where g: "cache_get S (ps_cache ps) (profile_key user_id) w = Some ((v, found, err), c, w1)"
      and f: "detector_fine (mc_hot_keys c)" "counters_ok c"
    using cache_get_some [of "ps_cache ps" S "profile_key user_id" w] assms unfolding cache_fine_def by (metis prod.collapse)
  have "ps_cache (fst (snd (load_from_mongo S user_id k (p, u)))) = ps_cache p" for k p u
    by (simp add: load_from_mongo_def split: option.split sum.split prod.split)
  then have "\<exists>r p' u'. load_from_mongo S user_id k (p, u) = (r, p', u') \<and> ps_cache p' = ps_cache p" for k p u
    by (metis prod.collapse)
  then obtain r p' u' where l: "load_from_mongo S user_id (profile_key user_id) (ps\<lparr>ps_cache := c\<rparr>, w1) = (r, p', u')" "ps_cache p' = c"
    by (metis (no_types, lifting) profile_service.select_convs(1) profile_service.surjective profile_service.update_convs(1))
  show ?thesis
    using f l by (cases err; cases found; cases "v = GNil") (simp_all add: get_profile_def g cache_fine_def Let_def)
qed

lemma upsert_profile_answers:
  assumes "cache_fine (ps_cache ps)"
  shows "cache_fine (ps_cache (fst (snd (upsert_profile S u (ps, w)))))"
  using assms
  by (auto simp: upsert_profile_def invalidate_with_delay_def index_profile_to_es_def cache_fine_def counters_ok_def Let_def
      split: option.splits prod.splits)

subsection \<open>The business handlers\<close>

lemma create_answers:
  assumes "clock_ok S clk"
  shows "answers sv_inv (handle_create_order S json_text valid msg force)"
proof (rule answersI)
  fix c :: "biz_data gin" and s :: "'a server" and w assume i: "sv_inv s"
  have o: "\<exists>x. creation S force tid od ((sh_orders s)\<lparr>os_cache := sh_cache s\<rparr>, w) = Some x \<and> os_inv (left_by x)" for tid od
    using create_order_inv [OF assms, of "(sh_orders s)\<lparr>os_cache := sh_cache s\<rparr>" tid od w]
      force_sync_inv [OF assms, of "(sh_orders s)\<lparr>os_cache := sh_cache s\<rparr>" tid od w] i
    by (simp add: creation_def sv_inv_def)
  show "\<exists>c' s' w'. handle_create_order S json_text valid msg force (c, s, w) = Some (c', s', w') \<and> sv_inv s'"
  proof (cases "bind_json unmarshal_create c")
    case (Inl e)
    then show ?thesis using i by (simp add: handle_create_order_def Let_def)
  next
    case (Inr req)
    let ?od = "zero_order\<lparr>ord_user_id := cor_user_id req, ord_amount := cor_amount req\<rparr>"
    obtain r s1 w1 where x: "with_orders (creation S force (from_context (gn_context c)) ?od) (s, w) = Some (r, s1, w1)" "sv_inv s1"
      using with_orders_answers [where f = "creation S force (from_context (gn_context c)) ?od", OF i o] by blast
    obtain ch no e where r: "r = (ch, no, e)" by (cases r)
    show ?thesis
      using x Inr i r by (cases "valid req"; cases e; cases "sh_analytics s1") (auto simp: handle_create_order_def Let_def sv_inv_def)
  qed
qed

lemma get_order_answers: "answers sv_inv (get_order_handler S)"
proof (rule answersI)
  fix c :: "biz_data gin" and s :: "'a server" and w assume i: "sv_inv s"
  let ?no = "rq_params (gn_request c) ''orderNo''"
  have "\<exists>x. get_order S ?no ((sh_orders s)\<lparr>os_cache := sh_cache s\<rparr>, w) = Some x \<and> os_inv (left_by x)"
    using i by (intro get_order_inv) (simp add: sv_inv_def)
  from with_orders_answers [where f = "get_order S ?no", OF i this] obtain r s1 w1 where "with_orders (get_order S ?no) (s, w) = Some (r, s1, w1)" "sv_inv s1" by blast
  then show "\<exists>c' s' w'. get_order_handler S (c, s, w) = Some (c', s', w') \<and> sv_inv s'"
    by (cases r) (simp_all add: get_order_handler_def Let_def)
qed

lemma get_profile_handler_answers: "answers sv_inv (get_user_profile_handler S)"
proof (rule answersI)
  fix c :: "biz_data gin" and s :: "'a server" and w assume i: "sv_inv s"
  show "\<exists>c' s' w'. get_user_profile_handler S (c, s, w) = Some (c', s', w') \<and> sv_inv s'"
  proof (cases "parse_uint (rq_params (gn_request c) ''userID'')")
    case None
    then show ?thesis using i by (simp add: get_user_profile_handler_def Let_def)
  next
    case (Some u)
    have "cache_fine (ps_cache ((sh_profiles s)\<lparr>ps_cache := sh_cache s\<rparr>))" using sv_inv_cache [OF i] by simp
    from with_profiles_answers [where f = "get_profile S u", OF i get_profile_answers [OF this]]
    obtain r s1 w1 where "with_profiles (get_profile S u) (s, w) = Some (r, s1, w1)" "sv_inv s1" by blast
    then show ?thesis using Some
      by (cases r) (simp_all add: get_user_profile_handler_def Let_def split_beta)
  qed
qed

lemma upsert_handler_answers: "answers sv_inv (upsert_user_profile_handler S valid)"
proof (rule answersI)
  fix c :: "biz_data gin" and s :: "'a server" and w assume i: "sv_inv s"
  have "cache_fine (ps_cache ((sh_profiles s)\<lparr>ps_cache := sh_cache s\<rparr>))" using sv_inv_cache [OF i] by simp
  from upsert_profile_answers [OF this]
  have "\<exists>r ps w'. Some (upsert_profile S u ((sh_profiles s)\<lparr>ps_cache := sh_cache s\<rparr>, w)) = Some (r, ps, w') \<and> cache_fine (ps_cache ps)" for u
    by (metis prod.collapse)
  from with_profiles_answers [where f = "\<lambda>pw. Some (upsert_profile S u pw)" for u, OF i this]
  have p: "\<exists>r s1 w1. with_profiles (\<lambda>pw. Some (upsert_profile S u pw)) (s, w) = Some (r, s1, w1) \<and> sv_inv s1" for u .
  show "\<exists>c' s' w'. upsert_user_profile_handler S valid (c, s, w) = Some (c', s', w') \<and> sv_inv s'"
  proof (cases "bind_json unmarshal_profile_body c")
    case (Inl e)
    then show ?thesis using i by (simp add: upsert_user_profile_handler_def Let_def)
  next
    case (Inr u)
    obtain r s1 w1 where "with_profiles (\<lambda>pw. Some (upsert_profile S u pw)) (s, w) = Some (r, s1, w1)" "sv_inv s1"
      using p [of u] by blast
    then show ?thesis using i Inr
      by (cases "valid u"; cases r) (simp_all add: upsert_user_profile_handler_def Let_def)
  qed
qed

lemma search_answers: "answers sv_inv (search_orders_handler E)" "answers sv_inv (search_users_handler E)"
  by (auto intro!: answersI simp: search_orders_handler_def search_users_handler_def split: sum.split prod.split)

lemma monitor_answers:
  "answers sv_inv (metrics_handler S)" "answers sv_inv circuit_breaker_state_handler" "answers sv_inv get_cache_stats_handler"
  by (auto intro!: answersI simp: metrics_handler_def circuit_breaker_state_handler_def get_cache_stats_handler_def sv_inv_def os_inv_def
      split: prod.split)

lemma stats_answers: "answers (\<lambda>_. True) (get_daily_stats_handler S dt pd ad)" "answers (\<lambda>_. True) (get_behavior_summary_handler S ad)"
  by (auto intro!: answersI simp: get_daily_stats_handler_def get_behavior_summary_handler_def Let_def split: prod.split option.split)

subsection \<open>The authentication handlers\<close>

definition au_inv :: "auth_service \<Rightarrow> bool" where
  "au_inv au \<longleftrightarrow> (\<exists>rw. au_repo au = Some rw \<and> rw_master rw \<noteq> None)"

lemma query_user_answers:
  assumes "db = Some rw" "rw_master rw \<noteq> None"
  shows "\<exists>r rw' w'. query_user A cond arg ctx (db, w) = Some (r, Some rw', w') \<and> rw_master rw' \<noteq> None"
proof -
  obtain h rw1 where r: "rw_replica rw = (Some h, rw1)" "rw_master rw1 \<noteq> None"
    using assms(2) by (cases "rw_replicas rw = []") (auto simp: rw_replica_def Let_def)
  obtain x w1 where "ae_user_row A h (user_columns_sql @ cond @ '' = ?'') [arg] w = (x, w1)" by force
  with r assms(1) show ?thesis by (cases x) (simp_all add: query_user_def)
qed

lemma repo_answers:
  assumes "au_inv au"
  shows "\<exists>r rw' w'. get_by_username A name (au_repo au, w) = Some (r, Some rw', w') \<and> rw_master rw' \<noteq> None"
    and "\<exists>r rw' w'. get_by_id A user_id (au_repo au, w) = Some (r, Some rw', w') \<and> rw_master rw' \<noteq> None"
    and "\<exists>r rw' w'. get_by_email A email (au_repo au, w) = Some (r, Some rw', w') \<and> rw_master rw' \<noteq> None"
    and "\<exists>r w'. insert_user A u (au_repo au, w) = Some (r, au_repo au, w')"
proof -
  obtain rw where rw: "au_repo au = Some rw" "rw_master rw \<noteq> None" using assms by (auto simp: au_inv_def)
  show "\<exists>r rw' w'. get_by_username A name (au_repo au, w) = Some (r, Some rw', w') \<and> rw_master rw' \<noteq> None"
    "\<exists>r rw' w'. get_by_id A user_id (au_repo au, w) = Some (r, Some rw', w') \<and> rw_master rw' \<noteq> None"
    "\<exists>r rw' w'. get_by_email A email (au_repo au, w) = Some (r, Some rw', w') \<and> rw_master rw' \<noteq> None"
    unfolding get_by_username_def get_by_id_def get_by_email_def by (rule query_user_answers [OF rw])+
  from rw(2) obtain h where h: "rw_master rw = Some h" by blast
  obtain x w1 where x: "ae_insert A h insert_user_sql (user_args u) w = (x, w1)" by force
  show "\<exists>r w'. insert_user A u (au_repo au, w) = Some (r, au_repo au, w')"
    using rw(1) h x by (cases x; cases "projr x") (auto simp: insert_user_def split: sum.splits)
qed

lemma register_insert_answers:
  assumes "au_inv au"
  shows "\<exists>r au' w'. register_insert S A req (au, w) = Some (r, au', w') \<and> au_inv au'"
proof -
  obtain x w1 where x: "ae_hash A (rr_password req) w = (x, w1)" by force
  show ?thesis
  proof (cases x)
    case (Inl e)
    with x assms show ?thesis by (simp add: register_insert_def)
  next
    case (Inr hash)
    obtain y w2 where y: "insert_user A (new_user req hash) (au_repo au, w1) = Some (y, au_repo au, w2)"
      using repo_answers(4) [where A = A, OF assms] by blast
    then show ?thesis using x Inr assms
      by (cases y) (auto simp: register_insert_def Let_def split: prod.split sum.split)
  qed
qed

lemma au_inv_repo: "rw_master rw \<noteq> None \<Longrightarrow> au_inv (au\<lparr>au_repo := Some rw\<rparr>)"
  by (simp add: au_inv_def)

lemma register_answers:
  assumes "au_inv au"
  shows "\<exists>r au' w'. register S A req (au, w) = Some (r, au', w') \<and> au_inv au'"
proof -
  obtain r rw w1 where r: "get_by_username A (rr_username req) (au_repo au, w) = Some (r, Some rw, w1)" "rw_master rw \<noteq> None"
    using repo_answers(1) [where A = A, OF assms] by blast
  have i: "au_inv (au\<lparr>au_repo := Some rw\<rparr>)" by (rule au_inv_repo [OF r(2)])
  obtain r2 rw2 w2 where r2: "get_by_email A (rr_email req) (Some rw, w1) = Some (r2, Some rw2, w2)" "rw_master rw2 \<noteq> None"
    using repo_answers(3) [where A = A and email = "rr_email req" and w = w1, OF i] by auto
  have i2: "au_inv (au\<lparr>au_repo := Some rw2\<rparr>)" by (rule au_inv_repo [OF r2(2)])
  note t = register_insert_answers [OF i, of S A req w1] register_insert_answers [OF i2, of S A req w2]
  show ?thesis
    using i i2 t r(1) r2(1)
    by (cases r; cases r2) (auto simp: register_def Let_def split: option.split)
qed

lemma login_answers:
  assumes "au_inv au"
  shows "\<exists>r au' w'. login S A req (au, w) = Some (r, au', w') \<and> au_inv au'"
proof -
  obtain r rw w1 where r: "get_by_username A (lr_username req) (au_repo au, w) = Some (r, Some rw, w1)" "rw_master rw \<noteq> None"
    using repo_answers(1) [where A = A, OF assms] by blast
  have i: "au_inv (au\<lparr>au_repo := Some rw\<rparr>)" "au_inv (au\<lparr>au_repo := Some rw, au_pending := xs\<rparr>)" for xs
    using r(2) by (simp_all add: au_inv_def)
  show ?thesis
    using i r(1) by (cases r) (auto simp: login_def Let_def split: option.split prod.split sum.split)
qed

lemma auth_answers:
  "answers au_inv (register_handler S A vr)" "answers au_inv (login_handler S A vl)" "answers au_inv (get_me_handler A)"
proof -
  show "answers au_inv (register_handler S A vr)"
  proof (rule answersI)
    fix c :: "auth_data gin" and au and w :: 'a assume i: "au_inv au"
    show "\<exists>c' s' w'. register_handler S A vr (c, au, w) = Some (c', s', w') \<and> au_inv s'"
    proof (cases "bind_json unmarshal_register c")
      case (Inl e)
      then show ?thesis using i by (simp add: register_handler_def Let_def)
    next
      case (Inr req)
      obtain r au1 w1 where "register S A req (au, w) = Some (r, au1, w1)" "au_inv au1" using register_answers [where A = A and S = S, OF i] by blast
      then show ?thesis using Inr i by (cases "vr req"; cases r) (simp_all add: register_handler_def Let_def)
    qed
  qed
  show "answers au_inv (login_handler S A vl)"
  proof (rule answersI)
    fix c :: "auth_data gin" and au and w :: 'a assume i: "au_inv au"
    show "\<exists>c' s' w'. login_handler S A vl (c, au, w) = Some (c', s', w') \<and> au_inv s'"
    proof (cases "bind_json unmarshal_login c")
      case (Inl e)
      then show ?thesis using i by (simp add: login_handler_def Let_def)
    next
      case (Inr req)
      obtain r au1 w1 where "login S A req (au, w) = Some (r, au1, w1)" "au_inv au1" using login_answers [where A = A and S = S, OF i] by blast
      then show ?thesis using Inr i by (cases "vl req"; cases r) (simp_all add: login_handler_def Let_def)
    qed
  qed
  show "answers au_inv (get_me_handler A)"
  proof (rule answersI)
    fix c :: "auth_data gin" and au and w :: 'a assume i: "au_inv au"
    obtain r rw w1 where r: "get_by_id A (get_user_id c) (au_repo au, w) = Some (r, Some rw, w1)" "rw_master rw \<noteq> None"
      using repo_answers(2) [where A = A, OF i] by blast
    obtain y where "get_user_info A (get_user_id c) (au, w) = Some (y, au\<lparr>au_repo := Some rw\<rparr>, w1)"
      using r(1) by (simp add: get_user_info_def)
    then show "\<exists>c' s' w'. get_me_handler A (c, au, w) = Some (c', s', w') \<and> au_inv s'"
      using au_inv_repo [OF r(2)] by (cases y) (simp_all add: get_me_handler_def Let_def)
  qed
qed

subsection \<open>The routes\<close>

definition app_inv :: "'w app \<Rightarrow> bool" where
  "app_inv ap \<longleftrightarrow> sv_inv (ap_server ap) \<and> au_inv (ap_auth ap)"

lemma biz_answers: "answers sv_inv h \<Longrightarrow> answers app_inv (biz h)"
  unfolding biz_def by (rule via_answers [where J = sv_inv]) (simp_all add: app_inv_def)

lemma authn_answers: "answers au_inv h \<Longrightarrow> answers app_inv (authn h)"
  unfolding authn_def by (rule via_answers [where J = au_inv]) (simp_all add: app_inv_def)

lemma stats_route_answers:
  assumes "answers (\<lambda>_. True) h"
  shows "answers app_inv (stats h)"
proof (rule answersI)
  fix c :: "app_data gin" and s :: "'a app" and w assume i: "app_inv s"
  then obtain a where a: "sh_analytics (ap_server s) = Some a" by (auto simp: app_inv_def sv_inv_def)
  obtain e t w1 where "h (narrow c, a, w) = Some (e, t, w1)" using answersD [OF assms, where s = a] by blast
  then show "\<exists>c' s' w'. stats h (c, s, w) = Some (c', s', w') \<and> app_inv s'"
    using i a by (simp add: stats_def via_def app_inv_def sv_inv_def)
qed

lemma endpoint_answers:
  assumes "clock_ok (se_services E) clk"
  shows "answers app_inv (endpoint_handler E ep)"
  by (cases ep)
    (simp_all add: biz_answers authn_answers stats_route_answers auth_answers create_answers [OF assms] create_order_handler_def
      create_order_sync_handler_def get_order_answers search_answers upsert_handler_answers get_profile_handler_answers
      stats_answers monitor_answers)

lemma jwt_answers: "answers I h \<Longrightarrow> answers I (jwt_auth S A au_of h)"
  unfolding answers_def by (auto simp: jwt_auth_def Let_def split: prod.splits sum.splits)

lemma chain_answers:
  assumes "answers I h" "I s"
  shows "\<exists>c' s' w'. global_chain (lift_uuid uuid) cfg h (c, s, w) = (c', Some (s', w')) \<and> I s'"
proof -
  have "answers I (cors cfg h)"
    using assms(1) unfolding answers_def by (auto simp: cors_cases Let_def)
  then have e: "answers I (error_handler (cors cfg h))"
    unfolding answers_def error_handler_def by (fastforce split: option.splits)
  obtain c1 w1 where t: "trace_id (lift_uuid uuid) (zap_logger Some) (c, s, w) = Some (c1, s, w1)"
    by (cases "uuid w"; cases "get_header c ''X-Trace-Id'' = []")
      (simp_all add: trace_id_def zap_logger_def lift_uuid_def Let_def del: split_paired_Ex)
  obtain c' s' w' where "error_handler (cors cfg h) (c1, s, w1) = Some (c', s', w')" "I s'"
    using answersD [OF e assms(2)] by blast
  then show ?thesis using t by (simp add: global_chain_def recovery_def)
qed

lemma serve_answers:
  assumes "clock_ok (se_services E) clk" "app_inv ap"
  shows "\<exists>c' ap' w'. serve E rt rq (ap, w) = (c', Some (ap', w')) \<and> app_inv ap'"
proof -
  obtain verb path needs ep where rt: "rt = (verb, path, needs, ep)" by (cases rt) auto
  note e = endpoint_answers [OF assms(1), of ep]
  show ?thesis
    using chain_answers [OF e assms(2)] chain_answers [OF jwt_answers [OF e] assms(2)] rt
    by (cases needs) (simp_all add: serve_def)
qed

section \<open>The state the server starts in\<close>

lemma init_rwdb_master: "init_rwdb S E cfg w = (Some rw, w') \<Longrightarrow> rw_master rw \<noteq> None"
  by (auto simp: init_rwdb_def new_rwdb_def split: if_splits prod.splits sum.splits)

lemma init_databases_master: "init_databases S E cfg w = (m, w') \<Longrightarrow> mg_mysql m = Some rw \<Longrightarrow> rw_master rw \<noteq> None"
  by (auto simp: init_databases_def Let_def split: prod.splits dest: init_rwdb_master)

lemma build_cache_fields:
  "mc_hot_keys (build_cache E cfg m) =
     Some (new_detector (hkc_window_seconds (cfg_hot_key cfg)) (hkc_slots (cfg_hot_key cfg)) (hkc_threshold (cfg_hot_key cfg)))"
  "counters_ok (build_cache E cfg m)" "\<not> mc_closed (build_cache E cfg m)"
  by (simp_all add: build_cache_def Let_def set_jitter_pct_def set_null_ttl_def set_l1_base_ttl_def set_l2_base_ttl_def
      new_cache_def counters_ok_def)

lemma start_server_state:
  assumes "start_server E cfg w = Serving (ap, w1)"
  shows "(\<forall>rw. mg_mysql (ap_manager ap) = Some rw \<longrightarrow> rw_master rw \<noteq> None) \<and>
    sh_cache (ap_server ap) = build_cache E cfg (ap_manager ap) \<and>
    os_es_slots (sh_orders (ap_server ap)) = 0 \<and> os_es_pending (sh_orders (ap_server ap)) = [] \<and>
    os_db (sh_orders (ap_server ap)) = mg_mysql (ap_manager ap) \<and> os_producer (sh_orders (ap_server ap)) = Some (ap_producer ap) \<and>
    sh_analytics (ap_server ap) = Some (new_analytics (mg_postgres (ap_manager ap))) \<and> au_repo (ap_auth ap) = mg_mysql (ap_manager ap)"
proof -
  have m: "mg_mysql (fst (init_databases S C d u)) = Some rw \<Longrightarrow> rw_master rw \<noteq> None" for S :: "'a services" and C d u rw
    using init_databases_master [of S C d u] by (metis prod.collapse)
  show ?thesis
    using assms unfolding start_server_def Let_def
    by (simp only: split_beta split: if_splits option.splits) (auto simp: new_auth_service_def new_order_service_def dest: m)
qed

lemma start_server_inv:
  assumes "start_server E cfg w = Serving (ap, w1)" "mg_mysql (ap_manager ap) \<noteq> None"
    "detector_ok (hkc_window_seconds (cfg_hot_key cfg)) (hkc_slots (cfg_hot_key cfg))"
  shows "app_inv ap"
proof -
  note st = start_server_state [OF assms(1)]
  have "sv_inv (ap_server ap)"
    using st new_detector_inv [OF assms(3)] build_cache_fields [of E cfg "ap_manager ap"]
    by (auto simp: sv_inv_def os_inv_def new_order_service_def detector_fine_def)
  moreover have "au_inv (ap_auth ap)"
    using assms(2) st by (auto simp: au_inv_def)
  ultimately show ?thesis by (simp add: app_inv_def)
qed

lemma start_server_serves:
  "(\<exists>x. start_server E cfg w = Serving x) \<longleftrightarrow>
     l2c_addresses (cc_l2 (cfg_cache cfg)) \<noteq> [] \<and> se_new_redis E (cc_l2 (cfg_cache cfg)) \<and>
     se_new_l1 E (s64 (l1c_max_entries (cc_l1 (cfg_cache cfg)) * 10)) (l1c_max_entries (cc_l1 (cfg_cache cfg))) 64 = None \<and>
     consumer_accepts E (cfg_kafka cfg) \<and>
     0 < s64 (cbc_interval_seconds (cfg_circuit_breaker cfg) * second) \<and>
     0 < s64 (s64 (hkc_window_seconds (cfg_hot_key cfg) * second) * 2) \<and> se_set_mode E (sc_mode (cfg_server cfg))"
  by (auto simp: start_server_def Let_def loops_start_def build_cache_fields build_breaker_def new_breaker_def window_loop_start_def
      cleanup_loop_start_def new_detector_def split: prod.splits option.splits)

text \<open>
  Without a configuration file the defaults are used, which name no Kafka broker: the consumer's
  reader rejects them and \<open>main\<close> panics (or ended before, on L1).
\<close>

theorem missing_config_never_serves:
  assumes "\<forall>topic group. \<not> se_new_reader E [] topic group"
  shows "run_main E unmarshal FileMissing w \<noteq> Serving x"
proof -
  have "\<not> consumer_accepts E (cfg_kafka default_config)"
    using assms by (simp add: consumer_accepts_def default_config_def default_kafka_def)
  then have "\<not> (\<exists>x. start_server E default_config w = Serving x)" unfolding start_server_serves by blast
  then show ?thesis by (cases x) (simp add: run_main_def load_config_def)
qed

text \<open>A server that has started answers the startup probe with 200.\<close>

lemma started_probe:
  assumes "start_server E cfg w = Serving (ap, w1)"
  shows "fst (fst (serve_startup E ap u)) = 200"
proof -
  have "hc_startup_completed (probe_state ap)"
    using assms unfolding start_server_def Let_def
    by (simp only: split_beta split: if_splits option.splits) (auto simp: set_startup_completed_def probe_state_def)
  then show ?thesis by (simp add: serve_startup_def startup_def Let_def split: prod.split)
qed

end
