(* ===== verification/Lifecycle.thy ===== *)
theory Lifecycle
  imports Server
begin

section \<open>From the start to the shutdown\<close>

text \<open>
  The server as one machine: requests, the background loops of the breaker, the detector and the
  analytics writer, the Kafka consumer, the pending tasks, and the shutdown. The first part shows
  that nothing but the shutdown touches what the shutdown closes, so that it closes each channel
  once; the second that every event leaves the server running.
\<close>

subsection \<open>What the shutdown closes\<close>

definition cache_flags :: "'w mlc \<Rightarrow> bool \<times> bool option" where
  "cache_flags mc = (mc_closed mc, map_option hk_stopped (mc_hot_keys mc))"

definition order_flags :: "'w order_service \<Rightarrow> (bool \<times> bool option) \<times> bool" where
  "order_flags os = (cache_flags (os_cache os), cb_stopped (os_cb os))"

definition stop_flags :: "'w server \<Rightarrow> (bool \<times> bool option) \<times> bool \<times> bool option" where
  "stop_flags sv = (cache_flags (sh_cache sv), cb_stopped (os_cb (sh_orders sv)), map_option an_closed (sh_analytics sv))"

named_theorems flag_simps

lemma cache_flags_upd [flag_simps]:
  "cache_flags (mc\<lparr>mc_delayed := d\<rparr>) = cache_flags mc" "cache_flags (mc\<lparr>mc_misses := n\<rparr>) = cache_flags mc"
  "cache_flags (mc\<lparr>mc_l1_hits := n\<rparr>) = cache_flags mc" "cache_flags (mc\<lparr>mc_l2_hits := n\<rparr>) = cache_flags mc"
  "cache_flags (mc\<lparr>mc_l1_total := n\<rparr>) = cache_flags mc"
  by (simp_all add: cache_flags_def)

lemma order_flags_upd [flag_simps]:
  "order_flags (os\<lparr>os_rl := rl\<rparr>) = order_flags os" "order_flags (os\<lparr>os_async := a\<rparr>) = order_flags os"
  "order_flags (os\<lparr>os_seq := n\<rparr>) = order_flags os" "order_flags (os\<lparr>os_db := db\<rparr>) = order_flags os"
  "order_flags (os\<lparr>os_es_slots := k\<rparr>) = order_flags os" "order_flags (os\<lparr>os_es_pending := p\<rparr>) = order_flags os"
  by (simp_all add: order_flags_def)

lemma order_flags_parts [flag_simps]:
  "cb_stopped cb = cb_stopped (os_cb os) \<Longrightarrow> order_flags (os\<lparr>os_cb := cb\<rparr>) = order_flags os"
  "cache_flags c = cache_flags (os_cache os) \<Longrightarrow> order_flags (os\<lparr>os_cache := c\<rparr>) = order_flags os"
  by (simp_all add: order_flags_def)

text \<open>The breaker and the detector.\<close>

lemma cb_exec_stopped: "cb_stopped (cb_exec m cb) = cb_stopped cb"
  by (cases m) (simp_all add: locked_success_def locked_failure_def transition_to_def Let_def)

lemma cb_fold_stopped: "cb_stopped (fold cb_exec ms cb) = cb_stopped cb"
  by (induction ms arbitrary: cb) (simp_all add: cb_exec_stopped)

lemma breaker_flags [flag_simps]:
  "cb_stopped (record_success d now cb) = cb_stopped cb" "cb_stopped (record_failure now cb) = cb_stopped cb"
  "cb_stopped (fst (window_reset_iter sig cb)) = cb_stopped cb" "cb_stopped (fst (state_transition_iter sig cb)) = cb_stopped cb"
  by (simp_all add: record_success_def record_failure_def cb_fold_stopped)
    (cases sig; simp add: cb_fold_stopped state_tick_def tick_decide_def transition_to_def)+

lemma record_access_flag: "record_access key now h = Some (hot, h') \<Longrightarrow> hk_stopped h' = hk_stopped h"
  by (auto simp: record_access_def Let_def split: option.splits)

lemma cleanup_flag [flag_simps]: "hk_stopped (fst (cleanup_iter sig h)) = hk_stopped h"
  by (cases sig) (simp_all add: cleanup_def cleanup_delete_def)

text \<open>The cache.\<close>

lemma get_miss_flags: "get_miss S mc key w = Some (r, mc', w') \<Longrightarrow> cache_flags mc' = cache_flags mc"
  by (auto simp: get_miss_def cache_flags_def Let_def record_access_flag split: option.splits prod.splits)

lemma cache_get_flags: "cache_get S mc key w = Some (r, mc', w') \<Longrightarrow> cache_flags mc' = cache_flags mc"
  by (auto simp: cache_get_def Let_def flag_simps dest!: get_miss_flags split: option.splits prod.splits sum.splits if_splits)

lemma invalidate_flags [flag_simps]:
  "cache_flags (fst (invalidate_with_delay S key ms (mc, w))) = cache_flags mc"
  "cache_flags (fst (delayed_delete S i (mc, w))) = cache_flags mc"
  by (simp_all add: invalidate_with_delay_def delayed_delete_def flag_simps)

text \<open>The order service.\<close>

lemma db_write_flags [flag_simps]: "order_flags (left_by (db_write S od (os, w))) = order_flags os"
  by (simp add: db_write_def index_order_to_es_def Let_def flag_simps split_beta split: option.split)

lemma create_async_flags [flag_simps]: "order_flags (left_by (create_async S tid od (os, w))) = order_flags os"
  by (simp add: create_async_def split_beta split: option.split)

lemma publish_flags [flag_simps]: "order_flags (fst (publish_order_event S tid od (os, w))) = order_flags os"
  by (simp add: publish_order_event_def flag_simps split_beta split: option.split)

lemma write_and_publish_flags [flag_simps]: "order_flags (left_by (write_and_publish S fch tid od start (os, w))) = order_flags os"
proof -
  obtain e os1 w1 where d: "db_write S od (os, w) = (e, os1, w1)" by (metis prod.collapse)
  obtain n w2 where n: "sv_now S w1 = (n, w2)" by force
  obtain t w3 where t: "sv_now S w2 = (t, w3)" by force
  have "order_flags os1 = order_flags os" using db_write_flags [of S od os w] d by simp
  then show ?thesis
    by (cases e) (simp_all add: write_and_publish_def d n t Let_def flag_simps split_beta)
qed

lemma create_sync_flags: "create_sync S tid od (os, w) = Some x \<Longrightarrow> order_flags (left_by x) = order_flags os"
  by (auto simp: create_sync_def flag_simps split_beta split: option.splits if_splits)

lemma prepare_flags [flag_simps]: "order_flags (left_by (prepare_order S od (os, w))) = order_flags os"
  by (simp add: prepare_order_def generate_order_no_def Let_def flag_simps split_beta)

lemma create_order_flags: "create_order S tid od (os, w) = Some x \<Longrightarrow> order_flags (left_by x) = order_flags os"
  using prepare_flags [of S od os w]
  by (auto simp: create_order_def flag_simps Let_def split_beta dest!: create_sync_flags split: if_splits)

lemma force_sync_flags: "create_order_force_sync S tid od (os, w) = Some x \<Longrightarrow> order_flags (left_by x) = order_flags os"
  using prepare_flags [of S od os w]
  by (auto simp: create_order_force_sync_def flag_simps split_beta split: option.splits if_splits)

lemma handle_event_flags [flag_simps]: "order_flags (left_by (handle_order_event S val (os, w))) = order_flags os"
  using db_write_flags [of S _ os w]
  by (auto simp: handle_order_event_def split_beta split: option.splits)

lemma db_query_flags: "db_query S no (os, w) = Some x \<Longrightarrow> order_flags (left_by x) = order_flags os"
  by (auto simp: db_query_def Let_def flag_simps split_beta split: option.splits sum.splits if_splits)

lemma get_order_flags:
  assumes "get_order S no (os, w) = Some x"
  shows "order_flags (left_by x) = order_flags os"
proof -
  obtain v found err c w1 where g: "cache_get S (os_cache os) (order_key no) w = Some ((v, found, err), c, w1)"
    using assms by (auto simp: get_order_def split: option.splits)
  then have "order_flags (os\<lparr>os_cache := c\<rparr>) = order_flags os" by (simp add: flag_simps cache_get_flags)
  then show ?thesis
    using assms by (auto simp: get_order_def g Let_def dest!: db_query_flags split: option.splits gval.splits if_splits)
qed

lemma order_step_flags:
  assumes "order_step S (Some (os, w)) op = Some (os', w')"
  shows "order_flags os' = order_flags os"
proof (cases op)
  case (OEvent val)
  then show ?thesis using assms handle_event_flags [of S val os w] by simp
next
  case (OGet no)
  then show ?thesis using assms get_order_flags [of S no os w] by auto
next
  case (OIndexed i)
  then show ?thesis using assms by (auto simp: run_es_task_def flag_simps split: option.splits if_splits prod.splits)
next
  case (OSent i)
  then show ?thesis using assms by (auto simp: run_async_task_def flag_simps split: option.splits if_splits prod.splits)
next
  case (ODelayed i)
  obtain c w1 where "delayed_delete S i (os_cache os, w) = (c, w1)" by force
  then show ?thesis using assms invalidate_flags(2) [of S i "os_cache os" w] ODelayed
    by (auto simp: order_flags_parts(2))
qed (use assms in \<open>auto dest!: create_order_flags force_sync_flags\<close>)

text \<open>The profile service.\<close>

lemma get_profile_flags:
  assumes "get_profile S user_id (ps, w) = Some (r, ps', w')"
  shows "cache_flags (ps_cache ps') = cache_flags (ps_cache ps)"
proof -
  obtain v found err c w1 where g: "cache_get S (ps_cache ps) (profile_key user_id) w = Some ((v, found, err), c, w1)"
    using assms by (auto simp: get_profile_def Let_def split: option.splits)
  have l: "load_from_mongo S user_id k (p, u) = (r, p', u') \<Longrightarrow> ps_cache p' = ps_cache p" for k p u p' u'
    by (auto simp: load_from_mongo_def split: option.splits sum.splits prod.splits if_splits)
  show ?thesis
    using assms cache_get_flags [OF g] by (auto simp: get_profile_def g Let_def dest: l split: option.splits if_splits)
qed

lemma upsert_profile_flags:
  assumes "upsert_profile S u (ps, w) = (r, ps', w')"
  shows "cache_flags (ps_cache ps') = cache_flags (ps_cache ps)"
  using assms invalidate_flags(1) [of S "profile_key (up_user_id u)" 500 "ps_cache ps"]
  by (auto simp: upsert_profile_def index_profile_to_es_def Let_def split: option.splits prod.splits if_splits) (metis fst_conv)+

lemma profile_task_flags [flag_simps]: "ps_cache (fst (run_profile_task S i (ps, w))) = ps_cache ps"
  by (simp add: run_profile_task_def split_beta)

text \<open>Analytics.\<close>

lemma analytics_flags [flag_simps]:
  "an_closed (log_order_created json_text u no a) = an_closed a" "an_closed (writer_step sig a) = an_closed a"
  "an_closed (fst (write_batch S i (a, w))) = an_closed a"
  "an_closed (fst (snd (service_daily_stats S dt from until (a, w)))) = an_closed a"
  "an_closed (fst (snd (service_behavior_summary S ad ty (a, w)))) = an_closed a"
proof -
  show "an_closed (log_order_created json_text u no a) = an_closed a"
    by (simp add: log_order_created_def log_first_def buf_send_def signal_flush_def Let_def split_beta split: bool.split)
  show "an_closed (writer_step sig a) = an_closed a"
    by (cases sig) (auto simp: writer_step_def drain_step_def take_entry_def flush_batch_def Let_def split: writer_pc.splits list.splits)
qed (simp_all add: write_batch_def service_daily_stats_def service_behavior_summary_def split_beta)

subsection \<open>What a request leaves alone\<close>

definition keeps :: "('s \<Rightarrow> 'f) \<Rightarrow> ('d, 's \<times> 'w) http_handler \<Rightarrow> bool" where
  "keeps f h \<longleftrightarrow> (\<forall>c s w c' s' w'. h (c, s, w) = Some (c', s', w') \<longrightarrow> f s' = f s)"

lemma keepsI: "(\<And>c s w c' s' w'. h (c, s, w) = Some (c', s', w') \<Longrightarrow> f s' = f s) \<Longrightarrow> keeps f h"
  by (simp add: keeps_def)

lemma keepsD: "keeps f h \<Longrightarrow> h (c, s, w) = Some (c', s', w') \<Longrightarrow> f s' = f s"
  unfolding keeps_def by blast

lemma with_orders_flags:
  assumes "with_orders g (s, w) = Some (r, s', w')"
    and "\<And>os u x. g (os, u) = Some x \<Longrightarrow> order_flags (left_by x) = order_flags os"
  shows "stop_flags s' = stop_flags s"
proof -
  obtain os where g: "g ((sh_orders s)\<lparr>os_cache := sh_cache s\<rparr>, w) = Some (r, os, w')" and
      s': "s' = s\<lparr>sh_orders := os, sh_cache := os_cache os\<rparr>"
    using assms(1) by (auto simp: with_orders_def split: option.splits prod.splits)
  show ?thesis using assms(2) [OF g] by (simp add: s' stop_flags_def order_flags_def)
qed

lemma with_profiles_flags:
  assumes "with_profiles g (s, w) = Some (r, s', w')"
    and "\<And>ps u r ps' u'. g (ps, u) = Some (r, ps', u') \<Longrightarrow> cache_flags (ps_cache ps') = cache_flags (ps_cache ps)"
  shows "stop_flags s' = stop_flags s"
proof -
  obtain ps where g: "g ((sh_profiles s)\<lparr>ps_cache := sh_cache s\<rparr>, w) = Some (r, ps, w')" and
      s': "s' = s\<lparr>sh_profiles := ps, sh_cache := ps_cache ps\<rparr>"
    using assms(1) by (auto simp: with_profiles_def split: option.splits prod.splits)
  show ?thesis using assms(2) [OF g] by (simp add: s' stop_flags_def)
qed

lemma creation_flags: "creation S force tid od (os, u) = Some x \<Longrightarrow> order_flags (left_by x) = order_flags os"
  by (auto simp: creation_def dest!: create_order_flags force_sync_flags split: if_splits)

lemma log_flags [flag_simps]:
  "sh_analytics s = Some a \<Longrightarrow> stop_flags (s\<lparr>sh_analytics := Some (log_order_created json_text u no a)\<rparr>) = stop_flags s"
  by (simp add: stop_flags_def flag_simps)

lemma create_keeps: "keeps stop_flags (handle_create_order S json_text valid msg force)"
  by (rule keepsI)
    (auto simp: handle_create_order_def Let_def flag_simps dest!: with_orders_flags [OF _ creation_flags]
      split: sum.splits option.splits prod.splits)

lemma read_keeps:
  "keeps stop_flags (get_order_handler S)" "keeps stop_flags (get_user_profile_handler S)"
  "keeps stop_flags (search_orders_handler E)" "keeps stop_flags (search_users_handler E)"
  "keeps stop_flags circuit_breaker_state_handler" "keeps stop_flags get_cache_stats_handler"
  by (rule keepsI,
      force simp: get_order_handler_def get_user_profile_handler_def search_orders_handler_def search_users_handler_def
        circuit_breaker_state_handler_def get_cache_stats_handler_def Let_def
      dest!: with_orders_flags [OF _ get_order_flags] with_profiles_flags [OF _ get_profile_flags]
      split: sum.splits option.splits prod.splits if_splits)+

lemma upsert_keeps: "keeps stop_flags (upsert_user_profile_handler S valid)"
proof -
  have p: "with_profiles (\<lambda>pw. Some (upsert_profile S u pw)) (s, w) = Some (r, s', w') \<Longrightarrow> stop_flags s' = stop_flags s" for u s w r s' w'
    by (erule with_profiles_flags) (auto dest: upsert_profile_flags)
  show ?thesis
    by (rule keepsI) (auto simp: upsert_user_profile_handler_def Let_def dest!: p split: sum.splits option.splits prod.splits)
qed

lemma metrics_keeps: "keeps stop_flags (metrics_handler S)"
  by (rule keepsI) (auto simp: metrics_handler_def stop_flags_def split: prod.splits)

lemma stats_keeps:
  "keeps an_closed (get_daily_stats_handler S dt pd ad)" "keeps an_closed (get_behavior_summary_handler S ad)"
  by (rule keepsI, force simp: get_daily_stats_handler_def get_behavior_summary_handler_def service_daily_stats_def
      service_behavior_summary_def Let_def split: option.splits prod.splits if_splits)+

text \<open>The routes.\<close>

definition app_flags :: "'w app \<Rightarrow> (bool \<times> bool option) \<times> bool \<times> bool option" where
  "app_flags ap = stop_flags (ap_server ap)"

lemma biz_keeps: "keeps stop_flags h \<Longrightarrow> keeps app_flags (biz h)"
  by (rule keepsI) (auto simp: biz_def via_def app_flags_def dest: keepsD split: option.splits prod.splits)

lemma authn_keeps: "keeps app_flags (authn h)"
  by (rule keepsI) (auto simp: authn_def via_def app_flags_def split: option.splits prod.splits)

lemma stats_route_keeps: "keeps an_closed h \<Longrightarrow> keeps app_flags (stats h)"
  by (rule keepsI) (auto simp: stats_def via_def app_flags_def stop_flags_def dest: keepsD split: option.splits prod.splits)

lemma endpoint_keeps: "keeps app_flags (endpoint_handler E ep)"
  by (cases ep)
    (simp_all add: biz_keeps authn_keeps stats_route_keeps create_keeps read_keeps upsert_keeps metrics_keeps stats_keeps
      create_order_handler_def create_order_sync_handler_def)

lemma jwt_keeps: "keeps f h \<Longrightarrow> keeps f (jwt_auth S A au_of h)"
  by (rule keepsI) (auto simp: jwt_auth_def Let_def dest: keepsD split: if_splits sum.splits prod.splits)

lemma chain_keeps:
  assumes "keeps f h" "global_chain (lift_uuid uuid) cfg h (c, s, w) = (c', Some (s', w'))"
  shows "f s' = f s"
proof -
  have "keeps f (cors cfg h)"
    by (rule keepsI) (use assms(1) in \<open>auto simp: cors_cases Let_def dest: keepsD split: if_splits\<close>)
  then have e: "keeps f (error_handler (cors cfg h))"
    by (intro keepsI) (auto simp: error_handler_def dest: keepsD split: option.splits)
  have "\<exists>c1 w1. trace_id (lift_uuid uuid) (zap_logger Some) (c, s, w) = Some (c1, s, w1)"
    by (cases "uuid w"; cases "get_header c ''X-Trace-Id'' = []") (simp_all add: trace_id_def zap_logger_def lift_uuid_def Let_def)
  then obtain c1 w1 where "trace_id (lift_uuid uuid) (zap_logger Some) (c, s, w) = Some (c1, s, w1)" by blast
  then show ?thesis using assms(2) keepsD [OF e, of c1 s w1]
    by (auto simp: global_chain_def recovery_def split: option.splits prod.splits)
qed

lemma serve_keeps: "serve E rt rq (ap, w) = (c', Some (ap', w')) \<Longrightarrow> app_flags ap' = app_flags ap"
  by (auto simp: serve_def split: prod.splits if_splits dest: chain_keeps [OF endpoint_keeps] chain_keeps [OF jwt_keeps [OF endpoint_keeps]])

section \<open>The server as a machine\<close>

text \<open>
  Requests on any route; the order service's own steps; the writes of login times; the ticks and
  stops of the two breaker loops and of the detector's; the analytics writer and its batches; the
  profile search indexing; the passes of a Kafka worker, with the callback \<open>main\<close> gave it; the
  shutdown of the components; and whatever the outside does to the world. \<open>None\<close> is a panic: of a
  handler, which the recovery middleware would answer, or of a goroutine, which would end the process.
\<close>

datatype 'w app_event =
    AServe "string \<times> string \<times> bool \<times> endpoint" http_request
  | AOrders "'w order_op"
  | ALogin nat
  | ABreakerWindow loop_signal
  | ABreakerState loop_signal
  | ADetector loop_signal
  | AAnalytics writer_signal
  | ABatch nat
  | AProfileTask nat
  | AConsume "'w consumer_env"
  | AStop duration duration
  | AEnv "'w \<Rightarrow> 'w"

definition run_orders :: "'w services \<Rightarrow> 'w order_op \<Rightarrow> 'w app \<times> 'w \<Rightarrow> ('w app \<times> 'w) option" where
  "run_orders S op = (\<lambda>(ap, w).
     case order_step S (Some ((sh_orders (ap_server ap))\<lparr>os_cache := sh_cache (ap_server ap)\<rparr>, w)) op of
       None \<Rightarrow> None
     | Some (os, w1) \<Rightarrow> Some (ap\<lparr>ap_server := (ap_server ap)\<lparr>sh_orders := os, sh_cache := os_cache os\<rparr>\<rparr>, w1))"

definition with_breaker :: "(breaker \<Rightarrow> breaker) \<Rightarrow> 'w server \<Rightarrow> 'w server" where
  "with_breaker f sv = sv\<lparr>sh_orders := (sh_orders sv)\<lparr>os_cb := f (os_cb (sh_orders sv))\<rparr>\<rparr>"

definition with_detector :: "(detector \<Rightarrow> detector) \<Rightarrow> 'w server \<Rightarrow> 'w server" where
  "with_detector f sv = sv\<lparr>sh_cache := (sh_cache sv)\<lparr>mc_hot_keys := map_option f (mc_hot_keys (sh_cache sv))\<rparr>\<rparr>"

text \<open>The callback over the server: the order service works on the shared cache.\<close>

definition app_callback :: "'w services \<Rightarrow> ('w server, 'w) handler" where
  "app_callback S tid key val = (\<lambda>(sv, w).
     case order_callback S tid key val ((sh_orders sv)\<lparr>os_cache := sh_cache sv\<rparr>, w) of
       (r, os, w1) \<Rightarrow> (r, sv\<lparr>sh_orders := os, sh_cache := os_cache os\<rparr>, w1))"

fun app_step :: "'w server_env \<Rightarrow> ('w app \<times> 'w) option \<Rightarrow> 'w app_event \<Rightarrow> ('w app \<times> 'w) option" where
  "app_step E None ev = None"
| "app_step E (Some s) (AServe rt rq) = snd (serve E rt rq s)"
| "app_step E (Some s) (AOrders op) = run_orders (se_services E) op s"
| "app_step E (Some (ap, w)) (ALogin i) =
     (case run_login_task (se_services E) i (ap_auth ap, w) of
        None \<Rightarrow> None | Some (au, w1) \<Rightarrow> Some (ap\<lparr>ap_auth := au\<rparr>, w1))"
| "app_step E (Some (ap, w)) (ABreakerWindow sig) =
     Some (ap\<lparr>ap_server := with_breaker (\<lambda>cb. fst (window_reset_iter sig cb)) (ap_server ap)\<rparr>, w)"
| "app_step E (Some (ap, w)) (ABreakerState sig) =
     Some (ap\<lparr>ap_server := with_breaker (\<lambda>cb. fst (state_transition_iter sig cb)) (ap_server ap)\<rparr>, w)"
| "app_step E (Some (ap, w)) (ADetector sig) =
     Some (ap\<lparr>ap_server := with_detector (\<lambda>h. fst (cleanup_iter sig h)) (ap_server ap)\<rparr>, w)"
| "app_step E (Some (ap, w)) (AAnalytics sig) =
     Some (ap\<lparr>ap_server := (ap_server ap)\<lparr>sh_analytics := map_option (writer_step sig) (sh_analytics (ap_server ap))\<rparr>\<rparr>, w)"
| "app_step E (Some (ap, w)) (ABatch i) =
     (case sh_analytics (ap_server ap) of
        None \<Rightarrow> Some (ap, w)
      | Some a \<Rightarrow>
          (case write_batch (se_services E) i (a, w) of
             (a1, w1) \<Rightarrow> Some (ap\<lparr>ap_server := (ap_server ap)\<lparr>sh_analytics := Some a1\<rparr>\<rparr>, w1)))"
| "app_step E (Some (ap, w)) (AProfileTask i) =
     (case run_profile_task (se_services E) i (sh_profiles (ap_server ap), w) of
        (ps, w1) \<Rightarrow> Some (ap\<lparr>ap_server := (ap_server ap)\<lparr>sh_profiles := ps\<rparr>\<rparr>, w1))"
| "app_step E (Some (ap, w)) (AConsume ce) =
     (case consume_iter (se_services E) ce (ap_consumer ap) (app_callback (se_services E)) (ap_server ap, w) of
        (_, sv, w1) \<Rightarrow> Some (ap\<lparr>ap_server := sv\<rparr>, w1))"
| "app_step E (Some (ap, w)) (AStop d1 d2) = map_option (\<lambda>ap1. (ap1, w)) (stop_components d1 d2 ap)"
| "app_step E (Some (ap, w)) (AEnv f) = Some (ap, f w)"

primrec is_stop :: "'w app_event \<Rightarrow> bool" where
  "is_stop (AServe rt rq) = False" | "is_stop (AOrders op) = False" | "is_stop (ALogin i) = False"
| "is_stop (ABreakerWindow sig) = False" | "is_stop (ABreakerState sig) = False" | "is_stop (ADetector sig) = False"
| "is_stop (AAnalytics sig) = False" | "is_stop (ABatch i) = False" | "is_stop (AProfileTask i) = False"
| "is_stop (AConsume ce) = False" | "is_stop (AStop d1 d2) = True" | "is_stop (AEnv f) = False"

subsection \<open>The events\<close>

text \<open>What an event other than the shutdown does: it ends, and keeps the invariant and the flags.\<close>

definition goes_on :: "'w app \<Rightarrow> ('w app \<times> 'w) option \<Rightarrow> bool" where
  "goes_on ap s \<longleftrightarrow> (\<exists>ap' w'. s = Some (ap', w') \<and> app_inv ap' \<and> app_flags ap' = app_flags ap)"

lemma goes_onI: "app_inv ap' \<Longrightarrow> app_flags ap' = app_flags ap \<Longrightarrow> goes_on ap (Some (ap', w'))"
  by (simp add: goes_on_def)

lemma serve_goes_on:
  assumes "clock_ok (se_services E) clk" "app_inv ap"
  shows "goes_on ap (snd (serve E rt rq (ap, w)))"
  using serve_answers [OF assms, of rt rq w] serve_keeps [of E rt rq ap w] by (auto simp: goes_on_def)

lemma orders_go_on:
  assumes "clock_ok (se_services E) clk" "app_inv ap"
  shows "goes_on ap (run_orders (se_services E) op (ap, w))"
proof -
  let ?os = "(sh_orders (ap_server ap))\<lparr>os_cache := sh_cache (ap_server ap)\<rparr>"
  have "os_inv ?os" using assms(2) by (simp add: app_inv_def sv_inv_def)
  then obtain os w1 where o: "order_step (se_services E) (Some (?os, w)) op = Some (os, w1)" "os_inv os"
    using order_step_inv [OF assms(1), of "Some (?os, w)" op] by auto
  from order_step_flags [OF o(1)] have "order_flags os = order_flags ?os" .
  with o assms(2) show ?thesis
    by (auto simp: run_orders_def app_inv_def sv_inv_def app_flags_def stop_flags_def order_flags_def intro!: goes_onI)
qed

lemma login_goes_on:
  assumes "app_inv ap"
  shows "goes_on ap (app_step E (Some (ap, w)) (ALogin i))"
proof -
  obtain rw where "au_repo (ap_auth ap) = Some rw" "rw_master rw \<noteq> None" using assms by (auto simp: app_inv_def au_inv_def)
  then show ?thesis using assms
    by (auto simp: run_login_task_def update_last_login_at_def app_inv_def au_inv_def app_flags_def intro!: goes_onI split: prod.split)
qed

lemma breaker_goes_on:
  assumes "app_inv ap" "cb_stopped (f (os_cb (sh_orders (ap_server ap)))) = cb_stopped (os_cb (sh_orders (ap_server ap)))"
  shows "goes_on ap (Some (ap\<lparr>ap_server := with_breaker f (ap_server ap)\<rparr>, w))"
  using assms by (auto simp: with_breaker_def app_inv_def sv_inv_def os_inv_def app_flags_def stop_flags_def intro!: goes_onI)

lemma detector_goes_on:
  assumes "app_inv ap"
  shows "goes_on ap (Some (ap\<lparr>ap_server := with_detector (\<lambda>h. fst (cleanup_iter sig h)) (ap_server ap)\<rparr>, w))"
proof -
  have h: "hk_inv h \<Longrightarrow> hk_inv (fst (cleanup_iter sig h))" for h by (cases sig) (simp_all add: cleanup_inv)
  show ?thesis
    using assms h
    by (intro goes_onI)
      (auto simp: with_detector_def app_inv_def sv_inv_def os_inv_def counters_ok_def detector_fine_def app_flags_def stop_flags_def
        cache_flags_def flag_simps option.map_comp comp_def split: option.splits)
qed

lemma consume_goes_on:
  assumes "app_inv ap"
  shows "goes_on ap (app_step E (Some (ap, w)) (AConsume ce))"
proof -
  let ?I = "\<lambda>sv. sv_inv sv \<and> stop_flags sv = stop_flags (ap_server ap)"
  have cb: "?I (fst (snd (app_callback (se_services E) tid key val (sv, u))))" if "?I sv" for tid key val sv u
    using that handle_inv [of "(sh_orders sv)\<lparr>os_cache := sh_cache sv\<rparr>" "se_services E" val u]
      handle_event_flags [of "se_services E" val "(sh_orders sv)\<lparr>os_cache := sh_cache sv\<rparr>" u]
    by (auto simp: app_callback_def order_callback_def sv_inv_def stop_flags_def order_flags_def split_beta)
  have "?I (fst (snd (consume_iter (se_services E) ce ec (app_callback (se_services E)) (sv, u))))" if "?I sv" for ec sv u
  proof -
    have "?I sv'" if "process_with_retry ce ec (app_callback (se_services E)) tid key val (sv, u) = (r, sv', u')" for tid key val u r sv' u'
      using retry_from_success [where I = ?I, OF cb \<open>?I sv\<close> that [unfolded process_with_retry_def]] by blast
    then show ?thesis using that by (auto simp: consume_iter_def Let_def split: option.splits prod.splits sum.splits)
  qed
  from this [of "ap_server ap" "ap_consumer ap" w] assms show ?thesis
    by (auto simp: app_inv_def app_flags_def intro!: goes_onI split: prod.split)
qed

lemma app_step_goes_on:
  assumes "clock_ok (se_services E) clk" "app_inv ap" "\<not> is_stop ev"
  shows "goes_on ap (app_step E (Some (ap, w)) ev)"
proof (cases ev)
  case (AServe rt rq)
  then show ?thesis using serve_goes_on [OF assms(1,2)] by simp
next
  case (AOrders op)
  then show ?thesis using orders_go_on [OF assms(1,2)] by simp
next
  case (ALogin i)
  then show ?thesis using login_goes_on [OF assms(2)] by (simp del: app_step.simps)
next
  case (ABreakerWindow sig)
  then show ?thesis using breaker_goes_on [OF assms(2)] by (simp add: flag_simps)
next
  case (ABreakerState sig)
  then show ?thesis using breaker_goes_on [OF assms(2)] by (simp add: flag_simps)
next
  case (ADetector sig)
  then show ?thesis using detector_goes_on [OF assms(2)] by simp
next
  case (AConsume ce)
  then show ?thesis using consume_goes_on [OF assms(2)] by (simp del: app_step.simps)
next
  case (ABatch i)
  obtain a where a: "sh_analytics (ap_server ap) = Some a" using assms(2) by (auto simp: app_inv_def sv_inv_def)
  then show ?thesis using ABatch assms(2) analytics_flags(3) [of "se_services E" i a w]
    by (auto simp: app_inv_def sv_inv_def app_flags_def stop_flags_def intro!: goes_onI split: prod.split)
qed (use assms in \<open>auto simp: app_inv_def sv_inv_def os_inv_def app_flags_def stop_flags_def flag_simps option.map_comp comp_def
  split: option.split prod.split intro!: goes_onI\<close>)

subsection \<open>Runs\<close>

definition running :: "('w app \<times> 'w) option \<Rightarrow> bool" where
  "running s \<longleftrightarrow> (\<exists>ap w. s = Some (ap, w) \<and> app_inv ap)"

text \<open>Nothing has been stopped yet.\<close>

definition unstopped :: "'w app \<Rightarrow> bool" where
  "unstopped ap \<longleftrightarrow> app_flags ap = ((False, Some False), False, Some False)"

definition up :: "('w app \<times> 'w) option \<Rightarrow> bool" where
  "up s \<longleftrightarrow> (\<exists>ap w. s = Some (ap, w) \<and> app_inv ap \<and> unstopped ap)"

abbreviation serving_event :: "'w server_env \<Rightarrow> ('w \<Rightarrow> time) \<Rightarrow> 'w app_event \<Rightarrow> bool" where
  "serving_event E clk ev \<equiv> clock_ok (se_services E) clk \<and> \<not> is_stop ev"

interpretation servem: machine "app_step E" "\<lambda>_. serving_event E clk" running for E clk
  by unfold_locales (use app_step_goes_on in \<open>fastforce simp: running_def goes_on_def\<close>)

interpretation upm: machine "app_step E" "\<lambda>_. serving_event E clk" up for E clk
  by unfold_locales (use app_step_goes_on in \<open>fastforce simp: up_def unstopped_def goes_on_def\<close>)

lemma run_ok_each: "run_ok step (\<lambda>_. P) s es \<longleftrightarrow> (\<forall>e \<in> set es. P e)"
  by (induction es arbitrary: s) auto

text \<open>The shutdown closes each channel once.\<close>

lemma stop_components_running:
  assumes "app_inv ap" "unstopped ap"
  shows "\<exists>ap'. stop_components d1 d2 ap = Some ap' \<and> app_inv ap'"
proof -
  obtain det a where "mc_hot_keys (sh_cache (ap_server ap)) = Some det" "\<not> hk_stopped det" "sh_analytics (ap_server ap) = Some a"
    "\<not> an_closed a" "\<not> mc_closed (sh_cache (ap_server ap))" "\<not> cb_stopped (os_cb (sh_orders (ap_server ap)))"
    using assms(2) by (auto simp: unstopped_def app_flags_def stop_flags_def cache_flags_def)
  moreover have "hk_inv det \<Longrightarrow> hk_inv (det\<lparr>hk_stopped := True\<rparr>)" by (simp add: hk_inv_def)
  ultimately show ?thesis
    using assms(1)
    by (auto simp: stop_components_def cb_stop_def hk_stop_def cache_close_def analytics_close_def Let_def app_inv_def sv_inv_def
        os_inv_def counters_ok_def detector_fine_def)
qed

lemma stop_goes_on: "up s \<Longrightarrow> running (app_step E s (AStop d1 d2))"
  using stop_components_running [of _ d1 d2] by (fastforce simp: up_def running_def)

lemma serves_until_after_stop:
  assumes "clock_ok (se_services E) clk" "app_inv ap" "unstopped ap" "\<forall>ev \<in> set (before @ after). \<not> is_stop ev"
  shows "running (run (app_step E) (Some (ap, w)) before) \<and>
    running (run (app_step E) (Some (ap, w)) (before @ AStop d1 d2 # after))"
proof -
  have ok: "run_ok (app_step E) (\<lambda>_. serving_event E clk) s before" "run_ok (app_step E) (\<lambda>_. serving_event E clk) s after" for s
    using assms(1,4) by (auto simp: run_ok_each)
  have u: "up (run (app_step E) (Some (ap, w)) before)"
    using assms(2,3) ok(1) by (intro upm.run_inv) (auto simp: up_def)
  then have "running (run (app_step E) (app_step E (run (app_step E) (Some (ap, w)) before) (AStop d1 d2)) after)"
    by (intro servem.run_inv [OF stop_goes_on ok(2)])
  then show ?thesis using u by (auto simp: run_append up_def running_def)
qed

lemma start_server_unstopped:
  assumes "start_server E cfg w = Serving (ap, w1)"
  shows "unstopped ap"
proof -
  have "\<not> cb_stopped (os_cb (sh_orders (ap_server ap)))"
    using assms unfolding start_server_def Let_def
    by (simp only: split_beta split: if_splits option.splits) (auto simp: new_order_service_def build_breaker_def new_breaker_def)
  then show ?thesis
    using start_server_state [OF assms] build_cache_fields [of E cfg "ap_manager ap"]
    by (simp add: unstopped_def app_flags_def stop_flags_def cache_flags_def new_detector_def new_analytics_def)
qed

subsection \<open>The program from start to exit\<close>

text \<open>
  \<open>main\<close> as a whole: the start, the events up to the signal (\<open>before\<close>) or up to the failure of
  \<open>ListenAndServe\<close> (\<open>listened\<close>), which ends the program by \<open>Fatal\<close>; then the stopping of the
  components, requests that were still in flight (\<open>inflight\<close>), the deferred closings.
\<close>

datatype 'a program_result = Exited 'a | Fatal goerr | Panicked

definition run_program ::
  "'w server_env \<Rightarrow> (string \<Rightarrow> app_config \<Rightarrow> goerr + app_config) \<Rightarrow> read_result \<Rightarrow> goerr option \<Rightarrow> 'w app_event list \<Rightarrow>
     duration \<Rightarrow> duration \<Rightarrow> 'w app_event list \<Rightarrow> duration list \<Rightarrow> 'w \<Rightarrow> ('w app \<times> 'w) program_result" where
  "run_program E unmarshal file listened before done1 done2 inflight delays w0 =
     (case run_main E unmarshal file w0 of
        FatalExit e \<Rightarrow> Fatal e
      | PanicExit \<Rightarrow> Panicked
      | Serving s \<Rightarrow>
          (case run (app_step E) (Some s) before of
             None \<Rightarrow> Panicked
           | Some s1 \<Rightarrow>
               (case listened of
                  Some e \<Rightarrow> Fatal e
                | None \<Rightarrow>
                    (case run (app_step E) (Some s1) (AStop done1 done2 # inflight) of
                       None \<Rightarrow> Panicked
                     | Some (ap, w) \<Rightarrow> (case close_all E delays ap w of None \<Rightarrow> Panicked | Some s2 \<Rightarrow> Exited s2)))))"

text \<open>No step touches the consumer: the deferred \<open>Stop\<close> is its first.\<close>

lemma endpoint_keeps_consumer: "keeps ap_consumer (endpoint_handler E ep)"
  by (cases ep) (auto intro!: keepsI simp: biz_def authn_def stats_def via_def split: option.splits prod.splits)

lemma serve_keeps_consumer: "serve E rt rq (ap, w) = (c', Some (ap', w')) \<Longrightarrow> ap_consumer ap' = ap_consumer ap"
  by (auto simp: serve_def split: prod.splits if_splits
      dest: chain_keeps [OF endpoint_keeps_consumer] chain_keeps [OF jwt_keeps [OF endpoint_keeps_consumer]])

lemma stop_keeps_consumer: "stop_components d1 d2 ap = Some ap' \<Longrightarrow> ap_consumer ap' = ap_consumer ap"
  by (auto simp: stop_components_def Let_def split: option.splits prod.splits)

lemma app_step_consumer:
  assumes "app_step E (Some (ap, w)) ev = Some (ap', w')"
  shows "ap_consumer ap' = ap_consumer ap"
proof (cases ev)
  case (AServe rt rq)
  then show ?thesis using assms serve_keeps_consumer by (metis app_step.simps(2) prod.collapse)
qed (use assms in \<open>auto simp: run_orders_def dest: stop_keeps_consumer split: option.splits prod.splits\<close>)

lemma run_app_None: "run (app_step E) None evs = None"
  by (induction evs) simp_all

lemma run_consumer: "run (app_step E) (Some (ap, w)) evs = Some (ap', w') \<Longrightarrow> ap_consumer ap' = ap_consumer ap"
proof (induction evs arbitrary: ap w)
  case (Cons ev evs)
  show ?case
  proof (cases "app_step E (Some (ap, w)) ev")
    case None
    then show ?thesis using Cons.prems by (simp add: run_app_None)
  next
    case (Some x)
    then obtain ap1 w1 where x: "app_step E (Some (ap, w)) ev = Some (ap1, w1)" by (cases x) simp
    then show ?thesis using Cons.IH [of ap1 w1] Cons.prems app_step_consumer [OF x] by simp
  qed
qed simp

lemma start_server_consumer:
  assumes "start_server E cfg w = Serving (ap, w1)"
  shows "\<not> is_stopped (ap_consumer ap)"
  using assms unfolding start_server_def Let_def
  by (simp only: split_beta split: if_splits option.splits) (auto simp: is_stopped_def build_consumer_def new_consumer_def)

lemma program_exits:
  assumes "clock_ok (se_services E) clk" "start_server E cfg w0 = Serving (ap, w)" "app_inv ap"
    and "load_config unmarshal file = Inr cfg" "\<forall>ev \<in> set (before @ inflight). \<not> is_stop ev"
  shows "\<exists>ap' w'. run_program E unmarshal file None before done1 done2 inflight delays w0 = Exited (ap', w') \<and> is_stopped (ap_consumer ap')"
proof -
  obtain ap1 w1 where r: "run (app_step E) (Some (ap, w)) (before @ AStop done1 done2 # inflight) = Some (ap1, w1)"
    using serves_until_after_stop [OF assms(1,3) start_server_unstopped [OF assms(2)] assms(5), of w done1 done2]
    by (auto simp: running_def)
  then obtain s1 where r1: "run (app_step E) (Some (ap, w)) before = Some s1"
    by (cases "run (app_step E) (Some (ap, w)) before") (simp_all add: run_app_None)
  with r have r2: "run (app_step E) (Some s1) (AStop done1 done2 # inflight) = Some (ap1, w1)" by simp
  have "\<not> ec_stopped (ap_consumer ap1)"
    using run_consumer [OF r] start_server_consumer [OF assms(2)] by (simp add: is_stopped_def)
  then show ?thesis
    using assms(2,4) r1 r2 by (simp add: run_program_def run_main_def close_all_def consumer_stop_def is_stopped_def)
qed

end
