(* ===== verification/Responses.thy ===== *)
theory Responses
  imports Lifecycle
begin

section \<open>One answer per request\<close>

text \<open>
  Every handler writes one response, on every path: its body carries the status as code and the
  trace id of the request, data exactly with a 200, and the other statuses are a fixed list per
  endpoint. The middleware keeps this for the server.
\<close>

subsection \<open>What a handler may write\<close>

definition outcome :: "('d \<Rightarrow> bool) \<Rightarrow> nat list \<Rightarrow> nat \<Rightarrow> 'd option \<Rightarrow> bool" where
  "outcome kind errs st d = (case d of None \<Rightarrow> st \<in> set errs | Some x \<Rightarrow> st = 200 \<and> kind x)"

lemma outcome_simps [simp]:
  "outcome kind errs st None \<longleftrightarrow> st \<in> set errs" "outcome kind errs st (Some x) \<longleftrightarrow> st = 200 \<and> kind x"
  by (simp_all add: outcome_def)

text \<open>The kinds of data.\<close>

definition is_DCreated :: "biz_data \<Rightarrow> bool" where "is_DCreated d = (case d of DCreated _ _ \<Rightarrow> True | _ \<Rightarrow> False)"
definition is_DOrder :: "biz_data \<Rightarrow> bool" where "is_DOrder d = (case d of DOrder _ \<Rightarrow> True | _ \<Rightarrow> False)"
definition is_DProfile :: "biz_data \<Rightarrow> bool" where "is_DProfile d = (case d of DProfile _ \<Rightarrow> True | _ \<Rightarrow> False)"
definition is_DCacheStats :: "biz_data \<Rightarrow> bool" where "is_DCacheStats d = (case d of DCacheStats _ \<Rightarrow> True | _ \<Rightarrow> False)"
definition is_DOrders :: "biz_data \<Rightarrow> bool" where "is_DOrders d = (case d of DOrders _ _ _ _ \<Rightarrow> True | _ \<Rightarrow> False)"
definition is_DUsers :: "biz_data \<Rightarrow> bool" where "is_DUsers d = (case d of DUsers _ _ _ _ \<Rightarrow> True | _ \<Rightarrow> False)"
definition is_DDaily :: "biz_data \<Rightarrow> bool" where "is_DDaily d = (case d of DDaily _ \<Rightarrow> True | _ \<Rightarrow> False)"
definition is_DSummary :: "biz_data \<Rightarrow> bool" where "is_DSummary d = (case d of DSummary _ _ \<Rightarrow> True | _ \<Rightarrow> False)"
definition is_DMetrics :: "biz_data \<Rightarrow> bool" where "is_DMetrics d = (case d of DMetrics _ _ _ \<Rightarrow> True | _ \<Rightarrow> False)"
definition is_DBreaker :: "biz_data \<Rightarrow> bool" where "is_DBreaker d = (case d of DBreaker _ _ \<Rightarrow> True | _ \<Rightarrow> False)"
definition is_DToken :: "auth_data \<Rightarrow> bool" where "is_DToken d = (case d of DToken _ \<Rightarrow> True | _ \<Rightarrow> False)"
definition is_DUser :: "auth_data \<Rightarrow> bool" where "is_DUser d = (case d of DUser _ \<Rightarrow> True | _ \<Rightarrow> False)"

lemmas kinds = is_DCreated_def is_DOrder_def is_DProfile_def is_DCacheStats_def is_DOrders_def is_DUsers_def is_DDaily_def is_DSummary_def is_DMetrics_def is_DBreaker_def is_DToken_def is_DUser_def

text \<open>\<open>c'\<close> is \<open>c\<close> with one response written.\<close>

definition wrote :: "(nat \<Rightarrow> 'd option \<Rightarrow> bool) \<Rightarrow> 'd gin \<Rightarrow> 'd gin \<Rightarrow> bool" where
  "wrote Q c c' \<longleftrightarrow>
     gn_errors c' = gn_errors c \<and> gn_headers c' = gn_headers c \<and>
     (\<exists>st r. gn_written c' = gn_written c @ [(st, Some r)] \<and> ar_code r = int st \<and> ar_trace_id r = get_trace_id c \<and> Q st (ar_data r))"

lemma wrote_json [simp]:
  "wrote Q c (c_json st (reply code msg d tid) c) \<longleftrightarrow> code = int st \<and> tid = get_trace_id c \<and> Q st d"
  by (auto simp: wrote_def c_json_def reply_def)

definition replies :: "(nat \<Rightarrow> 'd option \<Rightarrow> bool) \<Rightarrow> ('d, 's \<times> 'w) http_handler \<Rightarrow> bool" where
  "replies Q h \<longleftrightarrow> (\<forall>c s w c' s' w'. h (c, s, w) = Some (c', s', w') \<longrightarrow> wrote Q c c')"

lemma repliesI: "(\<And>c s w c' s' w'. h (c, s, w) = Some (c', s', w') \<Longrightarrow> wrote Q c c') \<Longrightarrow> replies Q h"
  by (simp add: replies_def)

lemma repliesD: "replies Q h \<Longrightarrow> h (c, s, w) = Some (c', s', w') \<Longrightarrow> wrote Q c c'"
  unfolding replies_def by blast

subsection \<open>The handlers\<close>

lemma create_replies: "replies (outcome is_DCreated [400, 500]) (handle_create_order S json_text valid msg force)"
  by (rule repliesI) (auto simp: kinds handle_create_order_def Let_def split: sum.splits option.splits prod.splits)

lemma get_order_replies: "replies (outcome is_DOrder [404]) (get_order_handler S)"
  by (rule repliesI) (auto simp: kinds get_order_handler_def Let_def split: sum.splits option.splits prod.splits)

lemma service_error_status: "fst (handle_service_error e operation) \<in> {500, 503}"
  by (simp add: handle_service_error_def Let_def)

lemma failure_wrote: "wrote Q c (service_failure e operation c) \<longleftrightarrow> Q (fst (handle_service_error e operation)) None"
  by (simp add: service_failure_def split_beta)

lemma get_profile_replies: "replies (outcome is_DProfile [400, 404, 503]) (get_user_profile_handler S)"
  by (rule repliesI)
    (auto simp: kinds get_user_profile_handler_def Let_def split: sum.splits option.splits prod.splits if_splits)

lemma upsert_replies: "replies (outcome is_DProfile [400, 500, 503]) (upsert_user_profile_handler S valid)"
  using service_error_status
  by (intro repliesI)
    (auto simp: kinds upsert_user_profile_handler_def failure_wrote Let_def split: sum.splits option.splits prod.splits)

lemma search_params_wrote: "parse_search_params c = Inl c' \<Longrightarrow> wrote (outcome kind (400 # errs)) c c'"
  by (auto simp: parse_search_params_def Let_def split: if_splits)

lemma search_replies:
  "replies (outcome is_DOrders [400, 500, 503]) (search_orders_handler E)"
  "replies (outcome is_DUsers [400, 500, 503]) (search_users_handler E)"
  using service_error_status
  by (intro repliesI;
      auto simp: kinds search_orders_handler_def search_users_handler_def failure_wrote search_params_wrote split: sum.splits prod.splits)+

lemma stats_replies:
  "replies (outcome is_DDaily [400, 500]) (get_daily_stats_handler S dt pd ad)"
  "replies (outcome is_DSummary [500]) (get_behavior_summary_handler S ad)"
  by (intro repliesI;
      auto simp: kinds get_daily_stats_handler_def get_behavior_summary_handler_def Let_def split: option.splits prod.splits if_splits)+

lemma monitor_replies:
  "replies (outcome is_DMetrics []) (metrics_handler S)" "replies (outcome is_DBreaker []) circuit_breaker_state_handler"
  "replies (outcome is_DCacheStats []) get_cache_stats_handler"
  by (intro repliesI;
      auto simp: kinds metrics_handler_def circuit_breaker_state_handler_def get_cache_stats_handler_def split: prod.splits)+

lemma auth_replies:
  "replies (outcome is_DToken [400, 409, 500]) (register_handler S A vr)"
  "replies (outcome is_DToken [400, 401, 403, 500]) (login_handler S A vl)"
  "replies (outcome is_DUser [404, 500]) (get_me_handler A)"
  by (intro repliesI;
      auto simp: kinds register_handler_def login_handler_def get_me_handler_def Let_def split: option.splits sum.splits if_splits)+

subsection \<open>The routes\<close>

primrec handler_data :: "endpoint \<Rightarrow> app_data \<Rightarrow> bool" where
  "handler_data EpRegister = (\<lambda>d. case d of Authn x \<Rightarrow> is_DToken x | _ \<Rightarrow> False)"
| "handler_data EpLogin = (\<lambda>d. case d of Authn x \<Rightarrow> is_DToken x | _ \<Rightarrow> False)"
| "handler_data EpGetMe = (\<lambda>d. case d of Authn x \<Rightarrow> is_DUser x | _ \<Rightarrow> False)"
| "handler_data EpCreateOrder = (\<lambda>d. case d of Biz x \<Rightarrow> is_DCreated x | _ \<Rightarrow> False)"
| "handler_data EpCreateOrderSync = (\<lambda>d. case d of Biz x \<Rightarrow> is_DCreated x | _ \<Rightarrow> False)"
| "handler_data EpGetOrder = (\<lambda>d. case d of Biz x \<Rightarrow> is_DOrder x | _ \<Rightarrow> False)"
| "handler_data EpSearchOrders = (\<lambda>d. case d of Biz x \<Rightarrow> is_DOrders x | _ \<Rightarrow> False)"
| "handler_data EpUpsertProfile = (\<lambda>d. case d of Biz x \<Rightarrow> is_DProfile x | _ \<Rightarrow> False)"
| "handler_data EpGetProfile = (\<lambda>d. case d of Biz x \<Rightarrow> is_DProfile x | _ \<Rightarrow> False)"
| "handler_data EpSearchUsers = (\<lambda>d. case d of Biz x \<Rightarrow> is_DUsers x | _ \<Rightarrow> False)"
| "handler_data EpDailyStats = (\<lambda>d. case d of Biz x \<Rightarrow> is_DDaily x | _ \<Rightarrow> False)"
| "handler_data EpBehaviors = (\<lambda>d. case d of Biz x \<Rightarrow> is_DSummary x | _ \<Rightarrow> False)"
| "handler_data EpMetrics = (\<lambda>d. case d of Biz x \<Rightarrow> is_DMetrics x | _ \<Rightarrow> False)"
| "handler_data EpBreakerState = (\<lambda>d. case d of Biz x \<Rightarrow> is_DBreaker x | _ \<Rightarrow> False)"
| "handler_data EpCacheStats = (\<lambda>d. case d of Biz x \<Rightarrow> is_DCacheStats x | _ \<Rightarrow> False)"

primrec handler_errors :: "endpoint \<Rightarrow> nat list" where
  "handler_errors EpRegister = [400, 409, 500]"
| "handler_errors EpLogin = [400, 401, 403, 500]"
| "handler_errors EpGetMe = [404, 500]"
| "handler_errors EpCreateOrder = [400, 500]"
| "handler_errors EpCreateOrderSync = [400, 500]"
| "handler_errors EpGetOrder = [404]"
| "handler_errors EpSearchOrders = [400, 500, 503]"
| "handler_errors EpUpsertProfile = [400, 500, 503]"
| "handler_errors EpGetProfile = [400, 404, 503]"
| "handler_errors EpSearchUsers = [400, 500, 503]"
| "handler_errors EpDailyStats = [400, 500]"
| "handler_errors EpBehaviors = [500]"
| "handler_errors EpMetrics = []"
| "handler_errors EpBreakerState = []"
| "handler_errors EpCacheStats = []"

lemma widen_wrote:
  assumes "wrote Q (narrow c) e" "\<And>st d. Q st d \<Longrightarrow> Q' st (map_option f d)"
  shows "wrote Q' c (widen f c e)"
proof -
  obtain st r where "gn_written e = [(st, Some r)]" "ar_code r = int st" "ar_trace_id r = get_trace_id c" "Q st (ar_data r)"
    "gn_errors e = gn_errors c" "gn_headers e = gn_headers c"
    using assms(1) by (auto simp: wrote_def narrow_def get_trace_id_def)
  then show ?thesis
    using assms(2) [of st "ar_data r"] by (simp add: wrote_def widen_def map_response_def)
qed

lemma via_replies:
  assumes "replies Q h" "\<And>st d. Q st d \<Longrightarrow> Q' st (map_option f d)"
  shows "replies Q' (via f get put h)"
proof (rule repliesI)
  fix c s w c' s' w' assume "via f get put h (c, s, w) = Some (c', s', w')"
  then obtain e t where "h (narrow c, get s, w) = Some (e, t, w')" "c' = widen f c e" by (auto simp: via_def split: option.splits)
  then have "wrote Q (narrow c) e" "c' = widen f c e" using repliesD [OF assms(1)] by blast+
  then show "wrote Q' c c'" by (simp add: widen_wrote [where Q = Q and Q' = Q'] assms(2))
qed

lemma biz_replies: "replies (outcome kind errs) h \<Longrightarrow> replies (outcome (\<lambda>d. case d of Biz x \<Rightarrow> kind x | _ \<Rightarrow> False) errs) (biz h)"
  unfolding biz_def by (erule via_replies) (auto simp: outcome_def split: option.splits)

lemma authn_replies: "replies (outcome kind errs) h \<Longrightarrow> replies (outcome (\<lambda>d. case d of Authn x \<Rightarrow> kind x | _ \<Rightarrow> False) errs) (authn h)"
  unfolding authn_def by (erule via_replies) (auto simp: outcome_def split: option.splits)

lemma stats_route_replies:
  assumes "replies (outcome kind errs) h"
  shows "replies (outcome (\<lambda>d. case d of Biz x \<Rightarrow> kind x | _ \<Rightarrow> False) errs) (stats h)"
proof -
  have v: "replies (outcome (\<lambda>d. case d of Biz x \<Rightarrow> kind x | _ \<Rightarrow> False) errs) (via Biz get put h)" for get put
    using assms by (rule via_replies) (auto simp: outcome_def split: option.splits)
  show ?thesis by (rule repliesI) (auto simp: stats_def dest: repliesD [OF v] split: option.splits)
qed

lemma endpoint_replies: "replies (outcome (handler_data ep) (handler_errors ep)) (endpoint_handler E ep)"
proof -
  note r = create_replies get_order_replies get_profile_replies upsert_replies search_replies stats_replies monitor_replies auth_replies
  show ?thesis
    by (cases ep; simp only: endpoint_handler.simps handler_errors.simps handler_data.simps create_order_handler_def
        create_order_sync_handler_def; (rule biz_replies authn_replies stats_route_replies); rule r)
qed

lemma wrote_abort [simp]: "wrote Q c (c_abort c') = wrote Q c c'"
  by (simp add: wrote_def c_abort_def)

lemma wrote_from_user [simp]: "wrote Q (c\<lparr>gn_user_id := i, gn_username := n\<rparr>) c' = wrote Q c c'"
  by (simp add: wrote_def get_trace_id_def)

lemma jwt_replies: "replies Q h \<Longrightarrow> Q 401 None \<Longrightarrow> replies Q (jwt_auth S A au_of h)"
  by (rule repliesI) (auto simp: jwt_auth_def unauthorized_def Let_def dest!: repliesD split: if_splits sum.splits prod.splits)

text \<open>
  What the body of an answer of the route may be: the handler's, a 401 of the JWT middleware, or the
  500 of the recovery middleware after a panic.
\<close>

definition route_outcome :: "bool \<Rightarrow> endpoint \<Rightarrow> bool \<Rightarrow> nat \<Rightarrow> app_data option \<Rightarrow> bool" where
  "route_outcome needs_token ep panicked st d \<longleftrightarrow>
     outcome (handler_data ep) (handler_errors ep) st d \<or>
     d = None \<and> (needs_token \<and> st = 401 \<or> panicked \<and> st = 500)"

lemma replies_mono: "replies Q h \<Longrightarrow> (\<And>st d. Q st d \<Longrightarrow> Q' st d) \<Longrightarrow> replies Q' h"
  unfolding replies_def wrote_def by blast

lemma route_replies:
  "replies (route_outcome needs_token ep False)
     (if needs_token then jwt_auth S A ap_auth (endpoint_handler E ep) else endpoint_handler E ep)"
proof -
  have "replies (route_outcome needs_token ep False) (endpoint_handler E ep)"
    by (rule replies_mono [OF endpoint_replies]) (simp add: route_outcome_def)
  moreover have "needs_token \<Longrightarrow> route_outcome needs_token ep False 401 None" by (simp add: route_outcome_def)
  ultimately show ?thesis by (cases needs_token) (simp_all add: jwt_replies)
qed

text \<open>Under recovery and the error handler, where \<open>g\<close> runs the handler on \<open>c1\<close>.\<close>

lemma recovered_reply:
  assumes "replies Q h" "g (c, s, w) = h (c1, s, w)" "gn_written c1 = []" "gn_errors c1 = []" "gn_written c = []"
    and "gn_headers c1 ''X-Trace-Id'' = Some (get_trace_id c1)" "gn_headers c ''X-Trace-Id'' = Some (get_trace_id c)"
  shows "\<exists>st r. gn_written (fst (recovery (error_handler g) (c, s, w))) = [(st, Some r)] \<and> ar_code r = int st \<and>
    gn_headers (fst (recovery (error_handler g) (c, s, w))) ''X-Trace-Id'' = Some (ar_trace_id r) \<and>
    (Q st (ar_data r) \<or> snd (recovery (error_handler g) (c, s, w)) = None \<and> st = 500 \<and> ar_data r = None)"
proof (cases "h (c1, s, w)")
  case None
  then show ?thesis using assms(2,5,7) by (simp add: recovery_def error_handler_def c_abort_def c_json_def reply_def)
next
  case (Some x)
  obtain c' s' w' where x: "x = (c', s', w')" by (cases x)
  then have wr: "wrote Q c1 c'" using repliesD [OF assms(1)] Some by blast
  then have "gn_errors c' = []" using assms(4) by (simp add: wrote_def)
  then have "recovery (error_handler g) (c, s, w) = (c', Some (s', w'))"
    using Some assms(2) x by (simp add: recovery_def error_handler_def)
  then show ?thesis using wr assms(3,6) by (auto simp: wrote_def)
qed

end
