(* ===== verification/Api_Docs.thy ===== *)
theory Api_Docs
  imports Responses
begin

section \<open>The API documentation (swagger/swagger.go)\<close>

text \<open>
  The Swagger document the server publishes: its operations with parameters and responses, the
  schemas of the models, the security scheme. Summaries, descriptions of fields and tags are prose
  and left out. The theorems compare it with the router, the middleware and the handlers.
\<close>

subsection \<open>Documents\<close>

datatype doc_schema =
    SAny
  | SInteger "nat option"
  | SNumber
  | SString "nat option" "nat option"
  | SArray doc_schema
  | SObject "string list" "(string \<times> doc_schema) list"
  | SRef string
  | SAllOf "doc_schema list"

datatype parameter_place = InQuery | InPath | InBody

record parameter =
  pa_name :: string
  pa_in :: parameter_place
  pa_required :: bool
  pa_schema :: doc_schema
  pa_default :: "json option"

record operation =
  op_path :: string
  op_verb :: string
  op_security :: "string list"
  op_consumes :: "string list"
  op_produces :: "string list"
  op_parameters :: "parameter list"
  op_responses :: "(nat \<times> string \<times> doc_schema) list"

record security_scheme =
  sd_type :: string
  sd_name :: string
  sd_in :: string

text \<open>\<open>swag.Spec\<close> without the prose.\<close>

record swagger_spec =
  sw_version :: string
  sw_host :: string
  sw_base_path :: string
  sw_schemes :: "string list"
  sw_instance :: string
  sw_operations :: "operation list"
  sw_definitions :: "(string \<times> doc_schema) list"
  sw_security :: "(string \<times> security_scheme) list"

definition model_name :: "string \<Rightarrow> string" where
  "model_name n = ''github_com_cdcdx_high-concurrency-framework_internal_model.'' @ n"

definition model_ref :: "string \<Rightarrow> doc_schema" where
  "model_ref n = SRef (''#/definitions/'' @ model_name n)"

subsection \<open>Operations\<close>

definition doc_behaviors :: operation where
  "doc_behaviors =
     \<lparr>op_path = ''/api/v1/analytics/behaviors'', op_verb = ''get'', op_security = [''Bearer''],
      op_consumes = [], op_produces = [''application/json''],
      op_parameters = [\<lparr>pa_name = ''type'', pa_in = InQuery, pa_required = False, pa_schema = SString None None, pa_default = None\<rparr>],
      op_responses =
       [(200, ''OK'', model_ref ''ApiResponse''),
        (500, ''Internal Server Error'', model_ref ''ApiResponse'')]\<rparr>"

definition doc_daily :: operation where
  "doc_daily =
     \<lparr>op_path = ''/api/v1/analytics/daily'', op_verb = ''get'', op_security = [''Bearer''],
      op_consumes = [], op_produces = [''application/json''],
      op_parameters = [\<lparr>pa_name = ''from'', pa_in = InQuery, pa_required = False, pa_schema = SString None None, pa_default = Some (JStr ''__7DAYS_AGO__'')\<rparr>,
       \<lparr>pa_name = ''to'', pa_in = InQuery, pa_required = False, pa_schema = SString None None, pa_default = Some (JStr ''__TODAY__'')\<rparr>],
      op_responses =
       [(200, ''OK'', model_ref ''ApiResponse''),
        (400, ''Bad Request'', model_ref ''ApiResponse''),
        (500, ''Internal Server Error'', model_ref ''ApiResponse'')]\<rparr>"

definition doc_login :: operation where
  "doc_login =
     \<lparr>op_path = ''/api/v1/auth/login'', op_verb = ''post'', op_security = [],
      op_consumes = [''application/json''], op_produces = [''application/json''],
      op_parameters = [\<lparr>pa_name = ''body'', pa_in = InBody, pa_required = True, pa_schema = model_ref ''LoginRequest'', pa_default = None\<rparr>],
      op_responses =
       [(200, ''OK'', SAllOf [model_ref ''ApiResponse'', SObject []
       [(''data'', model_ref ''TokenResponse'')]]),
        (401, ''Unauthorized'', model_ref ''ApiResponse'')]\<rparr>"

definition doc_me :: operation where
  "doc_me =
     \<lparr>op_path = ''/api/v1/auth/me'', op_verb = ''get'', op_security = [''Bearer''],
      op_consumes = [], op_produces = [''application/json''],
      op_parameters = [],
      op_responses =
       [(200, ''OK'', SAllOf [model_ref ''ApiResponse'', SObject []
       [(''data'', model_ref ''User'')]]),
        (401, ''Unauthorized'', model_ref ''ApiResponse'')]\<rparr>"

definition doc_register :: operation where
  "doc_register =
     \<lparr>op_path = ''/api/v1/auth/register'', op_verb = ''post'', op_security = [],
      op_consumes = [''application/json''], op_produces = [''application/json''],
      op_parameters = [\<lparr>pa_name = ''body'', pa_in = InBody, pa_required = True, pa_schema = model_ref ''RegisterRequest'', pa_default = None\<rparr>],
      op_responses =
       [(200, ''OK'', SAllOf [model_ref ''ApiResponse'', SObject []
       [(''data'', model_ref ''TokenResponse'')]]),
        (400, ''Bad Request'', model_ref ''ApiResponse''),
        (409, ''Conflict'', model_ref ''ApiResponse'')]\<rparr>"

definition doc_cache_stats :: operation where
  "doc_cache_stats =
     \<lparr>op_path = ''/api/v1/monitor/cache-stats'', op_verb = ''get'', op_security = [],
      op_consumes = [], op_produces = [''application/json''],
      op_parameters = [],
      op_responses =
       [(200, ''OK'', model_ref ''ApiResponse'')]\<rparr>"

definition doc_circuit_breaker :: operation where
  "doc_circuit_breaker =
     \<lparr>op_path = ''/api/v1/monitor/circuit-breaker'', op_verb = ''get'', op_security = [],
      op_consumes = [], op_produces = [''application/json''],
      op_parameters = [],
      op_responses =
       [(200, ''OK'', model_ref ''ApiResponse'')]\<rparr>"

definition doc_metrics :: operation where
  "doc_metrics =
     \<lparr>op_path = ''/api/v1/monitor/metrics'', op_verb = ''get'', op_security = [],
      op_consumes = [], op_produces = [''application/json''],
      op_parameters = [],
      op_responses =
       [(200, ''OK'', model_ref ''ApiResponse'')]\<rparr>"

definition doc_create_order :: operation where
  "doc_create_order =
     \<lparr>op_path = ''/api/v1/orders'', op_verb = ''post'', op_security = [''Bearer''],
      op_consumes = [''application/json''], op_produces = [''application/json''],
      op_parameters = [\<lparr>pa_name = ''body'', pa_in = InBody, pa_required = True, pa_schema = model_ref ''CreateOrderRequest'', pa_default = None\<rparr>],
      op_responses =
       [(200, ''OK'', SAllOf [model_ref ''ApiResponse'', SObject []
       [(''data'', SObject []
       [(''channel'', SString None None),
        (''order_no'', SString None None)])]]),
        (400, ''Bad Request'', model_ref ''ApiResponse''),
        (500, ''Internal Server Error'', model_ref ''ApiResponse'')]\<rparr>"

definition doc_search_orders :: operation where
  "doc_search_orders =
     \<lparr>op_path = ''/api/v1/orders/search'', op_verb = ''get'', op_security = [''Bearer''],
      op_consumes = [], op_produces = [''application/json''],
      op_parameters = [\<lparr>pa_name = ''q'', pa_in = InQuery, pa_required = True, pa_schema = SString None None, pa_default = None\<rparr>,
       \<lparr>pa_name = ''page'', pa_in = InQuery, pa_required = False, pa_schema = SInteger None, pa_default = Some (JNum 1)\<rparr>,
       \<lparr>pa_name = ''size'', pa_in = InQuery, pa_required = False, pa_schema = SInteger None, pa_default = Some (JNum 20)\<rparr>],
      op_responses =
       [(200, ''OK'', model_ref ''ApiResponse''),
        (400, ''Bad Request'', model_ref ''ApiResponse'')]\<rparr>"

definition doc_create_order_sync :: operation where
  "doc_create_order_sync =
     \<lparr>op_path = ''/api/v1/orders/sync'', op_verb = ''post'', op_security = [''Bearer''],
      op_consumes = [''application/json''], op_produces = [''application/json''],
      op_parameters = [\<lparr>pa_name = ''body'', pa_in = InBody, pa_required = True, pa_schema = model_ref ''CreateOrderRequest'', pa_default = None\<rparr>],
      op_responses =
       [(200, ''OK'', SAllOf [model_ref ''ApiResponse'', SObject []
       [(''data'', SObject []
       [(''channel'', SString None None),
        (''order_no'', SString None None)])]]),
        (400, ''Bad Request'', model_ref ''ApiResponse''),
        (500, ''Internal Server Error'', model_ref ''ApiResponse'')]\<rparr>"

definition doc_get_order :: operation where
  "doc_get_order =
     \<lparr>op_path = ''/api/v1/orders/{orderNo}'', op_verb = ''get'', op_security = [''Bearer''],
      op_consumes = [], op_produces = [''application/json''],
      op_parameters = [\<lparr>pa_name = ''orderNo'', pa_in = InPath, pa_required = True, pa_schema = SString None None, pa_default = None\<rparr>],
      op_responses =
       [(200, ''OK'', SAllOf [model_ref ''ApiResponse'', SObject []
       [(''data'', model_ref ''Order'')]]),
        (404, ''Not Found'', model_ref ''ApiResponse'')]\<rparr>"

definition doc_upsert_profile :: operation where
  "doc_upsert_profile =
     \<lparr>op_path = ''/api/v1/users/profile'', op_verb = ''post'', op_security = [''Bearer''],
      op_consumes = [''application/json''], op_produces = [''application/json''],
      op_parameters = [\<lparr>pa_name = ''body'', pa_in = InBody, pa_required = True, pa_schema = model_ref ''UserProfile'', pa_default = None\<rparr>],
      op_responses =
       [(200, ''OK'', SAllOf [model_ref ''ApiResponse'', SObject []
       [(''data'', model_ref ''UserProfile'')]]),
        (400, ''Bad Request'', model_ref ''ApiResponse''),
        (500, ''Internal Server Error'', model_ref ''ApiResponse'')]\<rparr>"

definition doc_search_users :: operation where
  "doc_search_users =
     \<lparr>op_path = ''/api/v1/users/search'', op_verb = ''get'', op_security = [''Bearer''],
      op_consumes = [], op_produces = [''application/json''],
      op_parameters = [\<lparr>pa_name = ''q'', pa_in = InQuery, pa_required = True, pa_schema = SString None None, pa_default = None\<rparr>,
       \<lparr>pa_name = ''page'', pa_in = InQuery, pa_required = False, pa_schema = SInteger None, pa_default = Some (JNum 1)\<rparr>,
       \<lparr>pa_name = ''size'', pa_in = InQuery, pa_required = False, pa_schema = SInteger None, pa_default = Some (JNum 20)\<rparr>],
      op_responses =
       [(200, ''OK'', model_ref ''ApiResponse''),
        (400, ''Bad Request'', model_ref ''ApiResponse'')]\<rparr>"

definition doc_get_profile :: operation where
  "doc_get_profile =
     \<lparr>op_path = ''/api/v1/users/{userID}/profile'', op_verb = ''get'', op_security = [''Bearer''],
      op_consumes = [], op_produces = [''application/json''],
      op_parameters = [\<lparr>pa_name = ''userID'', pa_in = InPath, pa_required = True, pa_schema = SInteger None, pa_default = None\<rparr>],
      op_responses =
       [(200, ''OK'', SAllOf [model_ref ''ApiResponse'', SObject []
       [(''data'', model_ref ''UserProfile'')]]),
        (400, ''Bad Request'', model_ref ''ApiResponse''),
        (404, ''Not Found'', model_ref ''ApiResponse'')]\<rparr>"

definition doc_operations :: "operation list" where
  "doc_operations =
     [doc_behaviors, doc_daily, doc_login, doc_me, doc_register, doc_cache_stats, doc_circuit_breaker, doc_metrics,
      doc_create_order, doc_search_orders, doc_create_order_sync, doc_get_order, doc_upsert_profile, doc_search_users, doc_get_profile]"

subsection \<open>Schemas\<close>

definition schema_api_response :: doc_schema where
  "schema_api_response =
     SObject []
       [(''code'', SInteger None),
        (''data'', SAny),
        (''message'', SString None None),
        (''trace_id'', SString None None)]"

definition schema_create_order_request :: doc_schema where
  "schema_create_order_request =
     SObject [''user_id'']
       [(''amount'', SNumber),
        (''user_id'', SInteger (Some 1))]"

definition schema_login_request :: doc_schema where
  "schema_login_request =
     SObject [''password'', ''username'']
       [(''password'', SString None None),
        (''username'', SString None None)]"

definition schema_order :: doc_schema where
  "schema_order =
     SObject [''user_id'']
       [(''amount'', SNumber),
        (''created_at'', SString None None),
        (''id'', SInteger None),
        (''order_no'', SString None None),
        (''status'', SString None None),
        (''updated_at'', SString None None),
        (''user_id'', SInteger (Some 1))]"

definition schema_register_request :: doc_schema where
  "schema_register_request =
     SObject [''password'', ''username'']
       [(''email'', SString None (Some 128)),
        (''password'', SString (Some 6) (Some 128)),
        (''phone'', SString None (Some 20)),
        (''username'', SString (Some 3) (Some 64))]"

definition schema_token_response :: doc_schema where
  "schema_token_response =
     SObject []
       [(''access_token'', SString None None),
        (''expires_in'', SInteger None),
        (''token_type'', SString None None),
        (''user_id'', SInteger None),
        (''username'', SString None None)]"

definition schema_user :: doc_schema where
  "schema_user =
     SObject []
       [(''created_at'', SString None None),
        (''email'', SString None None),
        (''id'', SInteger None),
        (''last_login_at'', SString None None),
        (''phone'', SString None None),
        (''status'', SInteger None),
        (''updated_at'', SString None None),
        (''username'', SString None None)]"

definition schema_user_profile :: doc_schema where
  "schema_user_profile =
     SObject [''user_id'']
       [(''avatar'', SString None None),
        (''bio'', SString None None),
        (''created_at'', SString None None),
        (''email'', SString None None),
        (''id'', SInteger None),
        (''nickname'', SString None None),
        (''phone'', SString None None),
        (''tags'', SArray (SString None None)),
        (''updated_at'', SString None None),
        (''user_id'', SInteger None)]"

definition doc_definitions :: "(string \<times> doc_schema) list" where
  "doc_definitions =
     [(model_name ''ApiResponse'', schema_api_response),
      (model_name ''CreateOrderRequest'', schema_create_order_request),
      (model_name ''LoginRequest'', schema_login_request),
      (model_name ''Order'', schema_order),
      (model_name ''RegisterRequest'', schema_register_request),
      (model_name ''TokenResponse'', schema_token_response),
      (model_name ''User'', schema_user),
      (model_name ''UserProfile'', schema_user_profile)]"

definition doc_bearer :: security_scheme where
  "doc_bearer = \<lparr>sd_type = ''apiKey'', sd_name = ''Authorization'', sd_in = ''header''\<rparr>"

definition swagger_info :: swagger_spec where
  "swagger_info =
     \<lparr>sw_version = ''1.0.0'', sw_host = ''localhost:8080'', sw_base_path = ''/'', sw_schemes = [], sw_instance = ''swagger'',
      sw_operations = doc_operations, sw_definitions = doc_definitions, sw_security = [(''Bearer'', doc_bearer)]\<rparr>"

subsection \<open>The router and the middleware are the documented ones\<close>

text \<open>A documented path and method as Gin has them.\<close>

fun gin_path :: "string \<Rightarrow> string" where
  "gin_path [] = []"
| "gin_path (c # cs) = (if c = CHR ''{'' then CHR '':'' # gin_path cs else if c = CHR ''}'' then gin_path cs else c # gin_path cs)"

definition upper_char :: "char \<Rightarrow> char" where
  "upper_char c = (let n = (of_char c :: nat) in if 97 \<le> n \<and> n \<le> 122 then char_of (n - 32) else c)"

definition operation_key :: "operation \<Rightarrow> string \<times> string \<times> bool" where
  "operation_key op = (map upper_char (op_verb op), gin_path (op_path op), op_security op \<noteq> [])"

definition route_key :: "string \<times> string \<times> bool \<times> endpoint \<Rightarrow> string \<times> string \<times> bool" where
  "route_key = (\<lambda>(verb, path, needs_token, ep). (verb, path, needs_token))"

text \<open>The names between braces in a path.\<close>

fun placeholders :: "string \<Rightarrow> string list" where
  "placeholders [] = []"
| "placeholders (c # cs) = (if c = CHR ''{'' then takeWhile (\<lambda>d. d \<noteq> CHR ''}'') cs # placeholders cs else placeholders cs)"

primrec schema_refs :: "doc_schema \<Rightarrow> string list" where
  "schema_refs SAny = []"
| "schema_refs (SInteger lo) = []"
| "schema_refs SNumber = []"
| "schema_refs (SString lo hi) = []"
| "schema_refs (SArray e) = schema_refs e"
| "schema_refs (SObject req props) = concat (map snd (map (map_prod id schema_refs) props))"
| "schema_refs (SRef n) = [n]"
| "schema_refs (SAllOf ss) = concat (map schema_refs ss)"

definition operation_ok :: "swagger_spec \<Rightarrow> operation \<Rightarrow> bool" where
  "operation_ok d op \<longleftrightarrow>
     map pa_name (filter (\<lambda>p. pa_in p = InPath) (op_parameters op)) = placeholders (op_path op) \<and>
     (\<forall>p \<in> set (op_parameters op). pa_in p = InPath \<longrightarrow> pa_required p) \<and>
     (\<forall>n \<in> set (op_security op). n \<in> fst ` set (sw_security d)) \<and>
     (\<forall>n \<in> set (concat (map (schema_refs \<circ> pa_schema) (op_parameters op)) @ concat (map (schema_refs \<circ> snd \<circ> snd) (op_responses op))).
        n \<in> (\<lambda>k. ''#/definitions/'' @ fst k) ` set (sw_definitions d))"

text \<open>
  C9: The operations of the published Swagger document are exactly the routes the server registers
  under /api/v1, each once, with the same method and path, and an operation asks for the Bearer
  token exactly when the route has the JWT middleware; every path parameter, schema reference and
  security scheme it uses is declared.
\<close>

theorem documentation_matches_router:
  "set (map operation_key (sw_operations swagger_info)) = set (map route_key routes) \<and>
   distinct (map operation_key (sw_operations swagger_info)) \<and> distinct (map route_key routes) \<and>
   list_all (operation_ok swagger_info) (sw_operations swagger_info)"
  by code_simp

subsection \<open>Answers as JSON (internal/model/models.go)\<close>

text \<open>\<open>password_hash\<close> has the tag \<open>-\<close>: it is never printed. Empty \<open>email\<close> and \<open>phone\<close> and a nil \<open>last_login_at\<close> are left out.\<close>

definition user_json :: "user \<Rightarrow> json" where
  "user_json u =
     JObj ([(''id'', JNum (of_int (us_id u))), (''username'', JStr (us_username u))]
       @ (if us_email u = [] then [] else [(''email'', JStr (us_email u))])
       @ (if us_phone u = [] then [] else [(''phone'', JStr (us_phone u))])
       @ [(''status'', JNum (of_int (us_status u)))]
       @ (case us_last_login_at u of None \<Rightarrow> [] | Some t \<Rightarrow> [(''last_login_at'', JStr t)])
       @ [(''created_at'', JStr (us_created_at u)), (''updated_at'', JStr (us_updated_at u))])"

definition token_json :: "token_response \<Rightarrow> json" where
  "token_json t =
     JObj [(''access_token'', JStr (tr_access_token t)), (''token_type'', JStr (tr_token_type t)),
           (''expires_in'', JNum (of_int (tr_expires_in t))), (''user_id'', JNum (of_int (tr_user_id t))),
           (''username'', JStr (tr_username t))]"

text \<open>\<open>other\<close> prints the data whose schema is not documented: search results, statistics and metrics.\<close>

definition data_json :: "(app_data \<Rightarrow> json) \<Rightarrow> app_data \<Rightarrow> json" where
  "data_json other d =
     (case d of
        Authn (DToken t) \<Rightarrow> token_json t
      | Authn (DUser u) \<Rightarrow> user_json u
      | Biz (DCreated no ch) \<Rightarrow> JObj [(''channel'', JStr ch), (''order_no'', JStr no)]
      | Biz (DOrder od) \<Rightarrow> order_json od
      | Biz (DProfile u) \<Rightarrow> profile_json u
      | _ \<Rightarrow> other d)"

definition response_json :: "('d \<Rightarrow> json) \<Rightarrow> 'd api_response \<Rightarrow> json" where
  "response_json dj r =
     JObj ([(''code'', JNum (of_int (ar_code r))), (''message'', JStr (ar_message r))]
       @ (case ar_data r of None \<Rightarrow> [] | Some d \<Rightarrow> [(''data'', dj d)])
       @ (if ar_trace_id r = [] then [] else [(''trace_id'', JStr (ar_trace_id r))]))"

subsection \<open>Conformance\<close>

text \<open>
  A JSON value under a schema; \<open>resolve\<close> decides references. Properties that are not listed are
  free, those that are missing must not be required. Lengths are counted in characters: of the
  bytes of UTF-8, the continuation bytes do not count.
\<close>

definition rune_count :: "string \<Rightarrow> nat" where
  "rune_count s = length (filter (\<lambda>c. \<not> (128 \<le> (of_char c :: nat) \<and> (of_char c :: nat) < 192)) s)"

definition length_ok :: "nat option \<Rightarrow> nat option \<Rightarrow> string \<Rightarrow> bool" where
  "length_ok lo hi s \<longleftrightarrow>
     (case lo of None \<Rightarrow> True | Some a \<Rightarrow> a \<le> rune_count s) \<and> (case hi of None \<Rightarrow> True | Some b \<Rightarrow> rune_count s \<le> b)"

primrec conforms :: "doc_schema \<Rightarrow> (string \<Rightarrow> json \<Rightarrow> bool) \<Rightarrow> json \<Rightarrow> bool" where
  "conforms SAny = (\<lambda>resolve j. True)"
| "conforms (SInteger lo) = (\<lambda>resolve j.
     case j of
       JNum x \<Rightarrow> of_int \<lfloor>x\<rfloor> = x \<and> (case lo of None \<Rightarrow> True | Some m \<Rightarrow> of_nat m \<le> x)
     | JFrac x \<Rightarrow> of_int \<lfloor>x\<rfloor> = x \<and> (case lo of None \<Rightarrow> True | Some m \<Rightarrow> of_nat m \<le> x)
     | _ \<Rightarrow> False)"
| "conforms SNumber = (\<lambda>resolve j. case j of JNum x \<Rightarrow> True | JFrac x \<Rightarrow> True | _ \<Rightarrow> False)"
| "conforms (SString lo hi) = (\<lambda>resolve j.
     case j of JStr s \<Rightarrow> length_ok lo hi s | JTime t \<Rightarrow> lo = None \<and> hi = None | JB64 w \<Rightarrow> lo = None \<and> hi = None | _ \<Rightarrow> False)"
| "conforms (SArray e) = (\<lambda>resolve j. case j of JArr vs \<Rightarrow> list_all (conforms e resolve) vs | _ \<Rightarrow> False)"
| "conforms (SObject req props) = (\<lambda>resolve j.
     case j of
       JObj kvs \<Rightarrow>
         list_all (\<lambda>n. n \<in> fst ` set kvs) req \<and>
         list_all (\<lambda>(n, p). list_all (\<lambda>(k, v). k = n \<longrightarrow> p resolve v) kvs) (map (map_prod id conforms) props)
     | _ \<Rightarrow> False)"
| "conforms (SRef n) = (\<lambda>resolve j. resolve n j)"
| "conforms (SAllOf ss) = (\<lambda>resolve j. list_all (\<lambda>p. p resolve j) (map conforms ss))"

text \<open>No documented schema refers to another, so one step of resolution is enough.\<close>

definition resolve_in :: "(string \<times> doc_schema) list \<Rightarrow> string \<Rightarrow> json \<Rightarrow> bool" where
  "resolve_in ds n j =
     (case find (\<lambda>k. ''#/definitions/'' @ fst k = n) ds of
        None \<Rightarrow> False
      | Some k \<Rightarrow> conforms (snd k) (\<lambda>_ _. False) j)"

definition documented :: "doc_schema \<Rightarrow> json \<Rightarrow> bool" where
  "documented sch = conforms sch (resolve_in (sw_definitions swagger_info))"

lemma documented_ref [simp]:
  "documented (model_ref ''ApiResponse'') j = conforms schema_api_response (\<lambda>_ _. False) j"
  "documented (model_ref ''TokenResponse'') j = conforms schema_token_response (\<lambda>_ _. False) j"
  "documented (model_ref ''User'') j = conforms schema_user (\<lambda>_ _. False) j"
  "documented (model_ref ''Order'') j = conforms schema_order (\<lambda>_ _. False) j"
  "documented (model_ref ''UserProfile'') j = conforms schema_user_profile (\<lambda>_ _. False) j"
  by (simp_all add: documented_def model_ref_def resolve_in_def swagger_info_def doc_definitions_def model_name_def)

lemma api_response_conforms: "documented (model_ref ''ApiResponse'') (response_json dj r)"
  by (simp add: schema_api_response_def response_json_def length_ok_def split: option.split)

lemma api_data_conforms:
  assumes "ar_data r = Some d" "documented dsch (dj d)"
  shows "documented (SAllOf [model_ref ''ApiResponse'', SObject [] [(''data'', dsch)]]) (response_json dj r)"
proof -
  have "conforms dsch (resolve_in (sw_definitions swagger_info)) (dj d)" using assms(2) by (simp add: documented_def)
  moreover have "conforms (model_ref ''ApiResponse'') (resolve_in (sw_definitions swagger_info)) (response_json dj r)"
    using api_response_conforms [of dj r] by (simp only: documented_def)
  ultimately show ?thesis
    by (simp add: documented_def response_json_def assms(1))
qed

lemma model_json_conforms:
  "documented (model_ref ''TokenResponse'') (token_json t)" "documented (model_ref ''User'') (user_json u)"
  "1 \<le> ord_user_id od \<Longrightarrow> documented (model_ref ''Order'') (order_json od)" "documented (model_ref ''UserProfile'') (profile_json p)"
  by (cases "us_last_login_at u"; simp add: schema_token_response_def token_json_def schema_user_def user_json_def schema_order_def order_json_def
      schema_user_profile_def profile_json_def length_ok_def list_all_iff)+

subsection \<open>What the handlers answer\<close>

text \<open>An order has the user the validator let through.\<close>

definition data_ok :: "app_data \<Rightarrow> bool" where
  "data_ok d = (case d of Biz b \<Rightarrow> (case b of DOrder od \<Rightarrow> 1 \<le> ord_user_id od | _ \<Rightarrow> True) | _ \<Rightarrow> True)"

text \<open>A documented response of an endpoint: the plain envelope, or for a 200 the envelope with the data's schema.\<close>

definition covers :: "bool \<Rightarrow> endpoint \<Rightarrow> nat \<times> string \<times> doc_schema \<Rightarrow> bool" where
  "covers needs_token ep = (\<lambda>(st, txt, sch).
     (st = 200 \<or> st \<in> set (handler_errors ep) \<or> needs_token \<and> st = 401) \<and>
     (sch = model_ref ''ApiResponse'' \<or>
      st = 200 \<and> (\<exists>dsch. sch = SAllOf [model_ref ''ApiResponse'', SObject [] [(''data'', dsch)]] \<and>
        (\<forall>other d. handler_data ep d \<longrightarrow> data_ok d \<longrightarrow> documented dsch (data_json other d)))))"

lemma created_conforms:
  "documented (SObject [] [(''channel'', SString None None), (''order_no'', SString None None)]) (JObj [(''channel'', JStr a), (''order_no'', JStr b)])"
  by (simp add: documented_def length_ok_def)

lemma data_conforms:
  "handler_data EpRegister d \<Longrightarrow> documented (model_ref ''TokenResponse'') (data_json other d)"
  "handler_data EpLogin d \<Longrightarrow> documented (model_ref ''TokenResponse'') (data_json other d)"
  "handler_data EpGetMe d \<Longrightarrow> documented (model_ref ''User'') (data_json other d)"
  "handler_data EpCreateOrder d \<Longrightarrow>
     documented (SObject [] [(''channel'', SString None None), (''order_no'', SString None None)]) (data_json other d)"
  "handler_data EpCreateOrderSync d \<Longrightarrow>
     documented (SObject [] [(''channel'', SString None None), (''order_no'', SString None None)]) (data_json other d)"
  "handler_data EpGetOrder d \<Longrightarrow> data_ok d \<Longrightarrow> documented (model_ref ''Order'') (data_json other d)"
  "handler_data EpUpsertProfile d \<Longrightarrow> documented (model_ref ''UserProfile'') (data_json other d)"
  "handler_data EpGetProfile d \<Longrightarrow> documented (model_ref ''UserProfile'') (data_json other d)"
  by (auto simp: kinds data_json_def data_ok_def model_json_conforms created_conforms simp del: documented_ref
      split: app_data.splits auth_data.splits biz_data.splits)

lemmas doc_op_defs = doc_behaviors_def doc_daily_def doc_login_def doc_me_def doc_register_def doc_cache_stats_def doc_circuit_breaker_def doc_metrics_def doc_create_order_def doc_search_orders_def doc_create_order_sync_def doc_get_order_def doc_upsert_profile_def doc_search_users_def doc_get_profile_def

lemma operation_keys:
  "map operation_key doc_operations =
     [(''GET'', ''/api/v1/analytics/behaviors'', True),
      (''GET'', ''/api/v1/analytics/daily'', True),
      (''POST'', ''/api/v1/auth/login'', False),
      (''GET'', ''/api/v1/auth/me'', True),
      (''POST'', ''/api/v1/auth/register'', False),
      (''GET'', ''/api/v1/monitor/cache-stats'', False),
      (''GET'', ''/api/v1/monitor/circuit-breaker'', False),
      (''GET'', ''/api/v1/monitor/metrics'', False),
      (''POST'', ''/api/v1/orders'', True),
      (''GET'', ''/api/v1/orders/search'', True),
      (''POST'', ''/api/v1/orders/sync'', True),
      (''GET'', ''/api/v1/orders/:orderNo'', True),
      (''POST'', ''/api/v1/users/profile'', True),
      (''GET'', ''/api/v1/users/search'', True),
      (''GET'', ''/api/v1/users/:userID/profile'', True)]"
  by code_simp

text \<open>The endpoint of an operation.\<close>

definition operation_endpoints :: "(operation \<times> endpoint) list" where
  "operation_endpoints =
     [(doc_behaviors, EpBehaviors),
      (doc_daily, EpDailyStats),
      (doc_login, EpLogin),
      (doc_me, EpGetMe),
      (doc_register, EpRegister),
      (doc_cache_stats, EpCacheStats),
      (doc_circuit_breaker, EpBreakerState),
      (doc_metrics, EpMetrics),
      (doc_create_order, EpCreateOrder),
      (doc_search_orders, EpSearchOrders),
      (doc_create_order_sync, EpCreateOrderSync),
      (doc_get_order, EpGetOrder),
      (doc_upsert_profile, EpUpsertProfile),
      (doc_search_users, EpSearchUsers),
      (doc_get_profile, EpGetProfile)]"

lemma operation_endpoint:
  assumes "op \<in> set doc_operations" "(verb, path, needs_token, ep) \<in> set routes" "operation_key op = (verb, path, needs_token)"
  shows "(op, ep) \<in> set operation_endpoints \<and> needs_token = (op_security op \<noteq> [])"
proof -
  note k = operation_keys [unfolded doc_operations_def, simplified]
  have n: "needs_token = (op_security op \<noteq> [])" using assms(3) by (simp add: operation_key_def)
  have "op = doc_behaviors \<or> op = doc_daily \<or> op = doc_login \<or> op = doc_me \<or> op = doc_register \<or> op = doc_cache_stats \<or>
    op = doc_circuit_breaker \<or> op = doc_metrics \<or> op = doc_create_order \<or> op = doc_search_orders \<or> op = doc_create_order_sync \<or>
    op = doc_get_order \<or> op = doc_upsert_profile \<or> op = doc_search_users \<or> op = doc_get_profile"
    using assms(1) by (simp add: doc_operations_def)
  then have "(op, ep) \<in> set operation_endpoints"
    using assms(2,3) by (elim disjE; simp only: k; auto simp: routes_def auth_routes_def v1_routes_def monitor_routes_def operation_endpoints_def)
  with n show ?thesis by blast
qed

lemma responses_covered:
  assumes "(op, ep) \<in> set operation_endpoints" "resp \<in> set (op_responses op)"
  shows "covers (op_security op \<noteq> []) ep resp"
  using assms unfolding operation_endpoints_def
  by (auto simp: doc_op_defs covers_def data_conforms simp del: documented_ref handler_data.simps)

text \<open>Statuses a route may answer with that its documentation does not list.\<close>

definition undocumented :: "operation \<times> endpoint \<Rightarrow> nat list" where
  "undocumented = (\<lambda>(op, ep).
     filter (\<lambda>st. st \<notin> fst ` set (op_responses op))
       (200 # handler_errors ep @ (if op_security op \<noteq> [] then [401] else [])))"

lemma undocumented_statuses:
  "map (\<lambda>oe. (op_path (fst oe), undocumented oe)) operation_endpoints =
     [(''/api/v1/analytics/behaviors'', [401]),
      (''/api/v1/analytics/daily'', [401]),
      (''/api/v1/auth/login'', [400, 403, 500]),
      (''/api/v1/auth/me'', [404, 500]),
      (''/api/v1/auth/register'', [500]),
      (''/api/v1/monitor/cache-stats'', []),
      (''/api/v1/monitor/circuit-breaker'', []),
      (''/api/v1/monitor/metrics'', []),
      (''/api/v1/orders'', [401]),
      (''/api/v1/orders/search'', [500, 503, 401]),
      (''/api/v1/orders/sync'', [401]),
      (''/api/v1/orders/{orderNo}'', [401]),
      (''/api/v1/users/profile'', [503, 401]),
      (''/api/v1/users/search'', [500, 503, 401]),
      (''/api/v1/users/{userID}/profile'', [503, 401])]"
  by code_simp

end
