(* ===== verification/Validation.thy ===== *)
theory Validation
  imports Api_Docs
begin

section \<open>Validation of requests (the tags of internal/model/models.go)\<close>

text \<open>
  The \<open>validate\<close> tags of the request structs as data. What the validator library makes of them is
  its documented behaviour, stated as the law \<open>validator_ok\<close> on the environment's validator. The
  theorems compare the tags with the published schemas and follow them through the handlers.
\<close>

subsection \<open>Tags\<close>

datatype validate_tag = VRequired | VOmitEmpty | VMin nat | VMax nat | VGt nat | VEmail

datatype field_value = FUint int | FFloat f64 | FText string

definition create_fields :: "create_order_request \<Rightarrow> (field_value \<times> validate_tag list) list" where
  "create_fields q = [(FUint (cor_user_id q), [VRequired, VMin 1]), (FFloat (cor_amount q), [VGt 0])]"

definition profile_fields :: "user_profile \<Rightarrow> (field_value \<times> validate_tag list) list" where
  "profile_fields u = [(FUint (up_user_id u), [VRequired])]"

definition register_fields :: "register_request \<Rightarrow> (field_value \<times> validate_tag list) list" where
  "register_fields r =
     [(FText (rr_username r), [VRequired, VMin 3, VMax 64]),
      (FText (rr_password r), [VRequired, VMin 6, VMax 128]),
      (FText (rr_email r), [VOmitEmpty, VEmail, VMax 128]),
      (FText (rr_phone r), [VOmitEmpty, VMax 20])]"

definition login_fields :: "login_request \<Rightarrow> (field_value \<times> validate_tag list) list" where
  "login_fields r = [(FText (lr_username r), [VRequired]), (FText (lr_password r), [VRequired])]"

subsection \<open>What the validator documents\<close>

text \<open>
  \<open>required\<close> asks for another value than the zero value; \<open>min\<close>, \<open>max\<close> and \<open>gt\<close> compare numbers, and
  of a text the number of characters; the tags of a field are read from left to right, and after
  \<open>omitempty\<close> a zero value passes. \<open>email\<close> decides what an address is.
\<close>

primrec zero_value :: "field_value \<Rightarrow> bool" where
  "zero_value (FUint i) = (i = 0)"
| "zero_value (FFloat x) = (x = 0)"
| "zero_value (FText s) = (s = [])"

primrec measured :: "field_value \<Rightarrow> rat" where
  "measured (FUint i) = of_int i"
| "measured (FFloat x) = x"
| "measured (FText s) = of_nat (rune_count s)"

primrec tag_ok :: "(string \<Rightarrow> bool) \<Rightarrow> field_value \<Rightarrow> validate_tag \<Rightarrow> bool" where
  "tag_ok email v VRequired = (\<not> zero_value v)"
| "tag_ok email v VOmitEmpty = True"
| "tag_ok email v (VMin n) = (of_nat n \<le> measured v)"
| "tag_ok email v (VMax n) = (measured v \<le> of_nat n)"
| "tag_ok email v (VGt n) = (of_nat n < measured v)"
| "tag_ok email v VEmail = (case v of FText s \<Rightarrow> email s | _ \<Rightarrow> False)"

fun tags_ok :: "(string \<Rightarrow> bool) \<Rightarrow> field_value \<Rightarrow> validate_tag list \<Rightarrow> bool" where
  "tags_ok email v [] = True"
| "tags_ok email v (VOmitEmpty # ts) = (zero_value v \<or> tags_ok email v ts)"
| "tags_ok email v (t # ts) = (tag_ok email v t \<and> tags_ok email v ts)"

definition struct_ok :: "(string \<Rightarrow> bool) \<Rightarrow> (field_value \<times> validate_tag list) list \<Rightarrow> bool" where
  "struct_ok email fs = list_all (\<lambda>(v, ts). tags_ok email v ts) fs"

definition validator_ok :: "(string \<Rightarrow> bool) \<Rightarrow> 'w server_env \<Rightarrow> bool" where
  "validator_ok email E \<longleftrightarrow>
     (\<forall>q. se_valid_create E q = None \<longleftrightarrow> struct_ok email (create_fields q)) \<and>
     (\<forall>u. se_valid_profile E u = None \<longleftrightarrow> struct_ok email (profile_fields u)) \<and>
     (\<forall>r. se_valid_register E r = None \<longleftrightarrow> struct_ok email (register_fields r)) \<and>
     (\<forall>r. se_valid_login E r = None \<longleftrightarrow> struct_ok email (login_fields r))"

lemmas request_fields = create_fields_def profile_fields_def register_fields_def login_fields_def

lemma rune_count_Nil [simp]: "rune_count [] = 0"
  by (simp add: rune_count_def)

lemma valid_create_iff: "struct_ok email (create_fields q) \<longleftrightarrow> 1 \<le> cor_user_id q \<and> 0 < cor_amount q"
  by (auto simp: struct_ok_def request_fields)

lemma valid_profile_iff: "struct_ok email (profile_fields u) \<longleftrightarrow> up_user_id u \<noteq> 0"
  by (simp add: struct_ok_def request_fields)

lemma valid_login_iff: "struct_ok email (login_fields r) \<longleftrightarrow> lr_username r \<noteq> [] \<and> lr_password r \<noteq> []"
  by (simp add: struct_ok_def request_fields)

lemma valid_register_iff:
  "struct_ok email (register_fields r) \<longleftrightarrow>
     3 \<le> rune_count (rr_username r) \<and> rune_count (rr_username r) \<le> 64 \<and>
     6 \<le> rune_count (rr_password r) \<and> rune_count (rr_password r) \<le> 128 \<and>
     (rr_email r = [] \<or> email (rr_email r) \<and> rune_count (rr_email r) \<le> 128) \<and> rune_count (rr_phone r) \<le> 20"
  by (auto simp: struct_ok_def request_fields)

subsection \<open>Requests as JSON\<close>

definition create_json :: "create_order_request \<Rightarrow> json" where
  "create_json q = JObj [(''user_id'', JNum (of_int (cor_user_id q))), (''amount'', JNum (f64_dec (cor_amount q)))]"

definition register_json :: "register_request \<Rightarrow> json" where
  "register_json r =
     JObj [(''username'', JStr (rr_username r)), (''password'', JStr (rr_password r)), (''email'', JStr (rr_email r)),
           (''phone'', JStr (rr_phone r))]"

definition login_json :: "login_request \<Rightarrow> json" where
  "login_json r = JObj [(''username'', JStr (lr_username r)), (''password'', JStr (lr_password r))]"

lemma documented_request [simp]:
  "documented (model_ref ''CreateOrderRequest'') j = conforms schema_create_order_request (\<lambda>_ _. False) j"
  "documented (model_ref ''RegisterRequest'') j = conforms schema_register_request (\<lambda>_ _. False) j"
  "documented (model_ref ''LoginRequest'') j = conforms schema_login_request (\<lambda>_ _. False) j"
  by (simp_all add: documented_def model_ref_def resolve_in_def swagger_info_def doc_definitions_def model_name_def)

lemma documented_create: "documented (model_ref ''CreateOrderRequest'') (create_json q) \<longleftrightarrow> 1 \<le> cor_user_id q"
  by (simp add: schema_create_order_request_def create_json_def)

lemma documented_login: "documented (model_ref ''LoginRequest'') (login_json r)"
  by (simp add: schema_login_request_def login_json_def length_ok_def)

lemma documented_register:
  "documented (model_ref ''RegisterRequest'') (register_json r) \<longleftrightarrow>
     3 \<le> rune_count (rr_username r) \<and> rune_count (rr_username r) \<le> 64 \<and>
     6 \<le> rune_count (rr_password r) \<and> rune_count (rr_password r) \<le> 128 \<and>
     rune_count (rr_email r) \<le> 128 \<and> rune_count (rr_phone r) \<le> 20"
  by (auto simp: schema_register_request_def register_json_def length_ok_def)

text \<open>A printed request decodes to itself.\<close>

lemma request_roundtrip:
  "unmarshal_register (register_json r) = (None, r)" "unmarshal_login (login_json l) = (None, l)"
  "create_ok q \<Longrightarrow> unmarshal_create (create_json q) = (None, q)"
  by (simp_all add: unmarshal_register_def register_json_def unmarshal_login_def login_json_def unmarshal_create_def create_json_def
      register_member_def login_member_def create_member_def set_field_def create_ok_def)

subsection \<open>Handlers that validate\<close>

text \<open>
  A handler guarded by \<open>ok\<close> answers 400 to a request that is not \<open>ok\<close>, changes nothing, and
  answers 400 to no other.
\<close>

definition refuses :: "'d gin \<Rightarrow> 's \<times> 'w \<Rightarrow> ('d gin \<times> 's \<times> 'w) option \<Rightarrow> bool" where
  "refuses c sw x \<longleftrightarrow> (\<exists>msg. x = Some (c_json 400 (reply 400 msg None (get_trace_id c)) c, sw))"

definition guarded :: "('d gin \<Rightarrow> bool) \<Rightarrow> ('d, 's \<times> 'w) http_handler \<Rightarrow> bool" where
  "guarded ok h \<longleftrightarrow>
     (\<forall>c s w. (\<not> ok c \<longrightarrow> refuses c (s, w) (h (c, s, w))) \<and>
       (\<forall>c' s' w'. ok c \<longrightarrow> h (c, s, w) = Some (c', s', w') \<longrightarrow> wrote (\<lambda>st d. st \<noteq> 400) c c'))"

lemma guardedI:
  assumes "\<And>c s w. \<not> ok c \<Longrightarrow> refuses c (s, w) (h (c, s, w))"
    and "\<And>c s w c' s' w'. ok c \<Longrightarrow> h (c, s, w) = Some (c', s', w') \<Longrightarrow> wrote (\<lambda>st d. st \<noteq> 400) c c'"
  shows "guarded ok h"
  unfolding guarded_def using assms by blast

lemma guarded_refuses: "guarded ok h \<Longrightarrow> \<not> ok c \<Longrightarrow> refuses c (s, w) (h (c, s, w))"
  unfolding guarded_def by blast

lemma guarded_wrote: "guarded ok h \<Longrightarrow> ok c \<Longrightarrow> h (c, s, w) = Some (c', s', w') \<Longrightarrow> wrote (\<lambda>st d. st \<noteq> 400) c c'"
  unfolding guarded_def by blast

text \<open>The body decodes to a struct that \<open>P\<close> holds for.\<close>

definition body_satisfies :: "(json \<Rightarrow> goerr option \<times> 'r) \<Rightarrow> ('r \<Rightarrow> bool) \<Rightarrow> 'd gin \<Rightarrow> bool" where
  "body_satisfies unm P c = (case bind_json unm c of Inl e \<Rightarrow> False | Inr r \<Rightarrow> P r)"

lemma register_guarded: "guarded (body_satisfies unmarshal_register (\<lambda>r. valid r = None)) (register_handler S A valid)"
  by (rule guardedI)
    (auto simp: body_satisfies_def refuses_def register_handler_def Let_def split: sum.splits option.splits prod.splits if_splits)

lemma login_guarded: "guarded (body_satisfies unmarshal_login (\<lambda>r. valid r = None)) (login_handler S A valid)"
  by (rule guardedI)
    (auto simp: body_satisfies_def refuses_def login_handler_def Let_def split: sum.splits option.splits prod.splits if_splits)

lemma create_guarded:
  "guarded (body_satisfies unmarshal_create (\<lambda>q. valid q = None)) (handle_create_order S json_text valid msg force)"
  by (rule guardedI)
    (auto simp: body_satisfies_def refuses_def handle_create_order_def Let_def split: sum.splits option.splits prod.splits)

lemma upsert_guarded:
  "guarded (body_satisfies unmarshal_profile_body (\<lambda>u. valid u = None)) (upsert_user_profile_handler S valid)"
proof -
  have "fst (handle_service_error e operation) \<noteq> 400" for e operation
    using service_error_status [of e operation] by auto
  then show ?thesis
    by (intro guardedI)
      (auto simp: body_satisfies_def refuses_def upsert_user_profile_handler_def failure_wrote Let_def
        split: sum.splits option.splits prod.splits)
qed

lemma body_satisfies_narrow [simp]: "body_satisfies unm P (narrow c) = body_satisfies unm P c"
  by (simp add: body_satisfies_def bind_json_def narrow_def)

lemma via_guarded:
  fixes f :: "'e \<Rightarrow> 'd"
  assumes "guarded (body_satisfies unm P) h" "\<And>s. put (get s) s = s"
  shows "guarded (body_satisfies unm P) (via f get put h)"
proof (rule guardedI)
  fix c :: "'d gin" and s w assume "\<not> body_satisfies unm P c"
  then have "refuses (narrow c) (get s, w) (h (narrow c, get s, w))" using guarded_refuses [OF assms(1)] by simp
  then show "refuses c (s, w) (via f get put h (c, s, w))"
    by (auto simp: refuses_def via_def assms(2) widen_def narrow_def c_json_def reply_def map_response_def get_trace_id_def)
next
  fix c c' :: "'d gin" and s w s' w' assume ok: "body_satisfies unm P c" and "via f get put h (c, s, w) = Some (c', s', w')"
  then obtain e t where e: "h (narrow c, get s, w) = Some (e, t, w')" "c' = widen f c e" by (auto simp: via_def split: option.splits)
  have "body_satisfies unm P (narrow c)" using ok by simp
  from guarded_wrote [OF assms(1) this e(1)] show "wrote (\<lambda>st d. st \<noteq> 400) c c'" unfolding e(2) by (rule widen_wrote)
qed

text \<open>The endpoints that validate, and what they ask of the body.\<close>

definition validated :: "endpoint list" where
  "validated = [EpRegister, EpLogin, EpCreateOrder, EpCreateOrderSync, EpUpsertProfile]"

definition body_ok :: "(string \<Rightarrow> bool) \<Rightarrow> endpoint \<Rightarrow> 'd gin \<Rightarrow> bool" where
  "body_ok email ep c =
     (case ep of
        EpRegister \<Rightarrow> body_satisfies unmarshal_register (\<lambda>r. struct_ok email (register_fields r)) c
      | EpLogin \<Rightarrow> body_satisfies unmarshal_login (\<lambda>r. struct_ok email (login_fields r)) c
      | EpCreateOrder \<Rightarrow> body_satisfies unmarshal_create (\<lambda>q. struct_ok email (create_fields q)) c
      | EpCreateOrderSync \<Rightarrow> body_satisfies unmarshal_create (\<lambda>q. struct_ok email (create_fields q)) c
      | EpUpsertProfile \<Rightarrow> body_satisfies unmarshal_profile_body (\<lambda>u. struct_ok email (profile_fields u)) c
      | _ \<Rightarrow> True)"

lemma endpoint_guarded:
  assumes "validator_ok email E" "ep \<in> set validated"
  shows "guarded (body_ok email ep) (endpoint_handler E ep)"
proof -
  have v: "struct_ok email (create_fields q) \<longleftrightarrow> se_valid_create E q = None" "struct_ok email (profile_fields u) \<longleftrightarrow> se_valid_profile E u = None"
    "struct_ok email (register_fields r) \<longleftrightarrow> se_valid_register E r = None" "struct_ok email (login_fields l) \<longleftrightarrow> se_valid_login E l = None" for q u r l
    using assms(1) by (simp_all add: validator_ok_def)
  from assms(2) show ?thesis
    unfolding validated_def
    by (auto simp: body_ok_def [abs_def] v authn_def biz_def create_order_handler_def create_order_sync_handler_def
        intro!: via_guarded register_guarded login_guarded create_guarded upsert_guarded)
qed

text \<open>Behind the JWT middleware a bad request may also be answered with 401.\<close>

definition screens :: "('d gin \<Rightarrow> bool) \<Rightarrow> ('d, 's \<times> 'w) http_handler \<Rightarrow> bool" where
  "screens ok h \<longleftrightarrow>
     (\<forall>c s w. if ok c then (\<forall>c' s' w'. h (c, s, w) = Some (c', s', w') \<longrightarrow> wrote (\<lambda>st d. st \<noteq> 400) c c')
              else (\<exists>c' w'. h (c, s, w) = Some (c', s, w') \<and> wrote (\<lambda>st d. st = 400 \<or> st = 401) c c'))"

lemma guarded_screens:
  assumes "guarded ok h"
  shows "screens ok h"
  unfolding screens_def
proof (intro allI)
  fix c s w
  show "if ok c then (\<forall>c' s' w'. h (c, s, w) = Some (c', s', w') \<longrightarrow> wrote (\<lambda>st d. st \<noteq> 400) c c')
        else (\<exists>c' w'. h (c, s, w) = Some (c', s, w') \<and> wrote (\<lambda>st d. st = 400 \<or> st = 401) c c')"
    using guarded_wrote [OF assms] guarded_refuses [OF assms, of c s w] by (auto simp: refuses_def)
qed

lemma screensD:
  "screens ok h \<Longrightarrow> ok c \<Longrightarrow> h (c, s, w) = Some (c', s', w') \<Longrightarrow> wrote (\<lambda>st d. st \<noteq> 400) c c'"
  "screens ok h \<Longrightarrow> \<not> ok c \<Longrightarrow> \<exists>c' w'. h (c, s, w) = Some (c', s, w') \<and> wrote (\<lambda>st d. st = 400 \<or> st = 401) c c'"
  unfolding screens_def by (metis (no_types, lifting))+

lemma jwt_screens:
  fixes h :: "('d, 's \<times> 'w) http_handler"
  assumes "screens ok h" "\<And>c i n. ok (c\<lparr>gn_user_id := i, gn_username := n\<rparr>) = ok c"
  shows "screens ok (jwt_auth S A au_of h)"
  unfolding screens_def
proof (intro allI)
  fix c :: "'d gin" and s :: 's and w :: 'w
  have u: "wrote Q c (unauthorized msg c) \<longleftrightarrow> Q 401 None" for Q msg by (simp add: unauthorized_def)
  obtain x w2 where p: "parse_token S A (bearer_token (get_header c ''Authorization'')) (au_of s, w) = (x, w2)" by force
  have "(\<exists>msg w1. jwt_auth S A au_of h (c, s, w) = Some (unauthorized msg c, s, w1)) \<or>
    (\<exists>i n w1. jwt_auth S A au_of h (c, s, w) = h (c\<lparr>gn_user_id := Some i, gn_username := Some n\<rparr>, s, w1))"
    by (cases "get_header c ''Authorization'' = []"; cases x) (auto simp: jwt_auth_def p, blast)
  then consider msg w1 where "jwt_auth S A au_of h (c, s, w) = Some (unauthorized msg c, s, w1)"
    | i n w1 where "jwt_auth S A au_of h (c, s, w) = h (c\<lparr>gn_user_id := Some i, gn_username := Some n\<rparr>, s, w1)"
    by blast
  then show "if ok c then (\<forall>c' s' w'. jwt_auth S A au_of h (c, s, w) = Some (c', s', w') \<longrightarrow> wrote (\<lambda>st d. st \<noteq> 400) c c')
        else (\<exists>c' w'. jwt_auth S A au_of h (c, s, w) = Some (c', s, w') \<and> wrote (\<lambda>st d. st = 400 \<or> st = 401) c c')"
  proof cases
    case 1
    then show ?thesis by (simp add: u)
  next
    case 2
    let ?c = "c\<lparr>gn_user_id := Some i, gn_username := Some n\<rparr>"
    have "ok ?c = ok c" by (rule assms(2))
    then show ?thesis using screensD(1) [OF assms(1), of ?c] screensD(2) [OF assms(1), of ?c] by (simp add: 2)
  qed
qed

lemma body_ok_request: "gn_request c = gn_request c' \<Longrightarrow> body_ok email ep c \<longleftrightarrow> body_ok email ep c'"
  by (simp add: body_ok_def body_satisfies_def bind_json_def split: endpoint.split)

lemma route_screens:
  assumes "validator_ok email E" "ep \<in> set validated"
  shows "screens (body_ok email ep)
    (if needs_token then jwt_auth (se_services E) (se_auth E) ap_auth (endpoint_handler E ep) else endpoint_handler E ep)"
proof -
  note g = guarded_screens [OF endpoint_guarded [OF assms]]
  have "body_ok email ep (c\<lparr>gn_user_id := i, gn_username := n\<rparr>) = body_ok email ep c" for c :: "app_data gin" and i n
    by (rule body_ok_request) simp
  with g show ?thesis by (cases needs_token) (simp_all add: jwt_screens)
qed

end
