(* ===== verification/Spec2Isabelle.thy ===== *)
theory Spec2Isabelle
  imports Rate_Limiter Circuit_Breaker Hot_Key Config Go_Json Services Lock Cache Messaging Rwdb Order_Service Analytics User_Profiles
    Data_Loader Http Auth Search Handlers Health Schema Database_Manager Swagger Server Lifecycle Responses Api_Docs Validation
begin

text \<open>
  Verification of the high-concurrency framework: an order service in Go with a write limiter, a
  circuit breaker, a two-level cache, read/write splitting, Kafka, JWT authentication and an HTTP
  front. The library models the program under \<open>cmd/server\<close> and \<open>internal/\<close>; this theory composes
  the components and holds the properties of the server as a whole.

  \<^bold>\<open>How the program runs.\<close> \<open>main\<close> builds the components from the configuration and registers the
  routes. A request passes the middleware (trace id, logger, recovery, error handler, CORS and, on
  the protected group, JWT) and reaches a handler. Creating an order takes a token from the limiter
  and asks the breaker; with both, the order is written to MySQL and the cache is invalidated,
  otherwise an event goes to Kafka, whose consumer writes the order later. Queries go through L1
  (Ristretto), L2 (Redis) and the data loader, which reads a replica. Users are kept in MySQL,
  profiles in MongoDB; search goes to Elasticsearch; behaviour entries are buffered and written to
  PostgreSQL in batches.

  \<^bold>\<open>Which theory models what.\<close>
  \<^item> \<open>Prelude\<close>: Go's integers, durations, errors, decimal text; the run of a step function and the
    locale \<open>machine\<close> that lifts a one-step invariant to runs. \<open>Float64\<close>: the rounding of
    \<open>float64\<close> arithmetic on exact rationals.
  \<^item> \<open>Config\<close>: \<open>internal/config/config.go\<close>. \<open>Go_Json\<close>: \<open>internal/model/models.go\<close> and the JSON of its
    structs. \<open>Services\<close>: what the program calls outside the repository, as operations on an opaque
    world \<open>'w\<close>, with their laws and a reference world that satisfies them.
  \<^item> \<open>Rate_Limiter\<close>, \<open>Circuit_Breaker\<close>: \<open>internal/resilience\<close>. \<open>Hot_Key\<close>, \<open>Cache\<close>: \<open>internal/cache\<close>.
    \<open>Lock\<close>: \<open>internal/lock\<close>. \<open>Messaging\<close>: \<open>internal/mq\<close>. \<open>Rwdb\<close>: \<open>internal/database/rwdb.go\<close>.
  \<^item> \<open>Order_Service\<close>, \<open>User_Profiles\<close>, \<open>Analytics\<close>, \<open>Auth\<close>: the services of \<open>internal/service\<close> with
    their repositories (\<open>mongo.go\<close>, \<open>postgres.go\<close>, \<open>user_auth_repo.go\<close>); \<open>Auth\<close> also has the JWT
    middleware and \<open>auth_handler.go\<close>. \<open>Search\<close>: \<open>elasticsearch.go\<close>. \<open>Schema\<close>: \<open>schema.go\<close>.
    \<open>Database_Manager\<close>: \<open>manager.go\<close> and the opening of connections in \<open>main.go\<close>.
  \<^item> \<open>Http\<close>: \<open>internal/trace\<close> and \<open>internal/middleware\<close>; \<open>Swagger\<close>: its \<open>swagger.go\<close>. \<open>Handlers\<close>: the
    business, analytics and monitor handlers. \<open>Health\<close>: \<open>internal/health\<close>.
  \<^item> \<open>Data_Loader\<close>: \<open>newDataLoader\<close> and the paths through cache, loader and services. \<open>Server\<close>: the
    rest of \<open>main.go\<close>: the start from the configuration file, the logger, the wiring, the routes and
    probes, background setup and shutdown. \<open>Lifecycle\<close>: requests, background goroutines, Kafka
    workers and shutdown as one machine, and \<open>main\<close> as a whole (\<open>run_program\<close>).
  \<^item> \<open>Responses\<close>: what each handler may answer. \<open>Api_Docs\<close>: \<open>swagger/swagger.go\<close>, the JSON of the
    answers, and the schemas as predicates on JSON values. \<open>Validation\<close>: the \<open>validate\<close> tags of the
    request structs and the handlers that obey them.

  \<^bold>\<open>State and effects.\<close> A struct is a record with the code's fields, a method a function from the
  state (and the world) to the new ones. \<open>None\<close> is a panic, \<open>Inl\<close> an error. A goroutine is a step
  of its own: background loops one iteration at a time, spawned tasks as pending entries that run
  at any later time. Mutex sections are atomic steps; where the code uses atomics without a lock
  (the breaker), the interleaving is modelled operation by operation. Clock readings come from
  the world (\<open>sv_now\<close>) or are arguments. Services share one cache; \<open>Handlers\<close> lends it to the
  service of the call. In \<open>Lifecycle\<close> a request, and a pass of a Kafka worker with its retries, is
  one step; other goroutines run between such steps.

  \<^bold>\<open>What the lemmas show.\<close> For each component its invariant in every run (interpretations of
  \<open>machine\<close>), its functional behaviour with the error branches, and its contract as a locale where
  several providers share one (\<open>sliding_window\<close> for the detector's ring, \<open>event_sink\<close> for the real
  and the mock producer). Laws of outside code (\<open>lease_ok\<close>, \<open>store_ok\<close>, \<open>durable_ok\<close>, \<open>orders_ok\<close>,
  \<open>jwt_ok\<close>, \<open>users_ok\<close>, \<open>handles_ok\<close>, \<open>validator_ok\<close>) are documented behaviour of Redis, MySQL, Kafka,
  the JWT library, the drivers and the validator; each witness instantiates them with the reference
  world. Of the answer of a query they say something only for a handle that is \<open>synced\<close>, a primary
  or a replica that answers and has caught up; a row keeps an order as its columns do (\<open>kept_as\<close>:
  the amount is a \<open>DECIMAL(12,2)\<close>).
  On top of these: no request, background step or shutdown makes the server panic and the program
  runs from its configuration file to a normal exit; every request gets exactly one answer, which
  conforms to the published documentation where that lists the status, and the documented operations
  are the routes of the server; a request that breaks a validation tag is refused and changes
  nothing; protected routes need a signed token and a token from a login opens them; an order that
  was answered with 200 is in the table or in Kafka, and whoever consumes the event writes the order
  or hands it to the dead-letter topic.

  \<^bold>\<open>Bounds and fuel.\<close> No definition uses fuel that can run out: loops over a schedule of clock
  readings (\<open>Lock\<close>, \<open>WaitAcquire\<close>) end with the schedule, and the termination theorems say how long
  a schedule suffices; retries count down. \<open>int64\<close>, \<open>uint32\<close> and \<open>uint64\<close> values wrap as in Go
  (\<open>s64\<close>, words); \<open>float64\<close> results are rounded (\<open>fl\<close>), NaN and infinities are left out.

  \<^bold>\<open>Not modelled.\<close>
  \<^item> The prose of \<open>swagger/swagger.go\<close> (summaries, descriptions, tags). \<open>tests/\<close> drives a running
    deployment.
  \<^item> Of \<open>main\<close>: HTTP itself, the delivery of the signal, \<open>srv.Shutdown\<close>, and what the log lines print.
    That the listener fails, that the Redis client panics on its options and Gin on the server mode
    are arguments. The router of Gin is outside: a request comes with the route it was matched to.
  \<^item> The state a panicking handler leaves behind after \<open>Recovery\<close> is \<open>None\<close>, and its answer has lost
    the headers that middleware inside \<open>Recovery\<close> (CORS) had set before the panic.
  \<^item> JSON texts are values (\<open>Go_Json\<close>): member names are matched without regard to ASCII case, number
    literals with a fraction or an exponent are refused for integers; of members with the
    same name the last one counts; white space and escapes are below the abstraction.
  \<^item> \<open>strings.ToLower\<close>, \<open>TrimSpace\<close> and the splitting of scripts are on ASCII text; bcrypt, the JWT
    library, the validator, date layouts and the drivers are arguments.
\<close>

section \<open>The server as a whole\<close>

lemma init_manager:
  assumes "start_server E cfg w = Serving (ap, w1)"
  shows "\<exists>u. ap_manager ap = fst (init_databases (se_services E) (se_conn E) (cfg_databases cfg) u)"
  using assms unfolding start_server_def Let_def
  by (simp only: split_beta split: if_splits option.splits) auto

text \<open>
  C24: main gets as far as serving exactly when an L2 address is configured, the Redis client accepts
  its options, Ristretto its size, the Kafka consumer its configuration and Gin the server mode,
  and the breaker interval and the detector window make positive ticker periods; in every other
  case it ends by Fatal or a panic before it listens.
\<close>

theorem server_serves_iff:
  "(\<exists>x. start_server E cfg w = Serving x) \<longleftrightarrow>
     l2c_addresses (cc_l2 (cfg_cache cfg)) \<noteq> [] \<and> se_new_redis E (cc_l2 (cfg_cache cfg)) \<and>
     se_new_l1 E (s64 (l1c_max_entries (cc_l1 (cfg_cache cfg)) * 10)) (l1c_max_entries (cc_l1 (cfg_cache cfg))) 64 = None \<and>
     consumer_accepts E (cfg_kafka cfg) \<and>
     0 < s64 (cbc_interval_seconds (cfg_circuit_breaker cfg) * second) \<and>
     0 < s64 (s64 (hkc_window_seconds (cfg_hot_key cfg) * second) * 2) \<and> se_set_mode E (sc_mode (cfg_server cfg))"
  by (rule start_server_serves)

text \<open>
  C6: A program whose configuration file loads and whose server gets as far as serving (the Redis
  client accepts its options and Gin the server mode, among the rest), with MySQL there at the
  start, a valid detector configuration and a clock that does not go back, answers every request
  of every route, and every step of its background goroutines ends, in any order and number until
  the signal comes; and unless the listener fails before that, the whole program, from the
  configuration file through serving and the shutdown with any requests still in flight, ends by a
  normal exit with the consumer stopped: nothing panics.
\<close>

theorem server_keeps_serving:
  assumes "clock_ok (se_services E) clk" "load_config unmarshal file = Inr cfg" "start_server E cfg w = Serving (ap, w1)"
    and "mg_mysql (ap_manager ap) \<noteq> None"
    and "detector_ok (hkc_window_seconds (cfg_hot_key cfg)) (hkc_slots (cfg_hot_key cfg))"
    and "\<forall>ev \<in> set (before @ inflight). \<not> is_stop ev"
  shows "(\<exists>ap' w'. run (app_step E) (Some (ap, w1)) before = Some (ap', w')) \<and>
    (\<exists>ap' w'. run_program E unmarshal file None before done1 done2 inflight delays w = Exited (ap', w') \<and> is_stopped (ap_consumer ap'))"
proof -
  note i = start_server_inv [OF assms(3-5)]
  show ?thesis
    using serves_until_after_stop [OF assms(1) i start_server_unstopped [OF assms(3)] assms(6), of w1]
      program_exits [OF assms(1,3) i assms(2,6)]
    unfolding running_def by blast
qed

text \<open>What the chain has done when the handler of the route starts.\<close>

definition entered :: "('w \<Rightarrow> string \<times> 'w) \<Rightarrow> http_request \<Rightarrow> 'w \<Rightarrow> 'd gin \<times> 'w" where
  "entered uuid rq w =
     (let h = rq_headers rq ''X-Trace-Id''; tw = (if h = [] then uuid w else (h, w))
      in ((new_gin rq)\<lparr>gn_trace_id := Some (fst tw), gn_context := Some (fst tw), gn_headers := [''X-Trace-Id'' \<mapsto> fst tw],
            gn_logger := Some (fst tw)\<rparr>, snd tw))"

lemma global_chain_entered:
  "global_chain (lift_uuid uuid) cfg h (new_gin rq, s, w) =
     (case entered uuid rq w of (c, w1) \<Rightarrow> recovery (error_handler (cors cfg h)) (c, s, w1))"
  by (cases "uuid w")
    (simp add: global_chain_def trace_id_def zap_logger_def lift_uuid_def entered_def new_context_def get_trace_id_def new_gin_def
      gin_defs Let_def)

lemma entered_fields [simp]:
  "gn_request (fst (entered uuid rq w)) = rq" "gn_written (fst (entered uuid rq w)) = []" "gn_errors (fst (entered uuid rq w)) = []"
  by (simp_all add: entered_def new_gin_def Let_def)

text \<open>The world when the handler starts.\<close>

definition arrived :: "('w \<Rightarrow> string \<times> 'w) \<Rightarrow> http_request \<Rightarrow> 'w \<Rightarrow> 'w" where
  "arrived uuid rq w = (if rq_headers rq ''X-Trace-Id'' = [] then snd (uuid w) else w)"

lemma entered_world: "entered uuid rq w = (fst (entered uuid rq w), arrived uuid rq w)"
  by (simp add: entered_def arrived_def Let_def)

lemma cors_headers_fields [simp]:
  "gn_request (cors_headers cfg all orig c) = gn_request c" "gn_written (cors_headers cfg all orig c) = gn_written c"
  "gn_errors (cors_headers cfg all orig c) = gn_errors c" "gn_trace_id (cors_headers cfg all orig c) = gn_trace_id c"
  "gn_context (cors_headers cfg all orig c) = gn_context c"
  "gn_headers (cors_headers cfg all orig c) ''X-Trace-Id'' = gn_headers c ''X-Trace-Id''"
  by (simp_all add: cors_headers_def gin_defs Let_def)

lemma preflight_headers_fields [simp]:
  "gn_written (preflight_headers cfg c) = gn_written c" "gn_errors (preflight_headers cfg c) = gn_errors c"
  by (simp_all add: preflight_headers_def gin_defs Let_def)

subsection \<open>One answer per request\<close>

lemma cors_outcomes:
  "(\<exists>c1 \<in> {c, cors_headers cfg (wildcard cfg) (rq_headers (gn_request c) ''Origin'') c}. cors cfg h (c, s) = h (c1, s)) \<or>
   (\<exists>st c'. cors cfg h (c, s) = Some (c', s) \<and> gn_written c' = gn_written c @ [(st, None)] \<and> gn_errors c' = gn_errors c \<and>
      (st = 204 \<or> st = 403))"
proof (cases "\<not> cx_enabled cfg \<or> rq_headers (gn_request c) ''Origin'' = []")
  case True
  then show ?thesis by (simp add: cors_cases Let_def)
next
  case False
  then show ?thesis
    by (cases "origin_refused cfg (gn_request c)"; cases "rq_method (gn_request c) = ''OPTIONS''")
      (auto simp: cors_cases Let_def c_abort_with_status_def c_abort_def)
qed

lemma one_answer:
  "\<exists>st b. gn_written (fst (serve E (verb, path, needs_token, ep) rq (ap, w))) = [(st, b)] \<and>
    (case b of
       None \<Rightarrow> st = 204 \<or> st = 403
     | Some r \<Rightarrow> ar_code r = int st \<and>
         gn_headers (fst (serve E (verb, path, needs_token, ep) rq (ap, w))) ''X-Trace-Id'' = Some (ar_trace_id r) \<and>
         route_outcome needs_token ep (snd (serve E (verb, path, needs_token, ep) rq (ap, w)) = None) st (ar_data r))"
proof -
  let ?h = "if needs_token then jwt_auth (se_services E) (se_auth E) ap_auth (endpoint_handler E ep) else endpoint_handler E ep"
  obtain c :: "app_data gin" and w1 where c: "entered (se_uuid E) rq w = (c, w1)" by force
  have f: "gn_request c = rq" "gn_written c = []" "gn_errors c = []"
    using c entered_fields [where uuid = "se_uuid E" and rq = rq and w = w] by (metis fst_conv)+
  have t: "gn_headers c ''X-Trace-Id'' = Some (get_trace_id c)" using c by (auto simp: entered_def get_trace_id_def Let_def)
  let ?c = "cors_headers (ap_cors ap) (wildcard (ap_cors ap)) (rq_headers rq ''Origin'') c"
  have s: "serve E (verb, path, needs_token, ep) rq (ap, w) = recovery (error_handler (cors (ap_cors ap) ?h)) (c, ap, w1)"
    by (simp add: serve_def global_chain_entered c)
  consider c1 where "cors (ap_cors ap) ?h (c, ap, w1) = ?h (c1, ap, w1)" "c1 \<in> {c, ?c}"
    | st c' where "cors (ap_cors ap) ?h (c, ap, w1) = Some (c', ap, w1)" "gn_written c' = [(st, None)]" "gn_errors c' = []"
        "st = 204 \<or> st = 403"
    using cors_outcomes [of c "ap_cors ap" ?h "(ap, w1)"] unfolding f by (elim disjE bexE exE conjE) auto
  then show ?thesis
  proof cases
    case 1
    then have "gn_written c1 = []" "gn_errors c1 = []" "gn_headers c1 ''X-Trace-Id'' = Some (get_trace_id c1)"
      using f t by (auto simp: get_trace_id_def)
    from recovered_reply [where g = "cors (ap_cors ap) ?h", OF route_replies 1(1) this(1,2) f(2) this(3) t]
    show ?thesis unfolding s route_outcome_def by (elim exE conjE) (intro exI conjI, assumption, auto)
  next
    case 2
    then show ?thesis unfolding s by (auto simp: recovery_def error_handler_def)
  qed
qed

text \<open>
  C7: A request to any route, whatever it carries and whatever state the server is in, is answered
  exactly once: an empty 204 or 403 from the CORS middleware, or one envelope whose code is the
  status and whose trace id is the one in the header. The envelope is a 200 with the data of that
  route, one of the error statuses of the route without data, a 401 on a protected route, or, when
  a handler has panicked, the 500 of the recovery middleware.
\<close>

theorem every_request_gets_one_answer:
  "\<exists>st b. gn_written (fst (serve E (verb, path, needs_token, ep) rq (ap, w))) = [(st, b)] \<and>
    (case b of
       None \<Rightarrow> st = 204 \<or> st = 403
     | Some r \<Rightarrow> ar_code r = int st \<and>
         gn_headers (fst (serve E (verb, path, needs_token, ep) rq (ap, w))) ''X-Trace-Id'' = Some (ar_trace_id r) \<and>
         route_outcome needs_token ep (snd (serve E (verb, path, needs_token, ep) rq (ap, w)) = None) st (ar_data r))"
  by (rule one_answer)

lemma screened_answer:
  assumes "validator_ok email E" "ep \<in> set validated"
  shows "if body_ok email ep (new_gin rq :: unit gin)
     then 400 \<notin> set (map fst (gn_written (fst (serve E (verb, path, needs_token, ep) rq (ap, w)))))
     else \<exists>c' w'. serve E (verb, path, needs_token, ep) rq (ap, w) = (c', Some (ap, w')) \<and>
       map fst (gn_written c') \<in> {[400], [401], [403], [204]}"
proof -
  let ?h = "if needs_token then jwt_auth (se_services E) (se_auth E) ap_auth (endpoint_handler E ep) else endpoint_handler E ep"
  obtain c :: "app_data gin" and w1 where c: "entered (se_uuid E) rq w = (c, w1)" by force
  have f: "gn_request c = rq" "gn_written c = []" "gn_errors c = []"
    using c entered_fields [where uuid = "se_uuid E" and rq = rq and w = w] by (metis fst_conv)+
  let ?c = "cors_headers (ap_cors ap) (wildcard (ap_cors ap)) (rq_headers rq ''Origin'') c"
  have s: "serve E (verb, path, needs_token, ep) rq (ap, w) = recovery (error_handler (cors (ap_cors ap) ?h)) (c, ap, w1)"
    by (simp add: serve_def global_chain_entered c)
  consider c1 where "cors (ap_cors ap) ?h (c, ap, w1) = ?h (c1, ap, w1)" "c1 \<in> {c, ?c}"
    | st c' where "cors (ap_cors ap) ?h (c, ap, w1) = Some (c', ap, w1)" "gn_written c' = [(st, None)]" "gn_errors c' = []"
        "st = 204 \<or> st = 403"
    using cors_outcomes [of c "ap_cors ap" ?h "(ap, w1)"] unfolding f by (elim disjE bexE exE conjE) auto
  then show ?thesis
  proof cases
    case 1
    then have f1: "gn_request c1 = rq" "gn_written c1 = []" "gn_errors c1 = []" using f by auto
    have b: "body_ok email ep (new_gin rq :: unit gin) \<longleftrightarrow> body_ok email ep c1"
      by (rule body_ok_request) (simp add: f1 new_gin_def)
    have r: "recovery (error_handler (cors (ap_cors ap) ?h)) (c, ap, w1) = (c', Some (s', w'))"
      if "?h (c1, ap, w1) = Some (c', s', w')" "gn_errors c' = []" for c' s' w'
      using that 1(1) by (simp add: recovery_def error_handler_def)
    note sc = screensD [OF route_screens [OF assms, of needs_token], where c = c1 and s = ap and w = w1]
    show ?thesis
    proof (cases "body_ok email ep c1")
      case False
      then obtain c' w' where "?h (c1, ap, w1) = Some (c', ap, w')" "wrote (\<lambda>st d. st = 400 \<or> st = 401) c1 c'" using sc(2) by blast
      then show ?thesis using False b r f1 unfolding s by (auto simp: wrote_def)
    next
      case True
      show ?thesis
      proof (cases "?h (c1, ap, w1)")
        case None
        then show ?thesis using True b 1(1) f unfolding s by (simp add: recovery_def error_handler_def c_abort_def c_json_def)
      next
        case (Some x)
        obtain c' s' w' where "?h (c1, ap, w1) = Some (c', s', w')" using Some by (cases x) simp
        then show ?thesis using True b r f1 sc(1) unfolding s by (auto simp: wrote_def)
      qed
    qed
  next
    case 2
    then show ?thesis unfolding s by (auto simp: recovery_def error_handler_def)
  qed
qed

text \<open>
  C10: With a validator that follows the struct tags as documented, a request to a route that validates
  its body (register, login, both ways to create an order, save a profile) whose body does not
  decode or breaks a tag is answered with 400 (or 401 for its token, 403 or 204 by the CORS
  middleware) and leaves the state of the server as it was; a request that keeps the tags is never
  answered with 400.
\<close>

theorem bad_requests_are_refused:
  assumes "validator_ok email E" "ep \<in> set validated"
  shows "if body_ok email ep (new_gin rq :: unit gin)
     then 400 \<notin> set (map fst (gn_written (fst (serve E (verb, path, needs_token, ep) rq (ap, w)))))
     else \<exists>c' w'. serve E (verb, path, needs_token, ep) rq (ap, w) = (c', Some (ap, w')) \<and>
       map fst (gn_written c') \<in> {[400], [401], [403], [204]}"
  by (rule screened_answer [OF assms])

text \<open>
  C11: With a validator that follows the struct tags as documented, a registration is accepted exactly
  when its JSON is a value of the published schema and its address, if any, is one; for the other
  requests the tags ask for more than the schema: a login for a name and a password that are not
  empty, an order for a positive amount, a profile for a user id.
\<close>

theorem validation_matches_documentation:
  assumes "validator_ok email E"
  shows "(se_valid_register E r = None \<longleftrightarrow>
       documented (model_ref ''RegisterRequest'') (register_json r) \<and> (rr_email r = [] \<or> email (rr_email r))) \<and>
    (se_valid_login E l = None \<longleftrightarrow>
       documented (model_ref ''LoginRequest'') (login_json l) \<and> lr_username l \<noteq> [] \<and> lr_password l \<noteq> []) \<and>
    (se_valid_create E q = None \<longleftrightarrow> documented (model_ref ''CreateOrderRequest'') (create_json q) \<and> 0 < cor_amount q) \<and>
    (se_valid_profile E u = None \<longleftrightarrow> documented (model_ref ''UserProfile'') (profile_json u) \<and> up_user_id u \<noteq> 0)"
  using assms unfolding validator_ok_def valid_register_iff valid_login_iff valid_create_iff valid_profile_iff
  by (auto simp: documented_register documented_login documented_create model_json_conforms simp del: documented_request documented_ref)

lemma no_error_is_200: "200 \<notin> set (handler_errors ep)"
  by (cases ep) simp_all

text \<open>
  C8: Whenever a route answers with a status its published documentation lists, the JSON of the answer
  is a value of the schema documented there: the envelope and, for the routes that document it,
  the data inside (an order needs the positive user id the validator asks for).
\<close>

theorem answers_conform_to_documentation:
  assumes "op \<in> set (sw_operations swagger_info)" "(verb, path, needs_token, ep) \<in> set routes"
    and "operation_key op = (verb, path, needs_token)" "(st, txt, sch) \<in> set (op_responses op)"
    and "gn_written (fst (serve E (verb, path, needs_token, ep) rq (ap, w))) = [(st, Some r)]"
    and "\<forall>d. ar_data r = Some d \<longrightarrow> data_ok d"
  shows "documented sch (response_json (data_json other) r)"
proof -
  have "route_outcome needs_token ep (snd (serve E (verb, path, needs_token, ep) rq (ap, w)) = None) st (ar_data r)"
    using one_answer [of E verb path needs_token ep rq ap w] assms(5) by auto
  then have d: "st = 200 \<Longrightarrow> \<exists>d. ar_data r = Some d \<and> handler_data ep d"
    using no_error_is_200 [of ep] by (auto simp: route_outcome_def outcome_def split: option.splits)
  have "(op, ep) \<in> set operation_endpoints"
    using operation_endpoint assms(1-3) by (auto simp: swagger_info_def)
  from responses_covered [OF this assms(4)] consider "sch = model_ref ''ApiResponse''"
    | dsch where "st = 200" "sch = SAllOf [model_ref ''ApiResponse'', SObject [] [(''data'', dsch)]]"
        "\<forall>other d. handler_data ep d \<longrightarrow> data_ok d \<longrightarrow> documented dsch (data_json other d)"
    unfolding covers_def by blast
  then show ?thesis
  proof cases
    case 1
    then show ?thesis by (simp only: api_response_conforms)
  next
    case 2
    with d assms(6) show ?thesis by (metis api_data_conforms)
  qed
qed

lemma rejected_without_token:
  assumes "jwt_ok A carries sig" "get_header c ''Authorization'' = h"
    and "\<forall>alg cl. carries (bearer_token h) = Some (MethodHMAC alg, cl) \<longrightarrow> \<not> sig (MethodHMAC alg) (au_jwt_secret (au_of s)) (bearer_token h)"
  shows "\<exists>msg w1. jwt_auth S A au_of g (c, s, w) = Some (unauthorized msg c, s, w1)"
proof -
  have "\<not> (\<exists>alg cl. carries (bearer_token (get_header c ''Authorization'')) = Some (MethodHMAC alg, cl) \<and>
      sig (MethodHMAC alg) (au_jwt_secret (au_of s)) (bearer_token (get_header c ''Authorization'')))"
    using assms(2,3) by blast
  then show ?thesis
    using jwt_auth_cases [where S = S and au_of = au_of and c = c and s = s and w = w, OF assms(1)] by blast
qed

text \<open>
  C12: A request to a route of the protected group without a token that an HMAC signature under the
  secret vouches for is answered with 401 (403 or 204 by the CORS middleware) and leaves the state
  of the server as it was.
\<close>

theorem protected_routes_need_a_token:
  assumes "jwt_ok (se_auth E) carries sig" "rt \<in> set v1_routes"
    and "\<forall>alg cl. carries (bearer_token (rq_headers rq ''Authorization'')) = Some (MethodHMAC alg, cl) \<longrightarrow>
      \<not> sig (MethodHMAC alg) (au_jwt_secret (ap_auth ap)) (bearer_token (rq_headers rq ''Authorization''))"
  shows "\<exists>c' w'. serve E rt rq (ap, w) = (c', Some (ap, w')) \<and> map fst (gn_written c') \<in> {[401], [403], [204]}"
proof -
  obtain verb path ep where rt: "rt = (verb, path, True, ep)" using assms(2) by (auto simp: v1_routes_def)
  let ?h = "jwt_auth (se_services E) (se_auth E) ap_auth (endpoint_handler E ep)"
  obtain c :: "app_data gin" and w1 where c: "entered (se_uuid E) rq w = (c, w1)" by force
  then have f: "gn_request c = rq" "gn_written c = []" "gn_errors c = []" using entered_fields by (metis fst_conv)+
  obtain msg w2 where j: "?h (c, ap, w1) = Some (unauthorized msg c, ap, w2)"
    using rejected_without_token [where au_of = ap_auth and s = ap and c = c and g = "endpoint_handler E ep" and w = w1 and S = "se_services E", OF assms(1) _ assms(3)] f(1)
    by (auto simp: get_header_def)
  let ?c = "cors_headers (ap_cors ap) (wildcard (ap_cors ap)) (rq_headers rq ''Origin'') c"
  obtain msg' w2' where j': "?h (?c, ap, w1) = Some (unauthorized msg' ?c, ap, w2')"
    using rejected_without_token [where au_of = ap_auth and s = ap and c = ?c and g = "endpoint_handler E ep" and w = w1 and S = "se_services E", OF assms(1) _ assms(3)] f(1)
    by (auto simp: get_header_def)
  show ?thesis
    using rt c f j j'
    by (simp add: serve_def global_chain_entered recovery_def error_handler_def cors_cases Let_def unauthorized_def gin_defs)
qed

subsection \<open>An order from the request to the store\<close>

lemma narrow_fields [simp]:
  "gn_request (narrow c) = gn_request c" "gn_written (narrow c) = []" "gn_headers (narrow c) = gn_headers c"
  "gn_context (narrow c) = gn_context c" "get_trace_id (narrow c) = get_trace_id c" "gn_errors (narrow c) = gn_errors c"
  by (simp_all add: narrow_def get_trace_id_def)

text \<open>A 200 comes from the handler, run on what the chain left.\<close>

lemma chain_ok_cases:
  assumes "global_chain (lift_uuid uuid) cfg h (new_gin rq, s, w) = (c', Some (s', w'))" "gn_written c' = [(200, Some r)]"
  obtains c where "h (c, s, arrived uuid rq w) = Some (c', s', w')" "gn_request c = rq" "gn_written c = []" "gn_errors c' = []"
    "\<exists>tid. get_trace_id c = tid \<and> gn_context c = Some tid \<and> gn_headers c ''X-Trace-Id'' = Some tid \<and>
      (rq_headers rq ''X-Trace-Id'' \<noteq> [] \<longrightarrow> tid = rq_headers rq ''X-Trace-Id'')"
proof -
  obtain c :: "'a gin" and w1 where "entered uuid rq w = (c, w1)" by force
  then have c: "entered uuid rq w = (c, arrived uuid rq w)" using entered_world [of uuid rq w] by (metis prod.inject)
  let ?c = "cors_headers cfg (wildcard cfg) (rq_headers rq ''Origin'') c"
  have f: "gn_request c = rq" "gn_written c = []" "gn_errors c = []"
    using c entered_fields [where uuid = uuid and rq = rq and w = w] by (metis fst_conv)+
  have tid: "\<exists>tid. get_trace_id c = tid \<and> gn_context c = Some tid \<and> gn_headers c ''X-Trace-Id'' = Some tid \<and>
      (rq_headers rq ''X-Trace-Id'' \<noteq> [] \<longrightarrow> tid = rq_headers rq ''X-Trace-Id'')"
    using c by (auto simp: entered_def get_trace_id_def Let_def)
  have "error_handler (cors cfg h) (c, s, arrived uuid rq w) = Some (c', s', w')"
    using assms(1) c by (auto simp: global_chain_entered recovery_def split: option.splits)
  then obtain c2 where c2: "cors cfg h (c, s, arrived uuid rq w) = Some (c2, s', w')"
      "c' = (if gn_errors c2 \<noteq> [] then c_json 400 (reply 400 (err_text (last (gn_errors c2))) None (get_trace_id c2)) c2 else c2)"
    by (auto simp: error_handler_def split: option.splits)
  have ne: "gn_errors c2 = []" and cc: "c' = c2" using c2(2) assms(2) by (auto simp: gin_defs split: if_splits)
  have "\<exists>c3. c3 \<in> {c, ?c} \<and> h (c3, s, arrived uuid rq w) = Some (c', s', w')"
    using c2(1) cc assms(2) f by (auto simp: cors_cases gin_defs Let_def split: if_splits)
  then obtain c3 where c3: "c3 \<in> {c, ?c}" "h (c3, s, arrived uuid rq w) = Some (c', s', w')" by blast
  have c3f: "gn_request c3 = rq" "gn_written c3 = []" "get_trace_id c3 = get_trace_id c" "gn_context c3 = gn_context c"
    "gn_headers c3 ''X-Trace-Id'' = gn_headers c ''X-Trace-Id''"
    using c3(1) f by (auto simp: get_trace_id_def)
  show thesis
    by (rule that [OF c3(2) c3f(1,2)]) (use ne cc tid in \<open>simp_all only: c3f\<close>)
qed

text \<open>On a protected route there was a verified token as well.\<close>

lemma serve_ok_cases:
  assumes "jwt_ok (se_auth E) carries sig" "serve E (verb, path, True, ep) rq (ap, w) = (c', Some (ap', w'))"
    and "gn_written c' = [(200, Some r)]"
  obtains c w1 where "endpoint_handler E ep (c, ap, w1) = Some (c', ap', w')" "gn_request c = rq" "gn_written c = []"
    "gn_errors c' = []"
    "\<exists>tid. get_trace_id c = tid \<and> gn_context c = Some tid \<and> gn_headers c ''X-Trace-Id'' = Some tid \<and>
      (rq_headers rq ''X-Trace-Id'' \<noteq> [] \<longrightarrow> tid = rq_headers rq ''X-Trace-Id'')"
    "\<exists>alg cl. carries (bearer_token (rq_headers rq ''Authorization'')) = Some (MethodHMAC alg, cl) \<and>
      sig (MethodHMAC alg) (au_jwt_secret (ap_auth ap)) (bearer_token (rq_headers rq ''Authorization''))"
proof -
  let ?h = "jwt_auth (se_services E) (se_auth E) ap_auth (endpoint_handler E ep)"
  have g: "global_chain (lift_uuid (se_uuid E)) (ap_cors ap) ?h (new_gin rq, ap, w) = (c', Some (ap', w'))"
    using assms(2) by (simp add: serve_def)
  obtain c where c: "?h (c, ap, arrived (se_uuid E) rq w) = Some (c', ap', w')" "gn_request c = rq" "gn_written c = []" "gn_errors c' = []"
    and tid: "\<exists>tid. get_trace_id c = tid \<and> gn_context c = Some tid \<and> gn_headers c ''X-Trace-Id'' = Some tid \<and>
      (rq_headers rq ''X-Trace-Id'' \<noteq> [] \<longrightarrow> tid = rq_headers rq ''X-Trace-Id'')"
    using chain_ok_cases [OF g assms(3)] by blast
  let ?w = "arrived (se_uuid E) rq w"
  have nu: "\<not> (\<exists>msg w1'. \<forall>h. jwt_auth (se_services E) (se_auth E) ap_auth h (c, ap, ?w) = Some (unauthorized msg c, ap, w1'))"
  proof
    assume "\<exists>msg w1'. \<forall>h. jwt_auth (se_services E) (se_auth E) ap_auth h (c, ap, ?w) = Some (unauthorized msg c, ap, w1')"
    then obtain msg where "c' = unauthorized msg c" using c(1) by auto
    then show False using assms(3) c(3) by (simp add: unauthorized_def gin_defs)
  qed
  obtain alg cl user_id username w2 where t: "carries (bearer_token (get_header c ''Authorization'')) = Some (MethodHMAC alg, cl)"
      "sig (MethodHMAC alg) (au_jwt_secret (ap_auth ap)) (bearer_token (get_header c ''Authorization''))"
      "\<forall>h. jwt_auth (se_services E) (se_auth E) ap_auth h (c, ap, ?w) = h (c\<lparr>gn_user_id := Some user_id, gn_username := Some username\<rparr>, ap, w2)"
    using jwt_auth_cases [where S = "se_services E" and au_of = ap_auth and c = c and s = ap and w = ?w, OF assms(1)] nu by blast
  show thesis
    by (rule that [of "c\<lparr>gn_user_id := Some user_id, gn_username := Some username\<rparr>" w2])
      (use t c tid in \<open>auto simp: get_header_def get_trace_id_def\<close>)
qed

lemma via_reply:
  assumes "via f get put h (c, s, w) = Some (c', s', w')" "gn_written c = []" "gn_written c' = [(200, Some r)]" "ar_data r = Some (f d)"
    and "inj f"
  shows "\<exists>e t r'. h (narrow c, get s, w) = Some (e, t, w') \<and> s' = put t s \<and> gn_written e = [(200, Some r')] \<and> ar_data r' = Some d \<and>
    ar_trace_id r' = ar_trace_id r \<and> gn_headers c' = gn_headers e"
  using assms by (auto simp: via_def widen_def map_response_def inj_eq split: option.splits)

lemma biz_reply:
  assumes "biz h (c, ap, w) = Some (c', ap', w')" "gn_written c = []" "gn_written c' = [(200, Some r)]" "ar_data r = Some (Biz d)"
  shows "\<exists>e r'. h (narrow c, ap_server ap, w) = Some (e, ap_server ap', w') \<and> gn_written e = [(200, Some r')] \<and> ar_data r' = Some d \<and>
    ar_trace_id r' = ar_trace_id r \<and> gn_headers c' = gn_headers e"
  using via_reply [OF assms(1) [unfolded biz_def] assms(2-4)] by (auto simp: inj_on_def)

text \<open>The order a request becomes when it is accepted.\<close>

definition requested :: "create_order_request \<Rightarrow> string \<Rightarrow> time \<Rightarrow> order" where
  "requested req no now = zero_order\<lparr>ord_user_id := cor_user_id req, ord_amount := cor_amount req, ord_order_no := no,
     ord_status := ''pending'', ord_created_at := now, ord_updated_at := now\<rparr>"

lemma post_order:
  assumes "jwt_ok (se_auth E) carries sig" "durable_ok (se_services E) rows sent"
    and "\<not> db_missing (sh_orders (ap_server ap))" "os_producer (sh_orders (ap_server ap)) = Some ep"
    and "serve E (''POST'', ''/api/v1/orders'', True, EpCreateOrder) rq (ap, w) = (c', Some (ap', w'))"
    and "gn_written c' = [(200, Some r)]" "ar_data r = Some (Biz (DCreated no ch))"
  shows "(\<exists>alg cl. carries (bearer_token (rq_headers rq ''Authorization'')) = Some (MethodHMAC alg, cl) \<and>
      sig (MethodHMAC alg) (au_jwt_secret (ap_auth ap)) (bearer_token (rq_headers rq ''Authorization''))) \<and>
    gn_headers c' ''X-Trace-Id'' = Some (ar_trace_id r) \<and>
    (rq_headers rq ''X-Trace-Id'' \<noteq> [] \<longrightarrow> ar_trace_id r = rq_headers rq ''X-Trace-Id'') \<and>
    (\<exists>req. bind_json unmarshal_create (new_gin rq :: unit gin) = Inr req \<and> se_valid_create E req = None \<and>
      (ch = ''sync'' \<and> rows w' no \<noteq> None \<or>
       ch = ''async'' \<and> (\<exists>now. queued (sent w') (ep_topic ep) (ar_trace_id r) (requested req no now))))"
proof -
  obtain c w1 where c: "biz (create_order_handler (se_services E) (se_json_text E) (se_valid_create E)) (c, ap, w1) = Some (c', ap', w')"
      "gn_request c = rq" "gn_written c = []"
    and tid: "gn_context c = Some (get_trace_id c)" "gn_headers c ''X-Trace-Id'' = Some (get_trace_id c)"
      "rq_headers rq ''X-Trace-Id'' \<noteq> [] \<longrightarrow> get_trace_id c = rq_headers rq ''X-Trace-Id''"
    and tok: "\<exists>alg cl. carries (bearer_token (rq_headers rq ''Authorization'')) = Some (MethodHMAC alg, cl) \<and>
      sig (MethodHMAC alg) (au_jwt_secret (ap_auth ap)) (bearer_token (rq_headers rq ''Authorization''))"
    using serve_ok_cases [OF assms(1,5,6)] by (metis endpoint_handler.simps(4))
  obtain e r' where h: "create_order_handler (se_services E) (se_json_text E) (se_valid_create E) (narrow c, ap_server ap, w1) = Some (e, ap_server ap', w')"
      and e: "gn_written e = [(200, Some r')]" "ar_data r' = Some (DCreated no ch)" "ar_trace_id r' = ar_trace_id r" "gn_headers c' = gn_headers e"
    using biz_reply [OF c(1,3) assms(6,7)] by blast
  obtain req os' where q: "bind_json unmarshal_create (narrow c :: biz_data gin) = Inr req" "se_valid_create E req = None"
      "ar_trace_id r' = get_trace_id (narrow c :: biz_data gin)" "gn_headers e = gn_headers c"
      "creation (se_services E) False (from_context (gn_context c))
        (zero_order\<lparr>ord_user_id := cor_user_id req, ord_amount := cor_amount req\<rparr>)
        ((sh_orders (ap_server ap))\<lparr>os_cache := sh_cache (ap_server ap)\<rparr>, w1) = Some ((ch, no, None), os', w')"
    using handle_create_reply [OF h [unfolded create_order_handler_def] _ e(1,2)] by auto
  let ?os = "(sh_orders (ap_server ap))\<lparr>os_cache := sh_cache (ap_server ap)\<rparr>"
  have db: "\<not> db_missing ?os" and kp: "os_producer ?os = Some ep" using assms(3,4) by (simp_all add: db_missing_def)
  have cr: "create_order (se_services E) (get_trace_id c) (zero_order\<lparr>ord_user_id := cor_user_id req, ord_amount := cor_amount req\<rparr>) (?os, w1) =
      Some ((ch, no, None), os', w')"
    using q(5) tid(1) by (simp add: creation_def from_context_def)
  have "bind_json unmarshal_create (new_gin rq :: unit gin) = Inr req"
    using q(1) c(2) by (simp add: bind_json_def new_gin_def)
  moreover have "ar_trace_id r = get_trace_id c" using q(3) e(3) by simp
  moreover have "ch = ''sync'' \<and> rows w' no \<noteq> None \<or>
      ch = ''async'' \<and> (\<exists>now. queued (sent w') (ep_topic ep) (get_trace_id c) (requested req no now))"
    using create_order_kept [OF assms(2) db kp cr, THEN conjunct2] by (simp add: requested_def)
  ultimately show ?thesis using tok tid e(4) q(2,4) by auto
qed

text \<open>
  C4: On a server that has a database and a Kafka producer, when POST /api/v1/orders is answered with
  200 and an order number, the request carried a token signed with the service secret, the body
  decodes to a request that passes validation, the reply and its header carry the trace id of the
  request (when it sent one), and the order is a row of the table (channel sync) or an event of
  its user and amount among the messages Kafka accepted (channel async).
\<close>

theorem created_order_end_to_end:
  assumes "jwt_ok (se_auth E) carries sig" "durable_ok (se_services E) rows sent"
    and "\<not> db_missing (sh_orders (ap_server ap))" "os_producer (sh_orders (ap_server ap)) = Some ep"
    and "serve E (''POST'', ''/api/v1/orders'', True, EpCreateOrder) rq (ap, w) = (c', Some (ap', w'))"
    and "gn_written c' = [(200, Some r)]" "ar_data r = Some (Biz (DCreated no ch))"
  shows "(\<exists>alg cl. carries (bearer_token (rq_headers rq ''Authorization'')) = Some (MethodHMAC alg, cl) \<and>
      sig (MethodHMAC alg) (au_jwt_secret (ap_auth ap)) (bearer_token (rq_headers rq ''Authorization''))) \<and>
    gn_headers c' ''X-Trace-Id'' = Some (ar_trace_id r) \<and>
    (rq_headers rq ''X-Trace-Id'' \<noteq> [] \<longrightarrow> ar_trace_id r = rq_headers rq ''X-Trace-Id'') \<and>
    (\<exists>req. bind_json unmarshal_create (new_gin rq :: unit gin) = Inr req \<and> se_valid_create E req = None \<and>
      (ch = ''sync'' \<and> rows w' no \<noteq> None \<or>
       ch = ''async'' \<and> (\<exists>now. queued (sent w') (ep_topic ep) (ar_trace_id r) (requested req no now))))"
  by (rule post_order [OF assms])

text \<open>
  C5: On a server that has a database and a Kafka producer, when POST /api/v1/orders is answered with
  200 and the asynchronous channel for a user id below 2^53, Kafka has accepted an event with
  exactly the requested order; and every pass of a consumer with a database, a dead-letter
  producer and no negative number of retries that fetches this event writes the order to the table
  (a new row keeps number, user and status, and the amount as the DECIMAL(12,2) column does; a row
  that already has the number gets the amount, status and update time) or offers the message to
  the dead-letter topic, before committing it, whichever calls of the handler or the commit fail
  in between.
\<close>

theorem async_order_reaches_the_table:
  assumes "jwt_ok (se_auth E) carries sig" "durable_ok (se_services E) rows sent" "orders_ok (se_services E) col rows"
    and "\<not> db_missing (sh_orders (ap_server ap))" "os_producer (sh_orders (ap_server ap)) = Some ep"
    and "serve E (''POST'', ''/api/v1/orders'', True, EpCreateOrder) rq (ap, w) = (c', Some (ap', w'))"
    and "gn_written c' = [(200, Some r)]" "ar_data r = Some (Biz (DCreated no ''async''))"
    and "bind_json unmarshal_create (new_gin rq :: unit gin) = Inr req" "cor_user_id req < 2 ^ 53"
  shows "\<exists>now. queued (sent w') (ep_topic ep) (ar_trace_id r) (requested req no now) \<and>
    delivers (se_services E) rows (ar_trace_id r) (requested req no now)"
proof -
  from post_order [OF assms(1,2,4-8)] assms(9) obtain now where
    q: "queued (sent w') (ep_topic ep) (ar_trace_id r) (requested req no now)" by auto
  have "order_ok (requested req no now)" "ord_id (requested req no now) < 2 ^ 53" "ord_user_id (requested req no now) < 2 ^ 53"
    using bound_create_ok [OF assms(9)] assms(10) by (simp_all add: order_ok_def create_ok_def requested_def zero_order_def)
  from order_delivers [OF assms(3) this] q show ?thesis by blast
qed

subsection \<open>From the login to a protected route\<close>

lemma authn_issues:
  assumes "clock_ok (se_services E) clk" "auth_clock_ok (se_auth E) clk" "rt \<in> set auth_routes"
    and "\<forall>w. clk w \<le> clk (snd (se_uuid E w))"
    and "serve E rt rq (ap, w) = (c', Some (ap', w'))" "gn_written c' = [(200, Some r)]" "ar_data r = Some (Authn (DToken t))"
  shows "issued (se_auth E) (ap_auth ap) t (clk w) (clk w')"
proof -
  have g: "global_chain (lift_uuid (se_uuid E)) (ap_cors ap)
      (authn (if snd (snd (snd rt)) = EpRegister then register_handler (se_services E) (se_auth E) (se_valid_register E)
              else login_handler (se_services E) (se_auth E) (se_valid_login E))) (new_gin rq, ap, w) = (c', Some (ap', w'))"
    using assms(3,5) by (auto simp: serve_def auth_routes_def)
  obtain c where c: "authn (if snd (snd (snd rt)) = EpRegister then register_handler (se_services E) (se_auth E) (se_valid_register E)
              else login_handler (se_services E) (se_auth E) (se_valid_login E)) (c, ap, arrived (se_uuid E) rq w) = Some (c', ap', w')"
      "gn_written c = []"
    using chain_ok_cases [OF g assms(6)] by blast
  obtain e au r' where e: "(if snd (snd (snd rt)) = EpRegister then register_handler (se_services E) (se_auth E) (se_valid_register E)
              else login_handler (se_services E) (se_auth E) (se_valid_login E)) (narrow c, ap_auth ap, arrived (se_uuid E) rq w) = Some (e, au, w')"
      "gn_written e = [(200, Some r')]" "ar_data r' = Some (DToken t)"
    using via_reply [OF c(1) [unfolded authn_def] c(2) assms(6,7)] by (auto simp: inj_on_def)
  have "issued (se_auth E) (ap_auth ap) t (clk (arrived (se_uuid E) rq w)) (clk w')"
    using e(1) by (intro auth_handlers_issue [OF assms(1,2) _ _ e(2,3)]) (auto split: if_splits)
  moreover have "clk w \<le> clk (arrived (se_uuid E) rq w)" using assms(4) by (simp add: arrived_def)
  ultimately show ?thesis by (rule issued_earlier)
qed

lemma chain_passes:
  assumes "\<not> origin_refused cfg rq" "rq_method rq \<noteq> ''OPTIONS''"
  shows "\<exists>c. gn_request c = rq \<and> gn_written c = [] \<and> gn_errors c = [] \<and>
    (\<forall>h. global_chain (lift_uuid uuid) cfg h (new_gin rq, s, w) =
       (case error_handler h (c, s, arrived uuid rq w) of
          Some (c', s', w') \<Rightarrow> (c', Some (s', w'))
        | None \<Rightarrow> recovery (\<lambda>_. None) (fst (entered uuid rq w), s, arrived uuid rq w)))"
proof -
  obtain c :: "'a gin" and w1 where "entered uuid rq w = (c, w1)" by force
  then have c: "entered uuid rq w = (c, arrived uuid rq w)" using entered_world [of uuid rq w] by (metis prod.inject)
  have f: "gn_request c = rq" "gn_written c = []" "gn_errors c = []"
    using c entered_fields [where uuid = uuid and rq = rq and w = w] by (metis fst_conv)+
  let ?c = "if \<not> cx_enabled cfg \<or> rq_headers rq ''Origin'' = [] then c
    else cors_headers cfg (wildcard cfg) (rq_headers rq ''Origin'') c"
  let ?u = "arrived uuid rq w"
  have "cors cfg h (c, s, ?u) = h (?c, s, ?u)" for h
    using assms f by (simp add: cors_cases Let_def)
  then have "error_handler (cors cfg h) (c, s, ?u) = error_handler h (?c, s, ?u)" for h
    by (simp only: error_handler_def split_conv)
  then show ?thesis
    by (intro exI [of _ ?c]) (use f in \<open>auto simp: global_chain_entered c recovery_def split: option.split\<close>)
qed

text \<open>The handler of the route answers the request, under this identity.\<close>

definition answered_as ::
  "'w server_env \<Rightarrow> string \<times> string \<times> bool \<times> endpoint \<Rightarrow> http_request \<Rightarrow> int \<Rightarrow> string \<Rightarrow> 'w app \<times> 'w \<Rightarrow> bool" where
  "answered_as E rt rq user_id username apw \<longleftrightarrow>
     (\<exists>c w1 c' apw'. gn_request c = rq \<and> gn_written c = [] \<and> gn_user_id c = Some user_id \<and> gn_username c = Some username \<and>
        error_handler (endpoint_handler E (snd (snd (snd rt)))) (c, fst apw, w1) = Some (c', apw') \<and>
        serve E rt rq apw = (c', Some apw'))"

text \<open>
  C13: The token in the answer to a successful registration or login opens every protected route, on
  this server or on another in a reachable state with the same secret, to a request with it as
  bearer token that arrives before the whole second in which the arrival of the first request plus
  the lifetime falls (the expiry is kept in whole seconds): the handler of the route answers under
  the identity the token was issued for. The ids are from 0 to 2^53, the expiry lies after the
  epoch and before 2^53 seconds, the clock does not go back, the origin of the request is not
  refused and its method is not OPTIONS.
\<close>

theorem issued_token_opens_the_routes:
  assumes "jwt_ok (se_auth E) carries sig" "clock_ok (se_services E) clk" "auth_clock_ok (se_auth E) clk"
    and "\<forall>w. clk w \<le> clk (snd (se_uuid E w))"
    and "rt \<in> set auth_routes" "serve E rt rq (ap, w) = (c', Some (ap', w'))" "gn_written c' = [(200, Some r)]"
    and "ar_data r = Some (Authn (DToken t))" "0 \<le> tr_user_id t" "tr_user_id t \<le> 2 ^ 53"
    and "0 \<le> clk w + au_jwt_expire (ap_auth ap)" "clk w' + au_jwt_expire (ap_auth ap) < 2 ^ 53 * second"
    and "rt2 \<in> set v1_routes" "app_inv ap2" "au_jwt_secret (ap_auth ap2) = au_jwt_secret (ap_auth ap)"
    and "rq_headers rq2 ''Authorization'' = ''Bearer '' @ tr_access_token t"
    and "\<not> origin_refused (ap_cors ap2) rq2" "rq_method rq2 \<noteq> ''OPTIONS''"
    and "clk (arrived (se_uuid E) rq2 u) < (clk w + au_jwt_expire (ap_auth ap)) div second * second"
  shows "answered_as E rt2 rq2 (tr_user_id t) (tr_username t) (ap2, u)"
proof -
  note iss = authn_issues [OF assms(2,3,5,4,6-8)]
  obtain verb path ep where rt2: "rt2 = (verb, path, True, ep)" using assms(13) by (auto simp: v1_routes_def)
  let ?u = "arrived (se_uuid E) rq2 u"
  from chain_passes [where cfg = "ap_cors ap2" and rq = rq2 and uuid = "se_uuid E" and w = u and s = ap2, OF assms(17,18)]
  obtain c :: "app_data gin" where c: "gn_request c = rq2" "gn_written c = []" "gn_errors c = []"
    and ch: "\<forall>h. global_chain (lift_uuid (se_uuid E)) (ap_cors ap2) h (new_gin rq2, ap2, u) =
       (case error_handler h (c, ap2, ?u) of
          Some (c', s', w') \<Rightarrow> (c', Some (s', w'))
        | None \<Rightarrow> recovery (\<lambda>_. None) (fst (entered (se_uuid E) rq2 u), ap2, ?u))"
    by (elim exE conjE)
  let ?c = "c\<lparr>gn_user_id := Some (tr_user_id t), gn_username := Some (tr_username t)\<rparr>"
  have clk: "fst (sv_now (se_services E) ?u) = clk ?u" using assms(2) by (simp add: clock_ok_def)
  have j: "jwt_auth (se_services E) (se_auth E) ap_auth h (c, ap2, ?u) = h (?c, ap2, snd (sv_now (se_services E) ?u))" for h
    using assms(15,16,19) c(1) clk
    by (intro issued_token_admits [OF assms(1) iss assms(9-12)]) (simp_all add: get_header_def)
  have eh: "error_handler (jwt_auth (se_services E) (se_auth E) ap_auth h) (c, ap2, ?u) =
      error_handler h (?c, ap2, snd (sv_now (se_services E) ?u))" for h
    by (simp add: error_handler_def j)
  obtain c1 ap1 w1 where "endpoint_handler E ep (?c, ap2, snd (sv_now (se_services E) ?u)) = Some (c1, ap1, w1)"
    using answersD [OF endpoint_answers [OF assms(2)] assms(14)] by blast
  then obtain c3 where a: "error_handler (endpoint_handler E ep) (?c, ap2, snd (sv_now (se_services E) ?u)) = Some (c3, ap1, w1)"
    by (auto simp: error_handler_def)
  have "serve E rt2 rq2 (ap2, u) = (c3, Some (ap1, w1))"
    by (simp add: serve_def rt2 ch [rule_format] eh a)
  then show ?thesis
    unfolding answered_as_def using c a rt2
    by (intro exI [of _ ?c] exI [of _ "snd (sv_now (se_services E) ?u)"] exI [of _ c3] exI [of _ "(ap1, w1)"]) simp
qed

section \<open>A server on the reference world\<close>

definition ref_world_es :: "ref_world es_env" where
  "ref_world_es = \<lparr>es_new_client = (\<lambda>a u p. None), es_ping = (\<lambda>w. (None, w)), es_index = (\<lambda>i k d w. (Inr 201, w)),
     es_search = (\<lambda>i q w. (Inr (JText (search_answer 1 [order_json sample_order])), w)),
     es_exists = (\<lambda>i w. (Inr 404, w)), es_create = (\<lambda>i m w. (Inr 200, w))\<rparr>"

definition ref_env :: "ref_world server_env" where
  "ref_env =
     \<lparr>se_services = ref_services, se_conn = ref_conn None, se_es = ref_world_es, se_auth = ref_auth,
      se_admin = \<lparr>ka_dial = (\<lambda>b w. (None, w)), ka_controller = (\<lambda>w. (Inr (''b'', 9092), w)),
        ka_partitions = (\<lambda>t w. (Inr 3, w)), ka_create = (\<lambda>t n r w. (None, w))\<rparr>,
      se_new_redis = (\<lambda>c. 0 \<le> l2c_pool_size c), se_redis_ping = (\<lambda>w. (None, w)), se_mkdir_all = (\<lambda>d w. (None, w)), se_new_l1 = (\<lambda>a b c. None),
      se_new_reader = (\<lambda>bs t g. bs \<noteq> []), se_set_mode = (\<lambda>m. m \<in> {[], ''debug'', ''release'', ''test''}), se_order_rand = Some [1, 2, 3, 4, 5, 6, 7, 8],
      se_db = (\<lambda>w. Some (new_rwdb (Some 1) [])), se_put_db = (\<lambda>rw w. w), se_uuid = (\<lambda>w. (''uuid'', w)),
      se_json_text = (\<lambda>j. []), se_valid_create = (\<lambda>r. None), se_valid_profile = (\<lambda>u. None), se_valid_register = (\<lambda>r. None),
      se_valid_login = (\<lambda>r. None), se_date_text = (\<lambda>t. []), se_parse_date = (\<lambda>s. None), se_add_date = (\<lambda>t y m d. t),
      se_read_sql = (\<lambda>p. Inl (Errorf ''no file'')), se_read_json = (\<lambda>p. Inl (Errorf ''no file'')),
      se_create_many = (\<lambda>n ixs w. (None, w))\<rparr>"

definition ref_config :: app_config where
  "ref_config = default_config\<lparr>cfg_databases := sample_databases,
     cfg_kafka := default_kafka\<lparr>kc_brokers := [''b:9092'']\<rparr>\<rparr>"

lemma ref_env_services [simp]: "se_services ref_env = ref_services" "se_auth ref_env = ref_auth" "se_conn ref_env = ref_conn None"
  by (simp_all add: ref_env_def)

lemma ref_config_fields [simp]:
  "cfg_databases ref_config = sample_databases" "cfg_hot_key ref_config = \<lparr>hkc_window_seconds = 10, hkc_slots = 10, hkc_threshold = 100\<rparr>"
  "cfg_circuit_breaker ref_config = cfg_circuit_breaker default_config" "cfg_cache ref_config = default_cache_config"
  by (simp_all add: ref_config_def default_config_def)

lemma ref_mysql: "mg_mysql (fst (init_databases ref_services (ref_conn None) sample_databases u)) \<noteq> None"
  by (simp add: init_databases_def init_rwdb_def open_db_def open_replica_def sample_databases_def default_databases_def ref_conn_def
      ref_open_def ref_services_def split_beta Let_def)

lemma ref_serving: "\<exists>ap w. start_server ref_env ref_config (ref_init 0) = Serving (ap, w) \<and> mg_mysql (ap_manager ap) \<noteq> None"
proof -
  have "\<exists>x. start_server ref_env ref_config (ref_init 0) = Serving x"
    unfolding start_server_serves
    by (simp add: default_cache_config_def default_config_def ref_env_def consumer_accepts_def ref_config_def default_kafka_def
        second_def s64_def)
  then obtain ap w where s: "start_server ref_env ref_config (ref_init 0) = Serving (ap, w)" by (metis surj_pair)
  moreover have "mg_mysql (ap_manager ap) \<noteq> None" using init_manager [OF s] ref_mysql by auto
  ultimately show ?thesis by blast
qed

lemma ref_detector_ok: "detector_ok 10 10"
  by (simp add: detector_ok_def second_def s64_def quot_def)

definition create_request :: http_request where
  "create_request = token_request\<lparr>rq_method := ''POST'',
     rq_body := Some (JText (JObj [(''user_id'', JNum 1), (''amount'', JNum (1 / 2))]))\<rparr>"

theorem server_keeps_serving_witness:
  "\<exists>ap' w'. run_program ref_env (\<lambda>d c. Inr ref_config) (FileData []) None
       [AServe (''POST'', ''/api/v1/orders'', True, EpCreateOrder) create_request, AOrders (OIndexed 0), ALogin 0] 0 0
       [AAnalytics SClose, ABreakerWindow StopSignal] [0] (ref_init 0) = Exited (ap', w') \<and> is_stopped (ap_consumer ap')"
proof -
  obtain ap w where s: "start_server ref_env ref_config (ref_init 0) = Serving (ap, w)" "mg_mysql (ap_manager ap) \<noteq> None"
    using ref_serving by blast
  have c: "clock_ok (se_services ref_env) rf_clock" using ref_clock_ok by simp
  have l: "load_config (\<lambda>d c. Inr ref_config) (FileData []) = Inr ref_config" by (simp add: load_config_def)
  from server_keeps_serving [OF c l s, of "[AServe (''POST'', ''/api/v1/orders'', True, EpCreateOrder) create_request,
      AOrders (OIndexed 0), ALogin 0]" "[AAnalytics SClose, ABreakerWindow StopSignal]" 0 0 "[0]"] show ?thesis
    using ref_detector_ok by auto
qed

theorem protected_routes_need_a_token_witness:
  "\<exists>ap w c' w'. start_server ref_env ref_config (ref_init 0) = Serving (ap, w) \<and>
     serve ref_env (''GET'', ''/api/v1/auth/me'', True, EpGetMe) sample_request (ap, w) = (c', Some (ap, w')) \<and>
     map fst (gn_written c') \<in> {[401], [403], [204]}"
proof -
  obtain ap w where s: "start_server ref_env ref_config (ref_init 0) = Serving (ap, w)" using ref_serving by blast
  have "jwt_ok (se_auth ref_env) ref_carries ref_sig" using ref_jwt_ok by simp
  from protected_routes_need_a_token [OF this, of "(''GET'', ''/api/v1/auth/me'', True, EpGetMe)" sample_request ap w] s
  show ?thesis
    by (auto simp: v1_routes_def sample_request_def bearer_token_def ref_carries_def Let_def)
qed

lemma ref_parse_token:
  "au_jwt_secret au = ''secret'' \<Longrightarrow> parse_token ref_services ref_auth ''token'' (au, u) = (Inr (1, ''alice''), u)"
proof -
  have "f_to_uint64 (fl 1) = 1" using fl_small [of 1] f_to_uint64_of_int [of 1] by simp
  then show "au_jwt_secret au = ''secret'' \<Longrightarrow> parse_token ref_services ref_auth ''token'' (au, u) = (Inr (1, ''alice''), u)"
    by (simp add: parse_token_def ref_now ref_auth_def ref_parse_def key_func_def token_identity_def claim_def ref_claims_def
        token_claims_json Let_def)
qed

lemma create_request_fields:
  "rq_headers create_request ''Authorization'' = ''Bearer token''" "rq_headers create_request ''X-Trace-Id'' = []"
  "bearer_token ''Bearer token'' = ''token''"
  "bind_json unmarshal_create (new_gin create_request :: 'd gin) = Inr \<lparr>cor_user_id = 1, cor_amount = 1 / 2\<rparr>"
proof -
  show "bearer_token ''Bearer token'' = ''token''" by code_simp
  have "fl (1 / 2) = 1 / 2" by (rule fl_exact) simp
  then show "bind_json unmarshal_create (new_gin create_request :: 'd gin) = Inr \<lparr>cor_user_id = 1, cor_amount = 1 / 2\<rparr>"
    by (simp add: bind_json_def create_request_def unmarshal_create_def create_member_def fold_names_def to_lower_def lower_char_def
        set_field_def)
qed (simp_all add: create_request_def token_request_def)

definition order_server :: "ref_world order_service \<Rightarrow> ref_world app" where
  "order_server os = the (case start_server ref_env ref_config (ref_init 0) of Serving (ap, w) \<Rightarrow> Some ap | _ \<Rightarrow> None)
     \<lparr>ap_server := \<lparr>sh_cache = os_cache os, sh_orders = os, sh_profiles = new_profile_service (os_cache os) None False,
        sh_analytics = None\<rparr>, ap_auth := ref_auth_service, ap_cors := default_cors_config\<rparr>"

lemma order_server_fields [simp]:
  "sh_orders (ap_server (order_server os)) = os" "sh_cache (ap_server (order_server os)) = os_cache os"
  "sh_analytics (ap_server (order_server os)) = None" "ap_auth (order_server os) = ref_auth_service"
  "ap_cors (order_server os) = default_cors_config"
  by (simp_all add: order_server_def)

text \<open>What the server answers to the sample request, given what the order service does.\<close>

lemma ref_post:
  assumes "create_order ref_services ''uuid'' (zero_order\<lparr>ord_user_id := 1, ord_amount := 1 / 2\<rparr>) (os, ref_init 0) =
    Some ((ch, no, None), os', w')"
  shows "\<exists>c' ap'. serve ref_env (''POST'', ''/api/v1/orders'', True, EpCreateOrder) create_request (order_server os, ref_init 0) =
    (c', Some (ap', w')) \<and> gn_written c' = [(200, Some (reply 200 ''order accepted'' (Some (Biz (DCreated no ch))) ''uuid''))]"
proof -
  define ap where "ap = order_server os"
  note ap = order_server_fields [of os, folded ap_def]
  have same: "os\<lparr>os_cache := os_cache os\<rparr> = os" by simp
  define ent :: "app_data gin" where "ent = fst (entered (se_uuid ref_env) create_request (ref_init 0))"
  let ?c = "ent\<lparr>gn_user_id := Some 1, gn_username := Some ''alice''\<rparr>"
  have e: "entered (se_uuid ref_env) create_request (ref_init 0) = (ent, ref_init 0)"
    by (simp add: ent_def entered_def create_request_fields ref_env_def Let_def)
  have rq: "gn_request ent = create_request" by (simp add: ent_def)
  have t: "get_trace_id ?c = ''uuid''" "gn_context ?c = Some ''uuid''" "gn_errors ?c = []" "gn_written ?c = []"
    by (simp_all add: ent_def entered_def create_request_fields ref_env_def get_trace_id_def new_gin_def Let_def)
  have b: "bind_json unmarshal_create (narrow ?c :: biz_data gin) = Inr \<lparr>cor_user_id = 1, cor_amount = 1 / 2\<rparr>"
    using create_request_fields(4) by (simp add: bind_json_def rq)
  define sv where "sv = (ap_server ap)\<lparr>sh_orders := os', sh_cache := os_cache os'\<rparr>"
  have h: "create_order_handler ref_services (se_json_text ref_env) (se_valid_create ref_env) (narrow ?c, ap_server ap, ref_init 0) =
      Some (c_json 200 (reply 200 ''order accepted'' (Some (DCreated no ch)) ''uuid'') (narrow ?c), sv, w')"
    using assms b t by (simp add: create_order_handler_def handle_create_order_def with_orders_def creation_def ap same sv_def
        from_context_def ref_env_def Let_def)
  let ?r = "reply 200 ''order accepted'' (Some (Biz (DCreated no ch))) ''uuid''"
  let ?w = "widen Biz ?c (c_json 200 (reply 200 ''order accepted'' (Some (DCreated no ch)) ''uuid'') (narrow ?c))"
  have ep: "endpoint_handler ref_env EpCreateOrder (?c, ap, ref_init 0) = Some (?w, ap\<lparr>ap_server := sv\<rparr>, w')"
    by (simp add: biz_def via_def h)
  have j: "jwt_auth ref_services ref_auth ap_auth g (ent, ap, ref_init 0) = g (?c, ap, ref_init 0)" for g
    using ref_parse_token [of ref_auth_service "ref_init 0"]
    by (simp add: jwt_auth_def get_header_def create_request_fields ap rq)
  have cs: "cors default_cors_config g x = g x" for g and x :: "app_data gin \<times> ref_world app \<times> ref_world"
    by (cases x) (simp add: cors_def default_cors_config_def)
  have w: "gn_errors ?w = []" "gn_written ?w = [(200, Some ?r)]"
    using t(3,4) by (simp_all add: widen_def map_response_def c_json_def reply_def)
  have "serve ref_env (''POST'', ''/api/v1/orders'', True, EpCreateOrder) create_request (ap, ref_init 0) =
      (?w, Some (ap\<lparr>ap_server := sv\<rparr>, w'))"
    by (simp only: serve_def split_conv if_True if_False global_chain_entered e ap recovery_def error_handler_def cs j
        ref_env_services prod.case ep option.case w(1) simp_thms)
  then show ?thesis using w(2) unfolding ap_def by blast
qed

lemma ref_laws:
  "jwt_ok (se_auth ref_env) ref_carries ref_sig" "durable_ok (se_services ref_env) rf_rows rf_sent"
  "orders_ok (se_services ref_env) (\<lambda>od. od) rf_rows"
  using ref_jwt_ok ref_durable_ok ref_orders_ok by simp_all

lemma kafka_service_fields:
  "\<not> os_lock kafka_service" "os_db kafka_service = Some (new_rwdb (Some 0) [])" "rw_master (new_rwdb (Some 0) []) = Some 0"
  "os_producer kafka_service = Some \<lparr>ep_brokers = [''b''], ep_topic = ''order-create'',
     ep_dlq_topic = ''order-create.dlq'', ep_max_retries = 3\<rparr>" "\<not> db_missing kafka_service"
  by (simp_all add: kafka_service_def plain_service_def new_order_service_def one_db_def new_rwdb_def db_missing_def rw_is_nil_def)

theorem created_order_end_to_end_witness:
  "\<exists>c' ap' w' r no ch. serve ref_env (''POST'', ''/api/v1/orders'', True, EpCreateOrder) create_request (order_server kafka_service, ref_init 0) =
      (c', Some (ap', w')) \<and> gn_written c' = [(200, Some r)] \<and> ar_data r = Some (Biz (DCreated no ch)) \<and>
     (rf_rows w' no \<noteq> None \<or> (\<exists>od. queued (rf_sent w') ''order-create'' (ar_trace_id r) od))"
proof -
  note k = kafka_service_fields
  obtain ch no os' w' where "create_order ref_services ''uuid'' (zero_order\<lparr>ord_user_id := 1, ord_amount := 1 / 2\<rparr>) (kafka_service, ref_init 0) =
      Some ((ch, no, None), os', w')"
    using ref_create [OF k(1-4)] by blast
  from ref_post [OF this] obtain c' ap' r where s:
    "serve ref_env (''POST'', ''/api/v1/orders'', True, EpCreateOrder) create_request (order_server kafka_service, ref_init 0) = (c', Some (ap', w'))"
    "gn_written c' = [(200, Some r)]" "ar_data r = Some (Biz (DCreated no ch))"
    by (auto simp: reply_def)
  from created_order_end_to_end [OF ref_laws(1,2) _ _ this] k s show ?thesis
    by (intro exI [of _ c'] exI [of _ ap'] exI [of _ w'] exI [of _ r] exI [of _ no] exI [of _ ch]) auto
qed

text \<open>With the breaker open the order goes to Kafka.\<close>

definition diverted_service :: "ref_world order_service" where
  "diverted_service = kafka_service\<lparr>os_cb := (os_cb kafka_service)\<lparr>cb_state := StateOpen\<rparr>\<rparr>"

lemma diverted_creation:
  "\<exists>no os' w'. create_order ref_services ''uuid'' (zero_order\<lparr>ord_user_id := 1, ord_amount := 1 / 2\<rparr>) (diverted_service, ref_init 0) =
     Some ((''async'', no, None), os', w')"
proof -
  have o: "\<not> cb_allow 0 (os_cb diverted_service)" "os_producer diverted_service = os_producer kafka_service"
    by (simp_all add: diverted_service_def kafka_service_def plain_service_def new_order_service_def new_breaker_def cb_allow_def
        time_sub_def s64_def second_def)
  have a: "\<exists>no os' w'. create_async ref_services tid od (os1, u) = ((''async'', no, None), os', w')"
    if p: "os_producer os1 = os_producer kafka_service" for tid od os1 u
  proof -
    obtain ep where "os_producer os1 = Some ep" using p kafka_service_fields(4) by simp
    with ref_send [of ep tid "user_key od" "order_event tid (rf_clock u) od" u] show ?thesis
      by (auto simp: create_async_def ref_now)
  qed
  show ?thesis
    using o a by (simp add: create_order_def prepare_order_def generate_order_no_def ref_now ref_init_def Let_def split: prod.split)
qed

theorem async_order_reaches_the_table_witness:
  "\<exists>c' ap' w' r no now. serve ref_env (''POST'', ''/api/v1/orders'', True, EpCreateOrder) create_request
       (order_server diverted_service, ref_init 0) = (c', Some (ap', w')) \<and> gn_written c' = [(200, Some r)] \<and>
     queued (rf_sent w') ''order-create'' (ar_trace_id r) (requested \<lparr>cor_user_id = 1, cor_amount = 1 / 2\<rparr> no now) \<and>
     delivers ref_services rf_rows (ar_trace_id r) (requested \<lparr>cor_user_id = 1, cor_amount = 1 / 2\<rparr> no now)"
proof -
  have d: "\<not> db_missing (sh_orders (ap_server (order_server diverted_service)))"
      "os_producer (sh_orders (ap_server (order_server diverted_service))) = os_producer kafka_service"
    using kafka_service_fields(5) by (simp_all add: diverted_service_def db_missing_def)
  obtain no os' w' where "create_order ref_services ''uuid'' (zero_order\<lparr>ord_user_id := 1, ord_amount := 1 / 2\<rparr>) (diverted_service, ref_init 0) =
      Some ((''async'', no, None), os', w')"
    using diverted_creation by blast
  from ref_post [OF this] obtain c' ap' r where s:
    "serve ref_env (''POST'', ''/api/v1/orders'', True, EpCreateOrder) create_request (order_server diverted_service, ref_init 0) = (c', Some (ap', w'))"
    "gn_written c' = [(200, Some r)]" "ar_data r = Some (Biz (DCreated no ''async''))"
    by (auto simp: reply_def)
  from async_order_reaches_the_table [OF ref_laws d(1) d(2) [unfolded kafka_service_fields(4)] s create_request_fields(4)] s show ?thesis
    by (intro exI [of _ c'] exI [of _ ap'] exI [of _ w'] exI [of _ r] exI [of _ no]) auto
qed

text \<open>A registration, and the own account with the token of its answer.\<close>

definition signup_request :: http_request where
  "signup_request = sample_request\<lparr>rq_method := ''POST'',
     rq_body := Some (JText (JObj [(''username'', JStr ''alice''), (''password'', JStr ''secret1'')]))\<rparr>"

lemma ref_arrived [simp]: "arrived (se_uuid ref_env) rq w = w"
  by (simp add: arrived_def ref_env_def)

lemma ref_signup:
  assumes "ap_auth ap = ref_auth_service" "ap_cors ap = default_cors_config"
  shows "\<exists>c' ap' w' r t. serve ref_env (''POST'', ''/api/v1/auth/register'', False, EpRegister) signup_request (ap, ref_init 0) =
      (c', Some (ap', w')) \<and> gn_written c' = [(200, Some r)] \<and> ar_data r = Some (Authn (DToken t)) \<and>
    tr_user_id t = 1 \<and> tr_username t = ''alice'' \<and> tr_access_token t = ''token'' \<and> rf_clock w' = 0"
proof -
  have p: "\<not> origin_refused (ap_cors ap) signup_request" "rq_method signup_request \<noteq> ''OPTIONS''"
    by (simp_all add: assms(2) origin_refused_def default_cors_config_def signup_request_def Let_def)
  from chain_passes [where uuid = "se_uuid ref_env" and w = "ref_init 0" and s = ap, OF p]
  obtain c :: "app_data gin" where c: "gn_request c = signup_request" "gn_written c = []" "gn_errors c = []"
    and ch: "\<forall>h. global_chain (lift_uuid (se_uuid ref_env)) (ap_cors ap) h (new_gin signup_request, ap, ref_init 0) =
       (case error_handler h (c, ap, ref_init 0) of
          Some (c', s', w') \<Rightarrow> (c', Some (s', w'))
        | None \<Rightarrow> recovery (\<lambda>_. None) (fst (entered (se_uuid ref_env) signup_request (ref_init 0)), ap, ref_init 0))"
    unfolding ref_arrived by (elim exE conjE)
  obtain t w where t: "register ref_services ref_auth alice (ref_auth_service, ref_init 0) = Some (Inr t, ref_auth_service, w)"
    "tr_user_id t = 1" "tr_username t = ''alice''" "tr_access_token t = ''token''" "rf_clock w = 0"
    using ref_register by blast
  have b: "bind_json unmarshal_register (narrow c :: auth_data gin) = Inr alice"
    by (simp add: bind_json_def c(1) signup_request_def unmarshal_register_def register_member_def fold_names_def to_lower_def
        lower_char_def set_field_def alice_def)
  let ?e = "c_json 200 (reply 200 ''register success'' (Some (DToken t)) (get_trace_id c)) (narrow c)"
  have h: "register_handler ref_services ref_auth (se_valid_register ref_env) (narrow c, ref_auth_service, ref_init 0) =
      Some (?e, ref_auth_service, w)"
    using t(1) b by (simp add: register_handler_def ref_env_def Let_def)
  have "error_handler (endpoint_handler ref_env EpRegister) (c, ap, ref_init 0) =
      Some (widen Authn c ?e, ap\<lparr>ap_auth := ref_auth_service\<rparr>, w)"
    using c(3) by (simp add: error_handler_def authn_def via_def assms(1) h) (simp add: widen_def gin_defs)
  then have "serve ref_env (''POST'', ''/api/v1/auth/register'', False, EpRegister) signup_request (ap, ref_init 0) =
      (widen Authn c ?e, Some (ap\<lparr>ap_auth := ref_auth_service\<rparr>, w))"
    by (simp add: serve_def ch [rule_format])
  then show ?thesis
    using c(2) t(2-5) by (simp add: widen_def map_response_def c_json_def reply_def)
qed

theorem issued_token_opens_the_routes_witness:
  "\<exists>ap c' ap' w' r t. serve ref_env (''POST'', ''/api/v1/auth/register'', False, EpRegister) signup_request (ap, ref_init 0) =
      (c', Some (ap', w')) \<and> gn_written c' = [(200, Some r)] \<and> ar_data r = Some (Authn (DToken t)) \<and>
     answered_as ref_env (''GET'', ''/api/v1/auth/me'', True, EpGetMe) token_request 1 ''alice'' (ap, w')"
proof -
  obtain ap0 w where s: "start_server ref_env ref_config (ref_init 0) = Serving (ap0, w)" "mg_mysql (ap_manager ap0) \<noteq> None"
    using ref_serving by blast
  have "app_inv ap0" using start_server_inv [OF s] ref_detector_ok by simp
  define ap where "ap = ap0\<lparr>ap_auth := ref_auth_service, ap_cors := default_cors_config\<rparr>"
  have ap: "app_inv ap" "ap_auth ap = ref_auth_service" "ap_cors ap = default_cors_config"
    using \<open>app_inv ap0\<close> by (simp_all add: ap_def app_inv_def au_inv_def new_rwdb_def)
  obtain c' ap' w' r t where g: "serve ref_env (''POST'', ''/api/v1/auth/register'', False, EpRegister) signup_request (ap, ref_init 0) =
      (c', Some (ap', w'))" "gn_written c' = [(200, Some r)]" "ar_data r = Some (Authn (DToken t))"
    and t: "tr_user_id t = 1" "tr_username t = ''alice''" "tr_access_token t = ''token''" "rf_clock w' = 0"
    using ref_signup [OF ap(2,3)] by blast
  have l: "clock_ok (se_services ref_env) rf_clock" "auth_clock_ok (se_auth ref_env) rf_clock" "\<forall>w. rf_clock w \<le> rf_clock (snd (se_uuid ref_env w))"
    "(''POST'', ''/api/v1/auth/register'', False, EpRegister) \<in> set auth_routes" "(''GET'', ''/api/v1/auth/me'', True, EpGetMe) \<in> set v1_routes"
    using ref_clock_ok ref_auth_clock_ok by (simp_all add: ref_env_def auth_routes_def v1_routes_def)
  have q: "\<not> origin_refused (ap_cors ap) token_request" "rq_method token_request \<noteq> ''OPTIONS''"
    "rq_headers token_request ''Authorization'' = ''Bearer '' @ tr_access_token t"
    by (simp_all add: ap(3) t origin_refused_def default_cors_config_def token_request_def sample_request_def Let_def)
  have z: "rf_clock (ref_init 0) = 0" by (simp add: ref_init_def)
  have "answered_as ref_env (''GET'', ''/api/v1/auth/me'', True, EpGetMe) token_request (tr_user_id t) (tr_username t) (ap, w')"
    using t z by (intro issued_token_opens_the_routes [OF ref_laws(1) l(1-4) g _ _ _ _ l(5) ap(1) refl q(3,1,2)])
      (simp_all add: ap(2) second_def)
  with g t show ?thesis by metis
qed

theorem answers_conform_to_documentation_witness:
  "\<exists>ap c' ap' w' r. serve ref_env (''POST'', ''/api/v1/auth/register'', False, EpRegister) signup_request (ap, ref_init 0) =
      (c', Some (ap', w')) \<and> gn_written c' = [(200, Some r)] \<and>
     documented (SAllOf [model_ref ''ApiResponse'', SObject [] [(''data'', model_ref ''TokenResponse'')]])
       (response_json (data_json (\<lambda>_. JNull)) r)"
proof -
  define ap where "ap = order_server kafka_service"
  obtain c' ap' w' r t where g: "serve ref_env (''POST'', ''/api/v1/auth/register'', False, EpRegister) signup_request (ap, ref_init 0) =
      (c', Some (ap', w'))" "gn_written c' = [(200, Some r)]" "ar_data r = Some (Authn (DToken t))"
    using ref_signup [of ap] by (auto simp: ap_def)
  have k: "operation_key doc_register = (''POST'', ''/api/v1/auth/register'', False)" by code_simp
  have m: "doc_register \<in> set (sw_operations swagger_info)" "(''POST'', ''/api/v1/auth/register'', False, EpRegister) \<in> set routes"
    "(200, ''OK'', SAllOf [model_ref ''ApiResponse'', SObject [] [(''data'', model_ref ''TokenResponse'')]]) \<in> set (op_responses doc_register)"
    by (simp_all add: swagger_info_def doc_operations_def routes_def auth_routes_def doc_register_def)
  have w: "gn_written (fst (serve ref_env (''POST'', ''/api/v1/auth/register'', False, EpRegister) signup_request (ap, ref_init 0))) = [(200, Some r)]"
    using g by simp
  have "\<forall>d. ar_data r = Some d \<longrightarrow> data_ok d" using g(3) by (simp add: data_ok_def)
  from answers_conform_to_documentation [OF m(1,2) k m(3) w this] g show ?thesis by blast
qed

text \<open>The reference environment with a validator that follows the tags; an address contains an at sign.\<close>

definition has_at :: "string \<Rightarrow> bool" where
  "has_at s = list_ex (\<lambda>c. c = CHR ''@'') s"

definition by_tags :: "('r \<Rightarrow> (field_value \<times> validate_tag list) list) \<Rightarrow> 'r \<Rightarrow> goerr option" where
  "by_tags fs r = (if struct_ok has_at (fs r) then None else Some (Errorf ''validation failed''))"

definition tagged_env :: "ref_world server_env" where
  "tagged_env = ref_env\<lparr>se_valid_create := by_tags create_fields, se_valid_profile := by_tags profile_fields,
     se_valid_register := by_tags register_fields, se_valid_login := by_tags login_fields\<rparr>"

lemma tagged_validator_ok: "validator_ok has_at tagged_env"
  by (simp add: validator_ok_def tagged_env_def by_tags_def)

definition signup_of :: "register_request \<Rightarrow> http_request" where
  "signup_of r = sample_request\<lparr>rq_method := ''POST'', rq_body := Some (JText (register_json r))\<rparr>"

lemma signup_body_ok: "body_ok email EpRegister (new_gin (signup_of r) :: 'd gin) \<longleftrightarrow> struct_ok email (register_fields r)"
  by (simp add: body_ok_def body_satisfies_def bind_json_def new_gin_def signup_of_def request_roundtrip)

definition sample_signup :: register_request where
  "sample_signup = \<lparr>rr_username = ''alice'', rr_password = ''secret1'', rr_email = ''alice@example.com'', rr_phone = []\<rparr>"

lemma sample_signup_ok:
  "struct_ok has_at (register_fields sample_signup)" "\<not> struct_ok has_at (register_fields (sample_signup\<lparr>rr_username := ''al''\<rparr>))"
  by (simp_all add: valid_register_iff sample_signup_def rune_count_def has_at_def)

theorem bad_requests_are_refused_witness:
  "(\<exists>c' w'. serve tagged_env (''POST'', ''/api/v1/auth/register'', False, EpRegister) (signup_of (sample_signup\<lparr>rr_username := ''al''\<rparr>))
       (order_server kafka_service, ref_init 0) = (c', Some (order_server kafka_service, w')) \<and>
     map fst (gn_written c') \<in> {[400], [401], [403], [204]}) \<and>
   400 \<notin> set (map fst (gn_written (fst (serve tagged_env (''POST'', ''/api/v1/auth/register'', False, EpRegister)
     (signup_of sample_signup) (order_server kafka_service, ref_init 0)))))"
proof -
  have v: "EpRegister \<in> set validated" by (simp add: validated_def)
  note r = bad_requests_are_refused [OF tagged_validator_ok v, of _ "''POST''" "''/api/v1/auth/register''" False "order_server kafka_service" "ref_init 0",
      unfolded signup_body_ok]
  show ?thesis
    using r [of "signup_of sample_signup"] r [of "signup_of (sample_signup\<lparr>rr_username := ''al''\<rparr>)"]
    unfolding signup_body_ok by (simp only: sample_signup_ok if_True if_False simp_thms)
qed

theorem validation_matches_documentation_witness:
  "documented (model_ref ''RegisterRequest'') (register_json sample_signup) \<and>
   documented (model_ref ''CreateOrderRequest'') (create_json \<lparr>cor_user_id = 7, cor_amount = 100\<rparr>)"
proof -
  have "se_valid_register tagged_env sample_signup = None" "se_valid_create tagged_env \<lparr>cor_user_id = 7, cor_amount = 100\<rparr> = None"
    by (simp_all add: tagged_env_def by_tags_def sample_signup_ok valid_create_iff)
  then show ?thesis using validation_matches_documentation [OF tagged_validator_ok] by blast
qed

end
